(* ===== verification/Prelude.thy ===== *)
theory Prelude
  imports Main "HOL-Library.Word"
begin

text \<open>
  Shared vocabulary of the development: machine integers of the x86\_64 build of iPXE
  (\<open>unsigned int\<close> is 32 bits, \<open>unsigned long\<close> and \<open>size_t\<close> are 64 bits), byte buffers, the
  status codes the code returns, and the generic facts about words, lists and options that
  the component theories use.
\<close>

unbundle bit_operations_syntax

section \<open>Types\<close>

type_synonym u8 = "8 word"
type_synonym u16 = "16 word"
type_synonym u32 = "32 word"
type_synonym u64 = "64 word"
type_synonym bytes = "u8 list"

text \<open>
  The (positive) error numbers of \<open>include/errno.h\<close> that the modelled code returns negated.
  A C function that returns a negative error number or a value is a value of the sum type.
\<close>

datatype errno =
    EINVAL | ENOMEM | ENOENT | ENOBUFS | ERANGE | ENOSPC | EEXIST | ENOTSUP
  | ENOEXEC | ENETUNREACH | ENETDOWN | EIO | ETIMEDOUT | ECANCELED | EAGAIN
  | EACCES | EBUSY | EPROTO | ENXIO | ENOTTY | ECHILD | ENOTCONN | EPERM
  | EPROTONOSUPPORT | EAFNOSUPPORT | EADDRINUSE | ECONNRESET | ECONNREFUSED | ESTALE
  | EPIPE_REPETITION_COUNT_TEST | EPIPE_ADAPTIVE_PROPORTION_TEST

type_synonym 'a result = "errno + 'a"

section \<open>Collections of facts\<close>

named_theorems word_arith \<open>moving word arithmetic to natural numbers\<close>
named_theorems buf_simps \<open>reading and writing byte buffers\<close>

section \<open>Words\<close>

text \<open>Masks \<open>2 ^ k - 1\<close> as the code writes them.\<close>

lemma mask_and: "x AND (2 ^ k - 1) = take_bit k x" for x :: "'a::len word"
  by (simp add: take_bit_eq_mask mask_eq_exp_minus_1)

lemma mask_and_not: "x AND NOT (2 ^ k - 1) = x - take_bit k x" for x :: "'a::len word"
proof -
  have "(x AND NOT (mask k)) + (x AND mask k) = x AND (NOT (mask k) OR mask k)"
    by (subst disjunctive_add_eq_or) (auto simp: bit_eq_iff bit_simps)
  then have "(x AND NOT (mask k)) + take_bit k x = x"
    by (simp add: take_bit_eq_mask)
  then show ?thesis by (simp add: mask_eq_exp_minus_1 eq_diff_eq)
qed

lemma mask_or: "((2 ^ j - 1) OR (2 ^ k - 1) :: 'a::len word) = 2 ^ max j k - 1"
  by (simp flip: mask_eq_exp_minus_1) (rule bit_eqI, auto simp: bit_simps)

lemma unat_take_bit: "unat (take_bit k x) = unat x mod 2 ^ k" for x :: "'a::len word"
  by (simp add: unsigned_take_bit_eq flip: take_bit_eq_mod)

lemma unat_word_diff: "y \<le> x \<Longrightarrow> unat (x - y) = unat x - unat y" for x :: "'a::len word"
  by (rule unat_sub)

lemma take_bit_le: "take_bit k x \<le> x" for x :: "'a::len word"
  by (simp add: word_le_nat_alt unat_take_bit)

lemma unat_round_down: "unat (x - take_bit k x) = unat x - unat x mod 2 ^ k"
  for x :: "'a::len word"
  by (simp add: unat_word_diff take_bit_le unat_take_bit)

lemma take_bit_round_down: "take_bit k (x - take_bit k x) = 0" for x :: "'a::len word"
  unfolding mask_and_not [symmetric] mask_eq_exp_minus_1 [symmetric]
  by (rule bit_eqI) (auto simp: bit_simps)

lemma take_bit_add_cong:
  fixes x y :: "'a::len word"
  assumes "take_bit k x = take_bit k x'" and "take_bit k y = take_bit k y'"
  shows "take_bit k (x + y) = take_bit k (x' + y')"
proof (cases "k \<le> LENGTH('a)")
  case True
  have "unat (a + b) mod 2 ^ k = (unat a mod 2 ^ k + unat b mod 2 ^ k) mod 2 ^ k" for a b :: "'a word"
    using True by (simp add: unat_word_ariths mod_mod_cancel le_imp_power_dvd mod_add_eq)
  then show ?thesis using assms by (simp add: word_unat_eq_iff unat_take_bit)
next
  case False
  then show ?thesis using assms by (simp add: take_bit_word_eq_self)
qed

lemma unat_add_no_wrap: "unat x + unat y < 2 ^ LENGTH('a) \<Longrightarrow> unat (x + y) = unat x + unat y"
  for x y :: "'a::len word"
  by (simp add: unat_word_ariths)

lemma unat_pow2: "k < LENGTH('a) \<Longrightarrow> unat (2 ^ k :: 'a::len word) = 2 ^ k"
  using unat_of_nat [of "2 ^ k", where 'a = 'a] by simp

lemma unat_u64_less: "unat w < 2 ^ 64" for w :: u64
  using unsigned_less [of w] by simp

lemma unat_u8_less: "unat w < 256" for w :: u8
  using unsigned_less [of w] by simp

lemma unat_u16_less: "unat w < 65536" for w :: u16
  using unsigned_less [of w] by simp

lemma unat_u32_less: "unat w < 2 ^ 32" for w :: u32
  using unsigned_less [of w] by simp

lemma unat_drop_bit: "unat (drop_bit k x) = unat x div 2 ^ k" for x :: "'a::len word"
  by (simp add: unsigned_drop_bit_eq drop_bit_eq_div take_bit_nat_eq_self flip: drop_bit_eq_div)

lemma unat_ucast_up:
  "LENGTH('a) \<le> LENGTH('b) \<Longrightarrow> unat (ucast w :: 'b::len word) = unat w" for w :: "'a::len word"
proof -
  assume "LENGTH('a) \<le> LENGTH('b)"
  then have "(2 :: nat) ^ LENGTH('a) \<le> 2 ^ LENGTH('b)" by (intro power_increasing) simp_all
  then have "unat w < 2 ^ LENGTH('b)" using unsigned_less [of w] by (meson less_le_trans)
  then show "unat (ucast w :: 'b word) = unat w" by (simp add: unsigned_ucast_eq take_bit_nat_eq_self)
qed

lemma dvd_round_down: "(2 :: nat) ^ k dvd n - n mod 2 ^ k"
  by (simp add: minus_mod_eq_mult_div)

lemma sint64_nonneg_iff: "(0 \<le> sint w) = (unat w < 2 ^ 63)" for w :: u64
proof -
  define q where "q = unat w div 2 ^ 63"
  have "unat w < 2 ^ 64" using unsigned_less [of w] by simp
  then have "q < 2" unfolding q_def by (intro less_mult_imp_div_less) simp
  have "0 \<le> sint w \<longleftrightarrow> \<not> bit (unat w) 63" by (simp add: sint_uint bit_simps)
  also have "\<dots> \<longleftrightarrow> even q" by (simp add: bit_iff_odd q_def)
  also have "\<dots> \<longleftrightarrow> q = 0" using \<open>q < 2\<close> by (auto simp: less_2_cases_iff)
  also have "\<dots> \<longleftrightarrow> unat w < 2 ^ 63" by (simp add: q_def div_eq_0_iff)
  finally show ?thesis .
qed

lemma ucast_ucast_mask8: "ucast (ucast v :: u8) = take_bit 8 v" for v :: u64
  by (rule bit_eqI) (auto simp: bit_simps)

section \<open>Lists\<close>

lemma take_Suc_nth: "i < length xs \<Longrightarrow> take (Suc i) xs = take i xs @ [xs ! i]"
  by (rule take_Suc_conv_app_nth)

end
