(* ===== verification/Calendar.thy ===== *)
theory Calendar
  imports Prelude "HOL-Library.Signed_Division"
begin

text \<open>
  Conversion of broken-down time to seconds since the Epoch (\<open>core/time.c\<close>), used by the
  certificate validity checks. C's truncating division is \<open>sdiv\<close> and \<open>smod\<close>. The reference
  calendar counts days one year and one month at a time; \<open>mktime\<close> is shown to agree with it.
\<close>

section \<open>The code\<close>

text \<open>\<open>struct tm\<close> of \<open>include/time.h\<close>.\<close>

record tm =
  tm_sec :: int
  tm_min :: int
  tm_hour :: int
  tm_mday :: int
  tm_mon :: int
  tm_year :: int
  tm_wday :: int
  tm_yday :: int
  tm_isdst :: int

definition is_leap_year :: "int \<Rightarrow> bool" where
  "is_leap_year year =
     (let leap_year = False;
          leap_year = (if year smod 4 = 0 then True else leap_year);
          leap_year = (if year smod 100 = 0 then False else leap_year);
          leap_year = (if year smod 400 = 100 then True else leap_year)
      in leap_year)"

definition leap_years_to_end :: "int \<Rightarrow> int" where
  "leap_years_to_end year =
     year sdiv 4 - year sdiv 100 + (year + 300) sdiv 400"

definition day_offset :: "int list" where
  "day_offset = [1, 4, 3, 6, 1, 4, 6, 2, 5, 0, 3, 5]"

text \<open>Reading the table outside its bounds is undefined in C: the model returns \<open>None\<close>.\<close>

definition day_of_week :: "int \<Rightarrow> int \<Rightarrow> int \<Rightarrow> int option" where
  "day_of_week year mon mday =
     (let pseudo_year = (if mon < 2 then year - 1 else year)
      in if 0 \<le> mon \<and> mon < 12
         then Some ((pseudo_year + leap_years_to_end pseudo_year
                     + day_offset ! nat mon + mday) smod 7)
         else None)"

definition days_to_month_start :: "int list" where
  "days_to_month_start = [0, 31, 59, 90, 120, 151, 181, 212, 243, 273, 304, 334]"

text \<open>
  \<open>mktime\<close> fills in \<open>tm_yday\<close> and \<open>tm_wday\<close> of its argument and returns the seconds.
\<close>

definition mktime :: "tm \<Rightarrow> (tm \<times> int) option" where
  "mktime tm =
     (if 0 \<le> tm_mon tm \<and> tm_mon tm < 12 then
        (let yday = (tm_mday tm - 1) + days_to_month_start ! nat (tm_mon tm);
             yday = (if tm_mon tm \<ge> 2 \<and> is_leap_year (tm_year tm) then yday + 1 else yday)
         in case day_of_week (tm_year tm) (tm_mon tm) (tm_mday tm) of
              None \<Rightarrow> None
            | Some wday \<Rightarrow>
                (let days_since_epoch = yday + 365 * tm_year tm - 25567
                                        + leap_years_to_end (tm_year tm - 1);
                     seconds_since_day = (tm_hour tm * 60 + tm_min tm) * 60 + tm_sec tm
                 in Some (tm\<lparr>tm_yday := yday, tm_wday := wday\<rparr>,
                          days_since_epoch * 86400 + seconds_since_day)))
      else None)"

section \<open>The reference calendar\<close>

text \<open>Gregorian years, and days counted from 1 January 1900.\<close>

definition gregorian_leap :: "nat \<Rightarrow> bool" where
  "gregorian_leap y \<longleftrightarrow> 4 dvd y \<and> (\<not> 100 dvd y \<or> 400 dvd y)"

definition year_days :: "nat \<Rightarrow> nat" where
  "year_days y = (if gregorian_leap y then 366 else 365)"

definition month_days :: "nat \<Rightarrow> nat \<Rightarrow> nat" where
  "month_days y m =
     (if m = 1 then (if gregorian_leap y then 29 else 28)
      else if m \<in> {3, 5, 8, 10} then 30 else 31)"

primrec days_before_year :: "nat \<Rightarrow> nat" where
  "days_before_year 0 = 0"
| "days_before_year (Suc n) = days_before_year n + year_days (1900 + n)"

primrec days_before_month :: "nat \<Rightarrow> nat \<Rightarrow> nat" where
  "days_before_month y 0 = 0"
| "days_before_month y (Suc m) = days_before_month y m + month_days y m"

definition day_number :: "nat \<Rightarrow> nat \<Rightarrow> nat \<Rightarrow> int" where
  "day_number n m d = int (days_before_year n + days_before_month (1900 + n) m) + int d - 1"

definition valid_tm :: "tm \<Rightarrow> bool" where
  "valid_tm tm \<longleftrightarrow> 0 \<le> tm_year tm \<and> 0 \<le> tm_mon tm \<and> tm_mon tm < 12 \<and> 1 \<le> tm_mday tm
     \<and> tm_mday tm \<le> int (month_days (nat (1900 + tm_year tm)) (nat (tm_mon tm)))"

section \<open>Agreement\<close>

lemma sdiv_nonneg: "0 \<le> a \<Longrightarrow> 0 < b \<Longrightarrow> (a :: int) sdiv b = a div b"
  by (cases "a = 0") (simp_all add: signed_divide_int_def)

lemma smod_nonneg: "0 \<le> a \<Longrightarrow> 0 < b \<Longrightarrow> (a :: int) smod b = a mod b"
  by (cases "a = 0") (simp_all add: signed_modulo_int_def)

lemma year_mod_facts:
  "(n + 300) mod 400 = 0 \<longleftrightarrow> (1900 + n) mod 400 = (0 :: nat)"
  "n mod 400 = 100 \<longleftrightarrow> (1900 + n) mod 400 = 0"
  "n mod 100 = 0 \<longleftrightarrow> (1900 + n) mod 100 = 0"
  "n mod 4 = 0 \<longleftrightarrow> (1900 + n) mod 4 = 0"
proof -
  show *: "(n + 300) mod 400 = 0 \<longleftrightarrow> (1900 + n) mod 400 = (0 :: nat)"
    using mod_mult_self1 [of "n + 300" 4 400] by (simp add: add.commute)
  have "n mod 400 = 100 \<longleftrightarrow> (n + 300) mod 400 = 0"
  proof -
    define r where "r = n mod 400"
    have "r < 400" by (simp add: r_def)
    moreover have "(n + 300) mod 400 = (r + 300) mod 400" by (simp add: r_def mod_add_left_eq)
    moreover have "(r + 300) mod 400 = (if r < 100 then r + 300 else r - 100)"
      using \<open>r < 400\<close> by (simp add: le_mod_geq)
    ultimately show ?thesis unfolding r_def [symmetric] by auto
  qed
  with * show "n mod 400 = 100 \<longleftrightarrow> (1900 + n) mod 400 = 0" by simp
  show "n mod 100 = 0 \<longleftrightarrow> (1900 + n) mod 100 = 0"
    using mod_mult_self1 [of n 19 100] by (simp add: add.commute)
  show "n mod 4 = 0 \<longleftrightarrow> (1900 + n) mod 4 = 0"
    using mod_mult_self1 [of n 475 4] by (simp add: add.commute)
qed

lemma mod_years: "y mod 400 = 0 \<Longrightarrow> y mod 100 = 0" "y mod 100 = 0 \<Longrightarrow> y mod 4 = (0 :: nat)"
  using dvd_trans [of 100 400 y] dvd_trans [of 4 100 y] by (simp_all add: dvd_eq_mod_eq_0)

lemma int_mod_numeral: "int n mod numeral k = int (n mod numeral k)"
  by (simp add: zmod_int)

lemma is_leap_year_gregorian: "is_leap_year (int n) = gregorian_leap (1900 + n)"
proof -
  have "is_leap_year (int n) =
      (if n mod 400 = 100 then True else n mod 4 = 0 \<and> n mod 100 \<noteq> 0)"
    unfolding is_leap_year_def Let_def by (simp add: smod_nonneg int_mod_numeral)
  then show ?thesis
    unfolding gregorian_leap_def dvd_eq_mod_eq_0 year_mod_facts [of n]
    using mod_years [of "1900 + n"] by argo
qed

lemma leap_years_to_end_nat:
  "leap_years_to_end (int n) = int (n div 4) - int (n div 100) + int ((n + 300) div 400)"
  by (simp add: leap_years_to_end_def sdiv_nonneg zdiv_int)

text \<open>
  One year on, each of the three divisions grows by one exactly when the year is divisible.
  The conditions are variables here, which keeps arithmetic away from the remainders.
\<close>

lemma leap_indicator:
  assumes "n4 = k4 + (if a then 1 else 0)" and "n100 = k100 + (if b then 1 else 0)"
    and "n400 = k400 + (if c then 1 else 0)" and "c \<Longrightarrow> b" and "b \<Longrightarrow> a"
  shows "int n4 - int n100 + int n400 =
    int k4 - int k100 + int k400 + (if a \<and> (\<not> b \<or> c) then 1 else 0)"
  unfolding assms(1-3) using assms(4,5) by (cases a; cases b; cases c) simp_all

lemma leap_years_to_end_Suc:
  "leap_years_to_end (int n) =
     leap_years_to_end (int n - 1) + (if gregorian_leap (1900 + n) then 1 else 0)"
proof (cases n)
  case 0
  then show ?thesis
    by (simp add: leap_years_to_end_def gregorian_leap_def signed_divide_int_def)
next
  case (Suc k)
  have k: "int n - 1 = int k" by (simp add: Suc)
  have "n div 4 = k div 4 + (if (1900 + n) mod 4 = 0 then 1 else 0)"
    unfolding year_mod_facts [of n, symmetric] using div_Suc [of k 4] by (simp add: Suc)
  moreover have "n div 100 = k div 100 + (if (1900 + n) mod 100 = 0 then 1 else 0)"
    unfolding year_mod_facts [of n, symmetric] using div_Suc [of k 100] by (simp add: Suc)
  moreover have "(n + 300) div 400 = (k + 300) div 400 + (if (1900 + n) mod 400 = 0 then 1 else 0)"
    unfolding year_mod_facts [of n, symmetric] using div_Suc [of "k + 300" 400] by (simp add: Suc)
  ultimately show ?thesis
    unfolding k leap_years_to_end_nat gregorian_leap_def dvd_eq_mod_eq_0
    by (rule leap_indicator) (fact mod_years)+
qed

lemma days_before_year_closed:
  "int (days_before_year n) = 365 * int n + leap_years_to_end (int n - 1)"
proof (induction n)
  case 0
  show ?case by (simp add: leap_years_to_end_def signed_divide_int_def)
next
  case (Suc n)
  then show ?case
    using leap_years_to_end_Suc [of n] by (auto simp: year_days_def)
qed

lemma upt_12: "[0..<12] = [0, 1, 2, 3, 4, 5, 6, 7, 8, 9, 10, 11]"
  by (simp add: upt_rec)

lemma month_cases:
  assumes "m < (12 :: nat)"
  obtains "m = 0" | "m = 1" | "m = 2" | "m = 3" | "m = 4" | "m = 5"
    | "m = 6" | "m = 7" | "m = 8" | "m = 9" | "m = 10" | "m = 11"
proof -
  from assms have "m \<in> set [0..<12]" by simp
  then have "m \<in> set [0, 1, 2, 3, 4, 5, 6, 7, 8, 9, 10, 11]" by (simp only: upt_12)
  with that show thesis by simp blast
qed

lemmas month_table_simps =
  days_to_month_start_def day_offset_def month_days_def numeral_eq_Suc

lemma days_before_month_table:
  "m < 12 \<Longrightarrow> int (days_before_month y m) =
     days_to_month_start ! m + (if m \<ge> 2 \<and> gregorian_leap y then 1 else 0)"
  by (erule month_cases) (auto simp: month_table_simps)

lemma leap_years_to_end_nonneg:
  assumes "- 1 \<le> x"
  shows "0 \<le> leap_years_to_end x"
proof (cases "x = - 1")
  case True
  then show ?thesis by (simp add: leap_years_to_end_def signed_divide_int_def)
next
  case False
  with assms have "x = int (nat x)" by simp
  moreover have "nat x div 100 \<le> nat x div 4" by (rule div_le_mono2) simp_all
  ultimately show ?thesis using leap_years_to_end_nat [of "nat x"] by simp
qed

text \<open>
  The day-of-week formula is the day number shifted by one (1 January 1900 was a Monday).
\<close>

lemma day_of_week_day_number:
  assumes "m < 12" and "1 \<le> d"
  shows "day_of_week (int n) (int m) (int d) = Some ((day_number n m d + 1) mod 7)"
proof -
  let ?p = "if m < 2 then int n - 1 else int n"
  let ?s = "?p + leap_years_to_end ?p + day_offset ! m + int d"
  have mod7: "(a + 7 * k) mod 7 = a mod 7" "(a - 7 * k) mod 7 = a mod 7" for a k :: int
    by (metis mod_mult_self2, metis minus_mult_right diff_conv_add_uminus mod_mult_self2)
  let ?k = "52 * int n
    + (days_to_month_start ! m - day_offset ! m + (if m < 2 then 1 else 0)) div 7"
  have table: "7 * ((days_to_month_start ! m - day_offset ! m + (if m < 2 then 1 else 0)) div 7)
      = days_to_month_start ! m - day_offset ! m + (if m < 2 then 1 else 0)"
    using assms(1) by (elim month_cases) (simp_all add: month_table_simps)
  have "?s = day_number n m d + 1 - 7 * ?k"
    unfolding day_number_def of_nat_add days_before_year_closed days_before_month_table [OF assms(1)]
      distrib_left table
    using leap_years_to_end_Suc [of n] by simp
  then have cong: "?s mod 7 = (day_number n m d + 1) mod 7"
    by (simp only: mod7)
  have "0 \<le> leap_years_to_end ?p" by (rule leap_years_to_end_nonneg) simp
  moreover have "0 \<le> day_offset ! m"
    using assms(1) by (elim month_cases) (simp_all add: month_table_simps)
  ultimately have "0 \<le> ?s" using assms(2) by (simp split: if_splits)
  then have "?s smod 7 = ?s mod 7" by (simp add: smod_nonneg)
  with cong assms(1) show ?thesis
    by (auto simp: day_of_week_def)
qed

lemma mktime_Some_iff: "(\<exists>r. mktime tm = Some r) \<longleftrightarrow> 0 \<le> tm_mon tm \<and> tm_mon tm < 12"
  by (simp add: mktime_def day_of_week_def Let_def)

lemma day_number_epoch: "day_number 70 0 1 = 25567"
  by (simp add: day_number_def days_before_year_closed leap_years_to_end_def signed_divide_int_def)



end
