(* ===== verification/Memory.thy ===== *)
theory Memory
  imports Prelude
begin

text \<open>
  The memory functions of \<open>core/string.c\<close>, over an explicit memory: a function from 64-bit
  addresses to bytes, so that overlapping source and destination regions are seen. Pointers
  advance by wrapping 64-bit addition, and a length is the number of iterations of the loop.
\<close>

type_synonym memory = "u64 \<Rightarrow> u8"

section \<open>The code\<close>

fun generic_memset :: "memory \<Rightarrow> u64 \<Rightarrow> u32 \<Rightarrow> nat \<Rightarrow> memory" where
  "generic_memset mem dest character 0 = mem"
| "generic_memset mem dest character (Suc len) =
     generic_memset (mem(dest := ucast character)) (dest + 1) character len"

fun generic_memcpy :: "memory \<Rightarrow> u64 \<Rightarrow> u64 \<Rightarrow> nat \<Rightarrow> memory" where
  "generic_memcpy mem dest src 0 = mem"
| "generic_memcpy mem dest src (Suc len) =
     generic_memcpy (mem(dest := mem src)) (dest + 1) (src + 1) len"

text \<open>The backward copy starts from the ends of both regions and moves down.\<close>

fun memcpy_down :: "memory \<Rightarrow> u64 \<Rightarrow> u64 \<Rightarrow> nat \<Rightarrow> memory" where
  "memcpy_down mem dest_bytes src_bytes 0 = mem"
| "memcpy_down mem dest_bytes src_bytes (Suc len) =
     memcpy_down (mem(dest_bytes - 1 := mem (src_bytes - 1))) (dest_bytes - 1) (src_bytes - 1) len"

definition generic_memcpy_reverse :: "memory \<Rightarrow> u64 \<Rightarrow> u64 \<Rightarrow> nat \<Rightarrow> memory" where
  "generic_memcpy_reverse mem dest src len =
     memcpy_down mem (dest + of_nat len) (src + of_nat len) len"

definition generic_memmove :: "memory \<Rightarrow> u64 \<Rightarrow> u64 \<Rightarrow> nat \<Rightarrow> memory" where
  "generic_memmove mem dest src len =
     (if dest < src then generic_memcpy mem dest src len
      else generic_memcpy_reverse mem dest src len)"

text \<open>The difference of two bytes is a C \<open>int\<close>.\<close>

fun memcmp :: "memory \<Rightarrow> u64 \<Rightarrow> u64 \<Rightarrow> nat \<Rightarrow> int" where
  "memcmp mem first second 0 = 0"
| "memcmp mem first second (Suc len) =
     (let diff = uint (mem first) - uint (mem second)
      in if diff \<noteq> 0 then diff else memcmp mem (first + 1) (second + 1) len)"

text \<open>The byte is compared with the whole \<open>int\<close> argument; NULL is \<open>None\<close>.\<close>

fun memchr :: "memory \<Rightarrow> u64 \<Rightarrow> int \<Rightarrow> nat \<Rightarrow> u64 option" where
  "memchr mem src character 0 = None"
| "memchr mem src character (Suc len) =
     (if uint (mem src) = character then Some src else memchr mem (src + 1) character len)"

fun memswap :: "memory \<Rightarrow> u64 \<Rightarrow> u64 \<Rightarrow> nat \<Rightarrow> memory" where
  "memswap mem first second 0 = mem"
| "memswap mem first second (Suc len) =
     (let temp = mem first;
          mem = mem(first := mem second);
          mem = mem(second := temp)
      in memswap mem (first + 1) (second + 1) len)"

section \<open>Regions\<close>

text \<open>
  The bytes of a region of \<open>n\<close> bytes at \<open>p\<close>, and membership of an address. A region does not
  wrap when it ends at or below the top of the address space.
\<close>

definition region :: "memory \<Rightarrow> u64 \<Rightarrow> nat \<Rightarrow> bytes" where
  "region mem p n = map (\<lambda>i. mem (p + of_nat i)) [0..<n]"

definition in_region :: "u64 \<Rightarrow> nat \<Rightarrow> u64 \<Rightarrow> bool" where
  "in_region p n q \<longleftrightarrow> unat (q - p) < n"

definition no_wrap :: "u64 \<Rightarrow> nat \<Rightarrow> bool" where
  "no_wrap p n \<longleftrightarrow> unat p + n \<le> 2 ^ 64"

lemma length_region [simp]: "length (region mem p n) = n"
  by (simp add: region_def)

lemma nth_region [simp]: "i < n \<Longrightarrow> region mem p n ! i = mem (p + of_nat i)"
  by (simp add: region_def)

lemma in_region_0 [simp]: "\<not> in_region p 0 q"
  by (simp add: in_region_def)

lemma unat_diff_Suc: "q \<noteq> p \<Longrightarrow> unat (q - (p + 1)) = unat (q - p) - 1" for p q :: u64
  using unat_minus_one [of "q - p"] by (simp add: algebra_simps)

lemma in_region_Suc: "in_region p (Suc n) q \<longleftrightarrow> q = p \<or> in_region (p + 1) n q"
proof (cases "q = p")
  case True
  then show ?thesis by (simp add: in_region_def)
next
  case False
  then have "unat (q - p) > 0" by (simp add: unat_gt_0)
  with False show ?thesis
    by (auto simp: in_region_def unat_diff_Suc)
qed

lemma in_regionE:
  assumes "in_region p n q"
  obtains i where "i < n" and "q = p + of_nat i"
proof
  show "unat (q - p) < n" using assms by (simp add: in_region_def)
  show "q = p + of_nat (unat (q - p))" by simp
qed

lemma in_region_iff:
  assumes "no_wrap p n"
  shows "in_region p n q \<longleftrightarrow> unat p \<le> unat q \<and> unat q < unat p + n"
proof (cases "p \<le> q")
  case True
  then have "unat (q - p) = unat q - unat p" by (rule unat_sub)
  with True show ?thesis by (auto simp: in_region_def word_le_nat_alt)
next
  case False
  then have "unat (q - p) = 2 ^ 64 - (unat p - unat q)"
    using unat_sub_if' [of q p] by (simp add: word_le_nat_alt)
  with False assms show ?thesis
    by (auto simp: in_region_def word_le_nat_alt no_wrap_def)
qed

lemma in_regionI: "i < n \<Longrightarrow> n \<le> 2 ^ 64 \<Longrightarrow> in_region p n (p + of_nat i)"
  by (simp add: in_region_def unat_of_nat)

section \<open>Copying\<close>

lemma generic_memset_apply:
  "generic_memset mem dest c n q = (if in_region dest n q then ucast c else mem q)"
  by (induction n arbitrary: mem dest) (auto simp: in_region_Suc)

text \<open>
  A forward copy is right when no byte is overwritten before it is read, a backward copy
  when no byte below is.
\<close>

lemma generic_memcpy_apply:
  assumes "\<And>i j. i < j \<Longrightarrow> j < n \<Longrightarrow> dest + of_nat i \<noteq> src + of_nat j"
  shows "generic_memcpy mem dest src n q =
    (if in_region dest n q then mem (src + (q - dest)) else mem q)"
  using assms
proof (induction n arbitrary: mem dest src)
  case 0
  then show ?case by simp
next
  case (Suc n)
  have "generic_memcpy mem dest src (Suc n) q =
      (if in_region (dest + 1) n q
       then (mem(dest := mem src)) (src + 1 + (q - (dest + 1))) else (mem(dest := mem src)) q)"
    using Suc.IH [of "dest + 1" "src + 1"] Suc.prems [of "Suc _" "Suc _"]
    by (simp add: algebra_simps)
  moreover have "src + 1 + (q - (dest + 1)) \<noteq> dest" if in_r: "in_region (dest + 1) n q"
  proof -
    obtain i where "i < n" and "q = dest + 1 + of_nat i" using in_r by (rule in_regionE)
    then show ?thesis using Suc.prems [of 0 "Suc i"] by (simp add: algebra_simps)
  qed
  ultimately show ?case
    by (auto simp: in_region_Suc)
qed

lemma memcpy_down_apply:
  assumes "\<And>i j. i < j \<Longrightarrow> j < n \<Longrightarrow> dest + of_nat j \<noteq> src + of_nat i" and "n \<le> 2 ^ 64"
  shows "memcpy_down mem (dest + of_nat n) (src + of_nat n) n q =
    (if in_region dest n q then mem (src + (q - dest)) else mem q)"
  using assms
proof (induction n arbitrary: mem)
  case 0
  then show ?case by simp
next
  case (Suc n)
  let ?m = "mem(dest + of_nat n := mem (src + of_nat n))"
  have "memcpy_down mem (dest + of_nat (Suc n)) (src + of_nat (Suc n)) (Suc n) =
      memcpy_down ?m (dest + of_nat n) (src + of_nat n) n"
    by simp
  moreover have "memcpy_down ?m (dest + of_nat n) (src + of_nat n) n q =
      (if in_region dest n q then ?m (src + (q - dest)) else ?m q)"
    using Suc.prems by (intro Suc.IH) auto
  ultimately have "memcpy_down mem (dest + of_nat (Suc n)) (src + of_nat (Suc n)) (Suc n) q =
      (if in_region dest n q then ?m (src + (q - dest)) else ?m q)"
    by (simp only:)
  moreover have "src + (q - dest) \<noteq> dest + of_nat n" if in_r: "in_region dest n q"
  proof -
    obtain i where "i < n" and "q = dest + of_nat i" using in_r by (rule in_regionE)
    then show ?thesis using Suc.prems(1) [of i n] by (simp add: algebra_simps)
  qed
  moreover have "in_region dest (Suc n) q \<longleftrightarrow> q = dest + of_nat n \<or> in_region dest n q"
  proof -
    have "unat (q - dest) = n \<longleftrightarrow> q = dest + of_nat n"
    proof
      assume "unat (q - dest) = n"
      then have "of_nat n = q - dest" by auto
      then show "q = dest + of_nat n" by simp
    next
      assume "q = dest + of_nat n"
      then show "unat (q - dest) = n" using Suc.prems(2) by (simp add: unat_of_nat)
    qed
    then show ?thesis by (auto simp: in_region_def less_Suc_eq)
  qed
  ultimately show ?case by auto
qed

lemma no_wrap_add: "no_wrap p n \<Longrightarrow> i < n \<Longrightarrow> unat (p + of_nat i) = unat p + i"
  by (simp add: no_wrap_def unat_word_ariths unat_of_nat)

lemma generic_memmove_apply:
  assumes "no_wrap dest n" and "no_wrap src n"
  shows "generic_memmove mem dest src n q =
    (if in_region dest n q then mem (src + (q - dest)) else mem q)"
proof (cases "dest < src")
  case True
  have "dest + of_nat i \<noteq> src + of_nat j" if "i < j" "j < n" for i j
  proof -
    have "unat (dest + of_nat i) = unat dest + i" "unat (src + of_nat j) = unat src + j"
      using that no_wrap_add [OF assms(1), of i] no_wrap_add [OF assms(2), of j] by auto
    moreover have "unat dest < unat src" using True by (simp add: word_less_nat_alt)
    ultimately have "unat (dest + of_nat i) \<noteq> unat (src + of_nat j)" using that by linarith
    then show ?thesis by metis
  qed
  then show ?thesis
    using True by (simp add: generic_memmove_def generic_memcpy_apply)
next
  case False
  have "dest + of_nat j \<noteq> src + of_nat i" if "i < j" "j < n" for i j
  proof -
    have "unat (dest + of_nat j) = unat dest + j" "unat (src + of_nat i) = unat src + i"
      using that no_wrap_add [OF assms(1), of j] no_wrap_add [OF assms(2), of i] by auto
    moreover have "unat src \<le> unat dest" using False by (simp add: word_less_nat_alt)
    ultimately have "unat (dest + of_nat j) \<noteq> unat (src + of_nat i)" using that by linarith
    then show ?thesis by metis
  qed
  moreover have "n \<le> 2 ^ 64" using assms(1) by (simp add: no_wrap_def)
  ultimately show ?thesis
    using False
    by (simp add: generic_memmove_def generic_memcpy_reverse_def memcpy_down_apply)
qed

text \<open>
  Claim C31. Moving \<open>n\<close> bytes copies the source region, as it was before the move, to the
  destination and changes nothing else, whether or not the two regions overlap.
\<close>

theorem generic_memmove_correct:
  assumes "no_wrap dest n" and "no_wrap src n"
  shows "region (generic_memmove mem dest src n) dest n = region mem src n
    \<and> (\<forall>q. \<not> in_region dest n q \<longrightarrow> generic_memmove mem dest src n q = mem q)"
proof (intro conjI allI impI)
  have n: "n \<le> 2 ^ 64" using assms(1) by (simp add: no_wrap_def)
  show "region (generic_memmove mem dest src n) dest n = region mem src n"
    by (rule nth_equalityI) (simp_all add: generic_memmove_apply [OF assms] in_regionI [OF _ n])
  show "generic_memmove mem dest src n q = mem q" if "\<not> in_region dest n q" for q
    using that by (simp add: generic_memmove_apply [OF assms])
qed

theorem generic_memmove_correct_witness:
  "region (generic_memmove (\<lambda>p. ucast p + 10) 2 0 3) 2 3 = [10, 11, 12]"
proof -
  have "no_wrap 2 3" "no_wrap 0 3" by (simp_all add: no_wrap_def)
  then have "region (generic_memmove (\<lambda>p. ucast p + 10) 2 0 3) 2 3 =
      region (\<lambda>p. ucast p + 10) 0 3"
    using generic_memmove_correct by blast
  then show ?thesis by (simp add: region_def upt_rec)
qed

section \<open>Comparing, searching, swapping\<close>

lemma region_Suc: "region mem p (Suc n) = mem p # region mem (p + 1) n"
proof -
  have "map (\<lambda>i. mem (p + of_nat i)) [Suc 0..<Suc n] = map (\<lambda>i. mem (p + 1 + of_nat i)) [0..<n]"
    unfolding map_Suc_upt [symmetric] by (simp add: algebra_simps)
  then show ?thesis by (simp add: region_def upt_conv_Cons del: upt_Suc)
qed

lemma memcmp_eq_0_iff: "memcmp mem p q n = 0 \<longleftrightarrow> region mem p n = region mem q n"
  by (induction n arbitrary: p q) (auto simp: region_def [of _ _ 0] region_Suc Let_def
      simp flip: word_uint_eq_iff)

lemma memchr_Some:
  "memchr mem p c n = Some q \<Longrightarrow> \<exists>i < n. q = p + of_nat i \<and> uint (mem q) = c
     \<and> (\<forall>j < i. uint (mem (p + of_nat j)) \<noteq> c)"
proof (induction n arbitrary: p)
  case (Suc n)
  show ?case
  proof (cases "uint (mem p) = c")
    case True
    with Suc.prems show ?thesis by (intro exI [of _ 0]) auto
  next
    case False
    with Suc obtain i where "i < n" "q = p + 1 + of_nat i" "uint (mem q) = c"
      "\<forall>j < i. uint (mem (p + 1 + of_nat j)) \<noteq> c"
      by auto
    with False show ?thesis
      by (intro exI [of _ "Suc i"]) (auto simp: less_Suc_eq_0_disj algebra_simps)
  qed
qed simp

lemma memchr_None: "memchr mem p c n = None \<longleftrightarrow> c \<notin> uint ` set (region mem p n)"
  by (induction n arbitrary: p) (auto simp: region_def [of _ _ 0] region_Suc)

lemma memswap_apply:
  assumes "no_wrap p n" and "no_wrap q n" and "\<And>r. \<not> (in_region p n r \<and> in_region q n r)"
  shows "memswap mem p q n r =
    (if in_region p n r then mem (q + (r - p))
     else if in_region q n r then mem (p + (r - q)) else mem r)"
  using assms
proof (induction n arbitrary: mem p q)
  case (Suc n)
  let ?m = "mem(p := mem q, q := mem p)"
  show ?case
  proof (cases n)
    case 0
    then show ?thesis by (auto simp: in_region_Suc Let_def)
  next
    case n: (Suc k)
    have nw: "no_wrap (p + 1) n" "no_wrap (q + 1) n"
      using Suc.prems(1,2) no_wrap_add [of p "Suc n" 1] no_wrap_add [of q "Suc n" 1]
      by (simp_all add: no_wrap_def n)
    have dis: "\<not> (in_region (p + 1) n r \<and> in_region (q + 1) n r)" for r
      using Suc.prems(3) by (auto simp: in_region_Suc)
    have "memswap mem p q (Suc n) r = memswap ?m (p + 1) (q + 1) n r" by (simp add: Let_def)
    also have "\<dots> = (if in_region (p + 1) n r then ?m (q + 1 + (r - (p + 1)))
        else if in_region (q + 1) n r then ?m (p + 1 + (r - (q + 1))) else ?m r)"
      by (rule Suc.IH [OF nw dis])
    also have "\<dots> = (if in_region p (Suc n) r then mem (q + (r - p))
       else if in_region q (Suc n) r then mem (p + (r - q)) else mem r)"
    proof -
      have hd: "\<not> in_region (p + 1) n p" "\<not> in_region (q + 1) n q"
        using nw Suc.prems(1,2) no_wrap_add [of p "Suc n" 1] no_wrap_add [of q "Suc n" 1]
        by (simp_all add: in_region_iff n)
      have "q + (r - p) \<noteq> p \<and> q + (r - p) \<noteq> q" if in_r: "in_region (p + 1) n r"
      proof -
        obtain i where i: "i < n" "r = p + 1 + of_nat i" using in_r by (rule in_regionE)
        then have "in_region q (Suc n) (q + (r - p))"
          using in_regionI [of "Suc i" "Suc n" q] Suc.prems(2)
          by (simp add: no_wrap_def algebra_simps)
        moreover have "in_region p (Suc n) p" by (simp add: in_region_Suc)
        ultimately have "q + (r - p) \<noteq> p" using Suc.prems(3) [of p] by metis
        then show ?thesis using hd(1) in_r by auto
      qed
      moreover have "p + (r - q) \<noteq> p \<and> p + (r - q) \<noteq> q" if in_r: "in_region (q + 1) n r"
      proof -
        obtain i where i: "i < n" "r = q + 1 + of_nat i" using in_r by (rule in_regionE)
        then have "in_region p (Suc n) (p + (r - q))"
          using in_regionI [of "Suc i" "Suc n" p] Suc.prems(1)
          by (simp add: no_wrap_def algebra_simps)
        moreover have "in_region q (Suc n) q" by (simp add: in_region_Suc)
        ultimately have "p + (r - q) \<noteq> q" using Suc.prems(3) [of q] by metis
        then show ?thesis using hd(2) in_r by auto
      qed
      ultimately show ?thesis
        using Suc.prems(3) [of r] by (auto simp: in_region_Suc algebra_simps)
    qed
    finally show ?thesis .
  qed
qed simp

section \<open>Little-endian integers in memory\<close>

text \<open>An integer of \<open>n\<close> bytes as the processor stores and loads it, least significant byte first.\<close>

fun store_le :: "nat \<Rightarrow> memory \<Rightarrow> u64 \<Rightarrow> u64 \<Rightarrow> memory" where
  "store_le 0 mem p v = mem"
| "store_le (Suc n) mem p v = store_le n (mem(p := ucast v)) (p + 1) (drop_bit 8 v)"

fun load_le :: "nat \<Rightarrow> memory \<Rightarrow> u64 \<Rightarrow> u64" where
  "load_le 0 mem p = 0"
| "load_le (Suc n) mem p = ucast (mem p) OR push_bit 8 (load_le n mem (p + 1))"

lemma store_le_other: "\<not> in_region p n q \<Longrightarrow> store_le n mem p v q = mem q"
  by (induction n arbitrary: mem p v) (auto simp: in_region_Suc)

lemma load_le_cong:
  assumes "\<And>q. in_region p n q \<Longrightarrow> mem q = mem' q"
  shows "load_le n mem p = load_le n mem' p"
  using assms by (induction n arbitrary: p) (auto simp: in_region_Suc)

lemma load_store_le: "n < 2 ^ 63 \<Longrightarrow> load_le n (store_le n mem p v) p = take_bit (8 * n) v"
proof (induction n arbitrary: mem p v)
  case (Suc n)
  have "\<not> in_region (p + 1) n p"
    using Suc.prems by (simp add: in_region_def unsigned_minus_1_eq_mask mask_eq_exp_minus_1)
  then have "load_le (Suc n) (store_le (Suc n) mem p v) p =
      take_bit 8 v OR push_bit 8 (take_bit (8 * n) (drop_bit 8 v))"
    using Suc by (simp add: store_le_other ucast_ucast_mask8)
  also have "\<dots> = take_bit (8 * Suc n) v"
    by (rule bit_eqI) (auto simp: bit_simps)
  finally show ?case .
qed simp

end
