(* ===== verification/FreeList.thy ===== *)
theory FreeList
  imports Prelude
begin

text \<open>
  The abstract free list behind the allocator: intervals of natural numbers, given as pairs of
  a start and a length, ascending, separated by gaps, and aligned. Allocation takes an interval
  out of the first entry that holds it, freeing puts one back and merges neighbours. A list is
  determined by the set of addresses it covers, which is what makes allocation followed by
  freeing the identity.
\<close>

type_synonym interval = "nat \<times> nat"

definition cover1 :: "interval \<Rightarrow> nat set" where
  "cover1 = (\<lambda>(a, s). {a..<a + s})"

definition cover :: "interval list \<Rightarrow> nat set" where
  "cover xs = (\<Union>x \<in> set xs. cover1 x)"

lemma cover_simps [simp]:
  "cover [] = {}" "cover ((a, s) # xs) = {a..<a + s} \<union> cover xs"
  "cover (xs @ ys) = cover xs \<union> cover ys"
  by (auto simp: cover_def cover1_def)

text \<open>
  Well-formed above a bound: every interval starts beyond the bound, with a gap, is not empty,
  is aligned, and ends within the limit.
\<close>

fun wf_free :: "nat \<Rightarrow> nat \<Rightarrow> nat \<Rightarrow> interval list \<Rightarrow> bool" where
  "wf_free lim al lo [] = True"
| "wf_free lim al lo ((a, s) # xs) =
     (lo < a \<and> al dvd a \<and> al dvd s \<and> 0 < s \<and> a + s \<le> lim \<and> wf_free lim al (a + s) xs)"

lemma wf_free_mono: "wf_free lim al lo xs \<Longrightarrow> lo' \<le> lo \<Longrightarrow> wf_free lim al lo' xs"
  by (cases xs) auto

lemma wf_free_cover: "wf_free lim al lo xs \<Longrightarrow> x \<in> cover xs \<Longrightarrow> lo < x \<and> x < lim"
proof (induction xs arbitrary: lo)
  case (Cons y xs)
  obtain a s where y: "y = (a, s)" by (cases y)
  with Cons.prems Cons.IH [of "a + s"] show ?case by auto
qed simp

lemma wf_free_length: "wf_free lim al lo xs \<Longrightarrow> (a, s) \<in> set xs \<Longrightarrow>
   lo < a \<and> al dvd a \<and> al dvd s \<and> 0 < s \<and> a + s \<le> lim"
proof (induction xs arbitrary: lo)
  case (Cons y xs)
  obtain b t where y: "y = (b, t)" by (cases y)
  show ?case
  proof (cases "(a, s) \<in> set xs")
    case True
    with Cons.prems Cons.IH [of "b + t"] y show ?thesis by auto
  next
    case False
    with Cons.prems y show ?thesis by auto
  qed
qed simp

lemma cover_tail_disjoint: "wf_free lim al lo ((a, s) # xs) \<Longrightarrow> {a..<a + s} \<inter> cover xs = {}"
  using wf_free_cover [of lim al "a + s" xs] by fastforce

lemma range_subsetD: "{b..<b + n} \<subseteq> S \<Longrightarrow> b \<le> x \<Longrightarrow> x < b + n \<Longrightarrow> x \<in> S" for b n :: nat
  by auto

text \<open>The head of a well-formed list is read off the covered set.\<close>

lemma cover_head:
  assumes "wf_free lim al lo ((a, s) # xs)"
  shows "a \<in> cover ((a, s) # xs)" and "\<And>x. x \<in> cover ((a, s) # xs) \<Longrightarrow> a \<le> x"
    and "a + s \<notin> cover ((a, s) # xs)"
  using assms wf_free_cover [of lim al "a + s" xs] by fastforce+

lemma wf_free_unique:
  assumes "wf_free lim al lo xs" and "wf_free lim al lo ys" and "cover xs = cover ys"
  shows "xs = ys"
  using assms
proof (induction xs arbitrary: lo ys)
  case Nil
  then show ?case by (cases ys) auto
next
  case (Cons x xs)
  obtain a s where x: "x = (a, s)" by (cases x)
  note wf1 = Cons.prems(1) [unfolded x]
  have "a \<in> cover ys" using cover_head(1) [OF wf1] Cons.prems(3) x by (simp only:)
  then obtain b t zs where ys: "ys = (b, t) # zs" by (cases ys) auto
  note wf2 = Cons.prems(2) [unfolded ys]
  have eq: "cover ((a, s) # xs) = cover ((b, t) # zs)" using Cons.prems(3) x ys by simp
  have ab: "a = b"
    using cover_head(1,2) [OF wf1] cover_head(1,2) [OF wf2] eq by (metis le_antisym)
  have "s = t"
  proof (rule ccontr)
    assume "s \<noteq> t"
    then consider "s < t" | "t < s" by linarith
    then show False
    proof cases
      case 1
      then have "a + s \<in> cover ((b, t) # zs)" using ab by simp
      with cover_head(3) [OF wf1] eq show False by blast
    next
      case 2
      then have "b + t \<in> cover ((a, s) # xs)" using ab by simp
      with cover_head(3) [OF wf2] eq show False by blast
    qed
  qed
  moreover have "cover xs = cover zs"
  proof -
    have "{a..<a + s} \<inter> cover xs = {}" "{a..<a + s} \<inter> cover zs = {}"
      using cover_tail_disjoint [OF wf1] cover_tail_disjoint [OF wf2] ab \<open>s = t\<close> by simp_all
    moreover have "{a..<a + s} \<union> cover xs = {a..<a + s} \<union> cover zs"
      using eq ab \<open>s = t\<close> by simp
    ultimately show ?thesis by blast
  qed
  ultimately show ?case
    using Cons.IH [of "a + s" zs] wf1 wf2 ab x ys by simp
qed

section \<open>Taking an interval out\<close>

text \<open>\<open>pre a\<close> is the space to leave before the interval within a block that starts at \<open>a\<close>.\<close>

fun take_interval :: "(nat \<Rightarrow> nat) \<Rightarrow> nat \<Rightarrow> interval list \<Rightarrow> (nat \<times> interval list) option" where
  "take_interval pre n [] = None"
| "take_interval pre n ((a, s) # xs) =
     (if s < pre a + n then map_option (\<lambda>(b, ys). (b, (a, s) # ys)) (take_interval pre n xs)
      else Some (a + pre a, (if pre a = 0 then [] else [(a, pre a)])
                 @ (if s - pre a - n = 0 then [] else [(a + pre a + n, s - pre a - n)]) @ xs))"

lemma take_interval_Some:
  assumes "wf_free lim al lo xs" and "take_interval pre n xs = Some (b, ys)"
    and "0 < n" and "al dvd n" and "\<And>a. al dvd a \<Longrightarrow> al dvd pre a"
  shows "wf_free lim al lo ys \<and> cover ys = cover xs - {b..<b + n} \<and> {b..<b + n} \<subseteq> cover xs
    \<and> (\<exists>a s. (a, s) \<in> set xs \<and> b = a + pre a)"
  using assms(1,2)
proof (induction xs arbitrary: lo ys)
  case (Cons x xs)
  obtain a s where x: "x = (a, s)" by (cases x)
  note wf = Cons.prems(1) [unfolded x]
  show ?case
  proof (cases "s < pre a + n")
    case True
    then obtain zs where zs: "take_interval pre n xs = Some (b, zs)" "ys = (a, s) # zs"
      using Cons.prems(2) x by auto
    have IH: "wf_free lim al (a + s) zs" "cover zs = cover xs - {b..<b + n}"
      "{b..<b + n} \<subseteq> cover xs" "\<exists>a s. (a, s) \<in> set xs \<and> b = a + pre a"
      using Cons.IH [OF _ zs(1), of "a + s"] wf by simp_all
    have "{b..<b + n} \<inter> {a..<a + s} = {}"
      using IH(3) cover_tail_disjoint [OF wf] by blast
    then have "cover ys = cover ((a, s) # xs) - {b..<b + n}"
      using IH(2) zs(2) by (simp only: cover_simps) blast
    with IH wf zs(2) x show ?thesis by (simp only: cover_simps wf_free.simps) (auto 0 3)
  next
    case False
    have "al dvd pre a" using assms(5) wf by simp
    have b: "b = a + pre a"
      and ys: "ys = (if pre a = 0 then [] else [(a, pre a)])
        @ (if s - pre a - n = 0 then [] else [(a + pre a + n, s - pre a - n)]) @ xs"
      using Cons.prems(2) x False by auto
    have fit: "pre a + n \<le> s" using False by simp
    have "wf_free lim al lo ys"
    proof -
      have "al dvd s - pre a - n" using wf \<open>al dvd pre a\<close> assms(4) by (simp add: dvd_diff_nat)
      moreover have "wf_free lim al (a + pre a + n) xs" "wf_free lim al lo xs"
        using wf fit by (auto elim!: wf_free_mono)
      ultimately show ?thesis
        using wf fit \<open>al dvd pre a\<close> assms(3,4) ys by (auto elim: wf_free_mono)
    qed
    moreover have "cover ys = cover ((a, s) # xs) - {b..<b + n}"
    proof -
      have "{b..<b + n} \<subseteq> {a..<a + s}" using fit b by auto
      then have "{b..<b + n} \<inter> cover xs = {}"
        using cover_tail_disjoint [OF wf] by blast
      moreover have "cover ys = {a..<a + pre a} \<union> {b + n..<a + s} \<union> cover xs"
        using fit by (auto simp: ys b)
      moreover have "{a..<a + s} - {b..<b + n} = {a..<a + pre a} \<union> {b + n..<a + s}"
        using fit b by auto
      ultimately show ?thesis by (simp only: cover_simps) blast
    qed
    moreover have "{b..<b + n} \<subseteq> cover ((a, s) # xs)" using fit b by auto
    ultimately show ?thesis using x b by auto
  qed
qed simp

lemma take_interval_None:
  assumes "take_interval pre n xs = None" and "(a, s) \<in> set xs"
  shows "s < pre a + n"
  using assms
proof (induction xs)
  case (Cons x xs)
  obtain b t where "x = (b, t)" by (cases x)
  with Cons show ?case by (auto split: if_splits)
qed simp

text \<open>A contiguous covered stretch lies within a single block of a well-formed list.\<close>

lemma cover_contiguous:
  assumes "wf_free lim al lo xs" and "{b..<b + n} \<subseteq> cover xs" and "0 < n"
  shows "\<exists>a s. (a, s) \<in> set xs \<and> a \<le> b \<and> b + n \<le> a + s"
  using assms(1,2)
proof (induction xs arbitrary: lo)
  case Nil
  with \<open>0 < n\<close> show ?case by auto
next
  case (Cons x xs)
  obtain a s where x: "x = (a, s)" by (cases x)
  note wf = Cons.prems(1) [unfolded x]
  show ?case
  proof (cases "b < a + s")
    case True
    have "b \<in> cover ((a, s) # xs)" using range_subsetD [OF Cons.prems(2), of b] \<open>0 < n\<close> x by simp
    then have "a \<le> b" by (rule cover_head(2) [OF wf])
    have "b + n \<le> a + s"
    proof (rule ccontr)
      assume "\<not> b + n \<le> a + s"
      then have "a + s \<in> cover ((a, s) # xs)"
        using True range_subsetD [OF Cons.prems(2), of "a + s"] x by simp
      with cover_head(3) [OF wf] show False by simp
    qed
    with \<open>a \<le> b\<close> x show ?thesis by auto
  next
    case False
    then have "{b..<b + n} \<subseteq> cover xs" using Cons.prems(2) x by auto
    with Cons.IH [of "a + s"] wf show ?thesis by auto
  qed
qed

section \<open>Putting an interval back\<close>

fun put_interval :: "interval \<Rightarrow> interval list \<Rightarrow> interval list \<times> interval" where
  "put_interval (f, n) [] = ([(f, n)], (f, n))"
| "put_interval (f, n) ((a, s) # xs) =
     (if a + s = f then put_interval (a, s + n) xs
      else if f + n \<le> a then
        (if f + n = a then ((f, n + s) # xs, (f, n + s)) else ((f, n) # (a, s) # xs, (f, n)))
      else (case put_interval (f, n) xs of (ys, r) \<Rightarrow> ((a, s) # ys, r)))"

lemma put_interval_correct:
  assumes "wf_free lim al lo xs" and "lo < f" and "al dvd f" and "al dvd n" and "0 < n"
    and "f + n \<le> lim" and "{f..<f + n} \<inter> cover xs = {}" and "put_interval (f, n) xs = (ys, r)"
  shows "wf_free lim al lo ys \<and> cover ys = cover xs \<union> {f..<f + n} \<and> r \<in> set ys
    \<and> {f..<f + n} \<subseteq> cover1 r"
  using assms
proof (induction "(f, n)" xs arbitrary: f n lo ys rule: put_interval.induct)
  case (1 f n)
  then show ?case by (auto simp: cover1_def)
next
  case (2 f n a s xs)
  consider "a + s = f" | "a + s \<noteq> f" "f + n \<le> a" | "a + s \<noteq> f" "a < f + n" by linarith
  then show ?case
  proof cases
    case 1
    have wf: "wf_free lim al lo xs" using 1 "2.prems"(1) by (auto elim: wf_free_mono)
    have "{a..<a + (s + n)} = {a..<a + s} \<union> {f..<f + n}" using 1 by auto
    then have "{a..<a + (s + n)} \<inter> cover xs = {}"
      using cover_tail_disjoint [OF "2.prems"(1)] "2.prems"(7) by auto
    then have "wf_free lim al lo ys \<and> cover ys = cover xs \<union> {a..<a + (s + n)} \<and> r \<in> set ys
        \<and> {a..<a + (s + n)} \<subseteq> cover1 r"
      using "2.hyps"(1) [OF 1 wf] "2.prems" 1 by auto
    with 1 show ?thesis by auto
  next
    case 2
    then show ?thesis
      using "2.prems"
      by (auto simp: cover1_def add.assoc split: if_splits intro: wf_free_mono)
  next
    case 3
    obtain zs where zs: "put_interval (f, n) xs = (zs, r)" "ys = (a, s) # zs"
      using "2.prems"(8) 3 by (auto split: prod.splits)
    have "a + s < f"
    proof (rule ccontr)
      assume "\<not> a + s < f"
      with 3 have "max a f \<in> {f..<f + n} \<inter> {a..<a + s}" using "2.prems"(1,5) by auto
      moreover have "{f..<f + n} \<inter> {a..<a + s} = {}"
        using "2.prems"(7) by (simp only: cover_simps Int_Un_distrib Un_empty)
      ultimately show False by blast
    qed
    then show ?thesis
      using "2.hyps"(2) [of "a + s" zs] "2.prems" 3 zs by auto
  qed
qed

text \<open>
  Taking an interval out and putting it back gives the list one started from.
\<close>

lemma put_take:
  assumes "wf_free lim al lo xs" and "take_interval pre n xs = Some (b, ys)"
    and "0 < n" and "al dvd n" and "\<And>a. al dvd a \<Longrightarrow> al dvd pre a"
  shows "fst (put_interval (b, n) ys) = xs"
proof -
  have t: "wf_free lim al lo ys" "cover ys = cover xs - {b..<b + n}" "{b..<b + n} \<subseteq> cover xs"
    "\<exists>a s. (a, s) \<in> set xs \<and> b = a + pre a"
    using take_interval_Some [OF assms] by auto
  obtain a s where as: "(a, s) \<in> set xs" "b = a + pre a" using t(4) by auto
  have "al dvd b" using wf_free_length [OF assms(1) as(1)] as(2) assms(5) by auto
  have bounds: "lo < b" "b + n - 1 < lim"
    using \<open>0 < n\<close> wf_free_cover [OF assms(1) range_subsetD [OF t(3), of b]]
      wf_free_cover [OF assms(1) range_subsetD [OF t(3), of "b + n - 1"]]
    by simp_all
  obtain zs r where p: "put_interval (b, n) ys = (zs, r)" by (cases "put_interval (b, n) ys")
  have "wf_free lim al lo zs \<and> cover zs = cover ys \<union> {b..<b + n}"
    using put_interval_correct [OF t(1) bounds(1) \<open>al dvd b\<close> assms(4,3) _ _ p] bounds(2) t(2) by auto
  then have "zs = xs"
    using t(2,3) by (intro wf_free_unique [OF _ assms(1)]) auto
  with p show ?thesis by simp
qed

section \<open>Removing an interval\<close>

lemma wf_free_remove1:
  assumes "wf_free lim al lo xs" and "(a, n) \<in> set xs"
  shows "wf_free lim al lo (remove1 (a, n) xs) \<and> cover (remove1 (a, n) xs) = cover xs - {a..<a + n}"
  using assms
proof (induction xs arbitrary: lo)
  case (Cons x xs)
  obtain b m where x: "x = (b, m)" by (cases x)
  note wf = Cons.prems(1) [unfolded x]
  show ?case
  proof (cases "(b, m) = (a, n)")
    case True
    then show ?thesis
      using wf cover_tail_disjoint [OF wf] x by (auto elim: wf_free_mono)
  next
    case False
    then have "(a, n) \<in> set xs" using Cons.prems(2) x by auto
    then have "{a..<a + n} \<subseteq> cover xs" by (auto simp: cover_def cover1_def)
    then have "{b..<b + m} \<inter> {a..<a + n} = {}" using cover_tail_disjoint [OF wf] by blast
    then have "{b..<b + m} - {a..<a + n} = {b..<b + m}" by blast
    moreover have "remove1 (a, n) (x # xs) = (b, m) # remove1 (a, n) xs" using False x by auto
    ultimately show ?thesis
      using Cons.IH [of "b + m"] wf \<open>(a, n) \<in> set xs\<close> x by (simp add: Un_Diff)
  qed
qed simp

end
