(* ===== verification/Heap.thy ===== *)
theory Heap
  imports Memory FreeList
begin

text \<open>
  The dynamic memory allocator (\<open>core/malloc.c\<close>). A heap keeps its free memory as a list of
  blocks, each a start address and a size; the list nodes live inside the free blocks, and the
  model keeps the list itself, in list order. Addresses and sizes are 64-bit words, physical
  and virtual addresses coincide (as in the flat x86\_64 EFI build), and all arithmetic is the
  code's own wrapping arithmetic. The invariant is what \<open>check_blocks()\<close> asserts, with the
  alignment of the sizes that the code asserts at each split.
\<close>

section \<open>State\<close>

type_synonym memory_block = "u64 \<times> u64"

record heap =
  blocks :: "memory_block list"
  align :: u64
  ptr_align :: u64
  freemem :: u64
  usedmem :: u64
  maxusedmem :: u64

definition sizeof_memory_block :: u64 where
  "sizeof_memory_block = 32"

definition MIN_MEMBLOCK_ALIGN :: u64 where
  "MIN_MEMBLOCK_ALIGN = 4 * 8"

definition NOWHERE :: u64 where
  "NOWHERE = NOT 0"

section \<open>Integrity checks\<close>

fun check_blocks_from :: "u64 \<Rightarrow> memory_block option \<Rightarrow> memory_block list \<Rightarrow> bool" where
  "check_blocks_from al prev [] = True"
| "check_blocks_from al prev ((a, s) # bs) =
     (a AND (al - 1) = 0
      \<and> s \<ge> sizeof_memory_block
      \<and> s \<ge> al
      \<and> a + s > a
      \<and> (case prev of None \<Rightarrow> True | Some (pa, ps) \<Rightarrow> a > pa \<and> a > pa + ps)
      \<and> check_blocks_from al (Some (a, s)) bs)"

definition check_blocks :: "heap \<Rightarrow> bool" where
  "check_blocks h = check_blocks_from (align h) None (blocks h)"

section \<open>Allocation\<close>

text \<open>
  One pass over the free list: the first block with enough space is split into a leading
  part, which stays in its place in the list, the allocated block, and a trailing part, which
  is linked in after the leading one. The result is the allocated block and the new list.
\<close>

fun alloc_search :: "u64 \<Rightarrow> u64 \<Rightarrow> u64 \<Rightarrow> memory_block list \<Rightarrow> (u64 \<times> memory_block list) option" where
  "alloc_search actual_offset actual_size align_mask [] = None"
| "alloc_search actual_offset actual_size align_mask ((a, s) # bs) =
     (let pre_size = (actual_offset - a) AND align_mask
      in if s < pre_size \<or> s - pre_size < actual_size
         then map_option (\<lambda>(b, bs'). (b, (a, s) # bs'))
                (alloc_search actual_offset actual_size align_mask bs)
         else let post_size = s - pre_size - actual_size;
                  block = a + pre_size;
                  post = block + actual_size;
                  rest = (if post_size \<noteq> 0 then (post, post_size) # bs else bs)
              in Some (block, if pre_size = 0 then rest else (a, pre_size) # rest))"

text \<open>The sizes computed before the search.\<close>

definition alloc_offset :: "u64 \<Rightarrow> u64 \<Rightarrow> u64" where
  "alloc_offset al offset = offset AND (if al \<noteq> 0 then al - 1 else 0)"

definition alloc_actual_offset :: "heap \<Rightarrow> u64 \<Rightarrow> u64 \<Rightarrow> u64" where
  "alloc_actual_offset h al offset = alloc_offset al offset AND NOT (align h - 1)"

definition alloc_actual_size :: "heap \<Rightarrow> u64 \<Rightarrow> u64 \<Rightarrow> u64 \<Rightarrow> u64" where
  "alloc_actual_size h sz al offset =
     (sz + alloc_offset al offset - alloc_actual_offset h al offset + align h - 1)
       AND NOT (align h - 1)"

definition alloc_mask :: "heap \<Rightarrow> u64 \<Rightarrow> u64" where
  "alloc_mask h al = (al - 1) OR (align h - 1)"

text \<open>The body of the \<open>while ( 1 )\<close> loop up to the attempt to grow the heap.\<close>

definition heap_alloc_try :: "heap \<Rightarrow> u64 \<Rightarrow> u64 \<Rightarrow> u64 \<Rightarrow> (heap \<times> u64) option" where
  "heap_alloc_try h sz al offset =
     (let actual_offset = alloc_actual_offset h al offset;
          actual_size = alloc_actual_size h sz al offset
      in case alloc_search actual_offset actual_size (alloc_mask h al) (blocks h) of
           None \<Rightarrow> None
         | Some (block, bs) \<Rightarrow>
             (let used = usedmem h + actual_size
              in Some (h\<lparr>blocks := bs,
                         freemem := freemem h - actual_size,
                         usedmem := used,
                         maxusedmem := (if used > maxusedmem h then used else maxusedmem h)\<rparr>,
                       block + alloc_offset al offset - actual_offset)))"

text \<open>
  The method \<open>grow\<close> of a heap is an argument: it maps the state of the program, of which the
  heap is a part, and the failed size to a new state and the number it returns, or to \<open>None\<close>
  when it frees memory into a corrupted list. A heap with no such method passes \<open>None\<close>. The loop may repeat for as long as the method says that the heap
  has grown, so not returning is the value \<open>None\<close>; a NULL result is the pointer 0.
\<close>

partial_function (option) heap_alloc_loop ::
  "(heap \<Rightarrow> 's \<Rightarrow> u64 \<Rightarrow> ((heap \<times> 's) \<times> u32) option) option \<Rightarrow> u64 \<Rightarrow> u64 \<Rightarrow> u64 \<Rightarrow> heap \<Rightarrow> 's
     \<Rightarrow> ((heap \<times> 's) \<times> u64) option" where
  "heap_alloc_loop grow sz al offset h s =
     (case heap_alloc_try h sz al offset of
        Some (h', ptr) \<Rightarrow> Some ((h', s), ptr)
      | None \<Rightarrow>
          (case grow of
             None \<Rightarrow> Some ((h, s), 0)
           | Some g \<Rightarrow>
               (case g h s (alloc_actual_size h sz al offset) of
                  None \<Rightarrow> None
                | Some ((h', s'), grown) \<Rightarrow>
                    (if grown = 0 then Some ((h', s'), 0)
                     else heap_alloc_loop grow sz al offset h' s'))))"

definition heap_alloc_block ::
  "(heap \<Rightarrow> 's \<Rightarrow> u64 \<Rightarrow> ((heap \<times> 's) \<times> u32) option) option \<Rightarrow> heap \<Rightarrow> 's \<Rightarrow> u64 \<Rightarrow> u64 \<Rightarrow> u64
     \<Rightarrow> ((heap \<times> 's) \<times> u64) option" where
  "heap_alloc_block grow h s sz al offset =
     (if alloc_actual_size h sz al offset = 0 then Some ((h, s), 0)
      else heap_alloc_loop grow sz al offset h s)"

section \<open>Freeing\<close>

text \<open>
  Insertion of the block being freed: the loop over the list with its two gaps, the merge with
  an immediately preceding block (which leaves the list and becomes the block being freed), and
  the insertion before the following block, with which it merges when the gap is zero. The
  result is the new list and the block as freed. A block that both precedes and follows the
  freed one, which only wrapping addresses allow, would be linked before itself: \<open>None\<close>.
\<close>

fun free_merge :: "u64 \<Rightarrow> memory_block \<Rightarrow> memory_block list
    \<Rightarrow> (memory_block list \<times> memory_block) option" where
  "free_merge actual_size (fa, fs) [] = Some ([(fa, fs)], (fa, fs))"
| "free_merge actual_size (fa, fs) ((a, s) # bs) =
     (let gap_before = fa - (a + s);
          gap_after = a - (fa + fs)
      in if gap_before = 0 then
           (if sint gap_after \<ge> 0 then None
            else free_merge actual_size (a, s + actual_size) bs)
         else if sint gap_after \<ge> 0 then
           (if gap_after = 0 then Some ((fa, fs + s) # bs, (fa, fs + s))
            else Some ((fa, fs) # (a, s) # bs, (fa, fs)))
         else map_option (\<lambda>(bs', f). ((a, s) # bs', f)) (free_merge actual_size (fa, fs) bs))"

definition free_start :: "heap \<Rightarrow> u64 \<Rightarrow> u64" where
  "free_start h ptr = ptr - (ptr AND (align h - 1))"

definition free_actual_size :: "heap \<Rightarrow> u64 \<Rightarrow> u64 \<Rightarrow> u64" where
  "free_actual_size h ptr sz =
     (sz + (ptr AND (align h - 1)) + align h - 1) AND NOT (align h - 1)"

text \<open>
  The method \<open>shrink\<close> of a heap, an argument like \<open>grow\<close>, is offered the block as freed; when
  it returns nonzero the block is unlinked again.
\<close>

definition heap_free_block ::
  "('s \<Rightarrow> u64 \<Rightarrow> u64 \<Rightarrow> 's \<times> u32) option \<Rightarrow> heap \<Rightarrow> 's \<Rightarrow> u64 \<Rightarrow> u64 \<Rightarrow> (heap \<times> 's) option" where
  "heap_free_block shrink h s ptr sz =
     (if ptr = 0 then Some (h, s)
      else
        let actual_size = free_actual_size h ptr sz
        in case free_merge actual_size (free_start h ptr, actual_size) (blocks h) of
             None \<Rightarrow> None
           | Some (bs, (fa, fs)) \<Rightarrow>
               (let h1 = h\<lparr>blocks := bs,
                           freemem := freemem h + actual_size,
                           usedmem := usedmem h - actual_size\<rparr>
                in case shrink of
                     None \<Rightarrow> Some (h1, s)
                   | Some shr \<Rightarrow>
                       (case shr s fa fs of (s', shrunk) \<Rightarrow>
                          Some (if shrunk = 0 then h1
                                else h1\<lparr>blocks := remove1 (fa, fs) (blocks h1),
                                         freemem := freemem h1 - fs\<rparr>, s'))))"

section \<open>Size-tracked allocations\<close>

text \<open>
  \<open>struct autosized_block\<close> keeps its total size, a little-endian \<open>size_t\<close>, in the memory just
  before the data.
\<close>

definition sizeof_autosized :: u64 where
  "sizeof_autosized = 8"

definition store_size :: "memory \<Rightarrow> u64 \<Rightarrow> u64 \<Rightarrow> memory" where
  "store_size mem p v = store_le 8 mem p v"

definition load_size :: "memory \<Rightarrow> u64 \<Rightarrow> u64" where
  "load_size mem p = load_le 8 mem p"

definition heap_realloc ::
  "(heap \<Rightarrow> 's \<Rightarrow> u64 \<Rightarrow> ((heap \<times> 's) \<times> u32) option) option \<Rightarrow> ('s \<Rightarrow> u64 \<Rightarrow> u64 \<Rightarrow> 's \<times> u32) option
     \<Rightarrow> heap \<Rightarrow> 's \<Rightarrow> memory \<Rightarrow> u64 \<Rightarrow> u64 \<Rightarrow> ((heap \<times> 's \<times> memory) \<times> u64) option" where
  "heap_realloc grow shrink h s mem old_ptr new_size =
     (let offset = sizeof_autosized;
          finish = (\<lambda>h s mem new_ptr.
            if old_ptr \<noteq> 0 \<and> old_ptr \<noteq> NOWHERE then
              (let old_block = old_ptr - offset;
                   old_total_size = load_size mem old_block;
                   old_size = old_total_size - offset;
                   mem' = generic_memcpy mem new_ptr old_ptr
                            (unat (if old_size < new_size then old_size else new_size))
               in map_option (\<lambda>(h', s'). ((h', s', mem'), new_ptr))
                    (heap_free_block shrink h s old_block old_total_size))
            else Some ((h, s, mem), new_ptr))
      in if new_size \<noteq> 0 then
           (let new_total_size = new_size + offset
            in if new_total_size < new_size then Some ((h, s, mem), 0)
               else case heap_alloc_block grow h s new_total_size (ptr_align h) (- offset) of
                      None \<Rightarrow> None
                    | Some ((h', s'), new_block) \<Rightarrow>
                        (if new_block = 0 then Some ((h', s', mem), 0)
                         else finish h' s' (store_size mem new_block new_total_size)
                                (new_block + offset)))
         else finish h s mem NOWHERE)"

section \<open>The global heap\<close>

text \<open>
  The cache discarders are a linker table of functions; each returns how many items it
  discarded. They are an argument of the model.
\<close>

fun discard_cache :: "(heap \<Rightarrow> 's \<Rightarrow> (heap \<times> 's) \<times> u32) list \<Rightarrow> heap \<Rightarrow> 's \<Rightarrow> u64 \<Rightarrow> (heap \<times> 's) \<times> u32"
  where
  "discard_cache [] h s sz = ((h, s), 0)"
| "discard_cache (discard # ds) h s sz =
     (case discard h s of ((h', s'), discarded) \<Rightarrow>
        (if discarded \<noteq> 0 then ((h', s'), discarded) else discard_cache ds h' s' sz))"

partial_function (option) discard_all_cache ::
  "(heap \<Rightarrow> 's \<Rightarrow> (heap \<times> 's) \<times> u32) list \<Rightarrow> heap \<Rightarrow> 's \<Rightarrow> (heap \<times> 's) option" where
  "discard_all_cache ds h s =
     (case discard_cache ds h s 0 of ((h', s'), discarded) \<Rightarrow>
        (if discarded \<noteq> 0 then discard_all_cache ds h' s' else Some (h', s')))"

text \<open>The global heap grows by discarding cached data.\<close>

definition discarder ::
  "(heap \<Rightarrow> 's \<Rightarrow> (heap \<times> 's) \<times> u32) list \<Rightarrow> heap \<Rightarrow> 's \<Rightarrow> u64 \<Rightarrow> ((heap \<times> 's) \<times> u32) option" where
  "discarder ds h s sz = Some (discard_cache ds h s sz)"

definition realloc where
  "realloc ds h s mem old_ptr new_size =
     heap_realloc (Some (discarder ds)) None h s mem old_ptr new_size"

definition malloc where
  "malloc ds h s mem sz = realloc ds h s mem 0 sz"

definition free where
  "free ds h s mem ptr = map_option fst (realloc ds h s mem ptr 0)"

definition zalloc where
  "zalloc ds h s mem sz =
     (case malloc ds h s mem sz of
        None \<Rightarrow> None
      | Some ((h', s', mem'), data) \<Rightarrow>
          Some ((h', s', if data \<noteq> 0 then generic_memset mem' data 0 (unat sz) else mem'), data))"

definition malloc_phys_offset where
  "malloc_phys_offset ds h s sz phys_align offset =
     heap_alloc_block (Some (discarder ds)) h s sz phys_align offset"

definition malloc_phys where
  "malloc_phys ds h s sz phys_align = malloc_phys_offset ds h s sz phys_align 0"

definition free_phys :: "heap \<Rightarrow> 's \<Rightarrow> u64 \<Rightarrow> u64 \<Rightarrow> (heap \<times> 's) option" where
  "free_phys h s ptr sz = heap_free_block None h s ptr sz"

definition heap_populate ::
  "('s \<Rightarrow> u64 \<Rightarrow> u64 \<Rightarrow> 's \<times> u32) option \<Rightarrow> heap \<Rightarrow> 's \<Rightarrow> u64 \<Rightarrow> u64 \<Rightarrow> (heap \<times> 's) option" where
  "heap_populate shrink h s start len =
     map_option (\<lambda>(h', s'). (h'\<lparr>usedmem := usedmem h' + len\<rparr>, s')) (heap_free_block shrink h s start len)"

definition HEAP_SIZE :: u64 where
  "HEAP_SIZE = 4096 * 1024"

definition initial_heap :: heap where
  "initial_heap = \<lparr>blocks = [], align = MIN_MEMBLOCK_ALIGN, ptr_align = 8,
     freemem = 0, usedmem = 0, maxusedmem = 0\<rparr>"

definition init_heap :: "u64 \<Rightarrow> heap option" where
  "init_heap heap_area =
     map_option fst (heap_populate None initial_heap () heap_area HEAP_SIZE)"

end
