(* ===== verification/HeapCorrect.thy ===== *)
theory HeapCorrect
  imports Heap
begin

text \<open>
  Correctness of the allocator. The list of 64-bit blocks is related to the abstract free list
  by reading each word as a natural number; under the invariant the code's wrapping arithmetic
  computes what the abstract operations compute.
\<close>

section \<open>Invariant and abstraction\<close>

definition nat_blocks :: "memory_block list \<Rightarrow> interval list" where
  "nat_blocks bs = map (\<lambda>(a, s). (unat a, unat s)) bs"

lemma nat_blocks_simps [simp]:
  "nat_blocks [] = []" "nat_blocks ((a, s) # bs) = (unat a, unat s) # nat_blocks bs"
  "nat_blocks (bs @ cs) = nat_blocks bs @ nat_blocks cs"
  by (simp_all add: nat_blocks_def)

lemma nat_blocks_inject: "nat_blocks bs = nat_blocks cs \<longleftrightarrow> bs = cs"
proof
  have "inj (\<lambda>(a :: u64, s :: u64). (unat a, unat s))"
    by (auto intro!: injI dest: unsigned_word_eqI)
  then show "nat_blocks bs = nat_blocks cs \<Longrightarrow> bs = cs"
    unfolding nat_blocks_def by (metis inj_map_eq_map)
qed simp

lemma nat_blocks_mem: "(unat a, unat n) \<in> set (nat_blocks bs) \<longleftrightarrow> (a, n) \<in> set bs"
  by (force simp: nat_blocks_def dest!: unsigned_word_eqI)

text \<open>
  The memory of a heap lies below the middle of the address space, so that the signed gaps of
  the code have the right sign, and above address zero, which is NULL.
\<close>

definition heap_limit :: nat where
  "heap_limit = 2 ^ 63"

definition heap_inv :: "heap \<Rightarrow> bool" where
  "heap_inv h \<longleftrightarrow> (\<exists>k. 5 \<le> k \<and> k < 63 \<and> align h = 2 ^ k)
     \<and> wf_free heap_limit (unat (align h)) 0 (nat_blocks (blocks h))"

definition free_memory :: "heap \<Rightarrow> nat set" where
  "free_memory h = cover (nat_blocks (blocks h))"

lemma heap_invE:
  assumes "heap_inv h"
  obtains k where "5 \<le> k" "k < 63" "align h = 2 ^ k" "unat (align h) = 2 ^ k"
    "wf_free heap_limit (2 ^ k) 0 (nat_blocks (blocks h))"
proof -
  from assms obtain k where k: "5 \<le> k" "k < 63" "align h = 2 ^ k"
    by (auto simp: heap_inv_def)
  then have "unat (align h) = 2 ^ k" by (simp add: unat_pow2)
  with k assms that show thesis by (simp add: heap_inv_def)
qed

lemma no_wrap_limit:
  "unat a + unat s \<le> heap_limit \<Longrightarrow> unat (a + s) = unat a + unat s" for a s :: u64
  by (rule unat_add_no_wrap) (simp add: heap_limit_def)

text \<open>The memory that freeing a pointer gives back.\<close>

definition block_memory :: "heap \<Rightarrow> u64 \<Rightarrow> u64 \<Rightarrow> nat set" where
  "block_memory h p sz =
     {unat (free_start h p)..<unat (free_start h p) + unat (free_actual_size h p sz)}"

text \<open>
  A block may be freed when it is not empty, lies within the limit and no byte of it is free.
\<close>

definition freeable :: "heap \<Rightarrow> u64 \<Rightarrow> u64 \<Rightarrow> bool" where
  "freeable h p sz \<longleftrightarrow> 0 < unat (free_start h p) \<and> 0 < unat (free_actual_size h p sz)
     \<and> unat (free_start h p) + unat (free_actual_size h p sz) \<le> heap_limit
     \<and> block_memory h p sz \<inter> free_memory h = {}"

text \<open>The invariant implies every assertion of \<open>check_blocks()\<close>.\<close>

lemma wf_free_check_blocks:
  assumes "wf_free heap_limit (2 ^ k) lo (nat_blocks bs)" and "5 \<le> k" and "k < 63"
    and "case prev of None \<Rightarrow> True
         | Some (pa, ps) \<Rightarrow> unat pa + unat ps = lo \<and> unat (pa + ps) = lo \<and> ps \<noteq> 0"
  shows "check_blocks_from (2 ^ k) prev bs"
  using assms
proof (induction bs arbitrary: lo prev)
  case (Cons b bs)
  obtain a s where b: "b = (a, s)" by (cases b)
  have wf: "lo < unat a" "2 ^ k dvd unat a" "2 ^ k dvd unat s" "0 < unat s"
    "unat a + unat s \<le> heap_limit" "wf_free heap_limit (2 ^ k) (unat a + unat s) (nat_blocks bs)"
    using Cons.prems(1) b by simp_all
  have sum: "unat (a + s) = unat a + unat s" by (rule no_wrap_limit [OF wf(5)])
  have "unat (2 ^ k :: u64) = 2 ^ k" using Cons.prems(3) by (simp add: unat_pow2)
  moreover have "(2 :: nat) ^ 5 \<le> 2 ^ k" using Cons.prems(2) by (rule power_increasing) simp
  moreover have "2 ^ k \<le> unat s" using wf(3,4) by (simp add: dvd_imp_le)
  ultimately have "s \<ge> sizeof_memory_block" "s \<ge> 2 ^ k"
    by (auto simp: word_le_nat_alt sizeof_memory_block_def)
  moreover have "a AND (2 ^ k - 1) = 0"
    using wf(2) by (simp add: mask_and word_unat_eq_iff unat_take_bit mod_eq_0_iff_dvd)
  moreover have "a + s > a" using sum wf(4) by (simp add: word_less_nat_alt)
  moreover have "case prev of None \<Rightarrow> True | Some (pa, ps) \<Rightarrow> a > pa \<and> a > pa + ps"
    using Cons.prems(4) wf(1) by (auto simp: word_less_nat_alt split: option.splits)
  moreover have "check_blocks_from (2 ^ k) (Some (a, s)) bs"
    using Cons.IH [OF wf(6) Cons.prems(2,3), of "Some (a, s)"] sum wf(4) by (auto simp: unat_gt_0)
  ultimately show ?case by (simp add: b)
qed simp

lemma heap_inv_check_blocks: "heap_inv h \<Longrightarrow> check_blocks h"
  by (erule heap_invE) (auto simp: check_blocks_def intro: wf_free_check_blocks)

section \<open>Allocation\<close>

lemma alloc_search_refines:
  assumes "wf_free heap_limit al lo (nat_blocks bs)"
  shows "map_option (\<lambda>(b, bs'). (unat b, nat_blocks bs')) (alloc_search off n msk bs) =
    take_interval (\<lambda>a. unat ((off - of_nat a) AND msk)) (unat n) (nat_blocks bs)"
  using assms
proof (induction bs arbitrary: lo)
  case (Cons b bs)
  obtain a s where b: "b = (a, s)" by (cases b)
  let ?pre = "(off - a) AND msk"
  have wf: "unat a + unat s \<le> heap_limit" "wf_free heap_limit al (unat a + unat s) (nat_blocks bs)"
    using Cons.prems b by simp_all
  have fits: "s < ?pre \<or> s - ?pre < n \<longleftrightarrow> unat s < unat ?pre + unat n"
    by (auto simp: word_less_nat_alt word_le_nat_alt unat_sub_if' not_less)
  show ?case
  proof (cases "unat s < unat ?pre + unat n")
    case True
    then show ?thesis
      using Cons.IH [OF wf(2)] fits b
      by (auto simp: Let_def option.map_comp comp_def split_def
          intro!: option.map_cong simp flip: Cons.IH [OF wf(2)])
  next
    case False
    have le: "unat ?pre + unat n \<le> unat s" using False by simp
    have sub1: "unat (s - ?pre) = unat s - unat ?pre"
      using le by (intro unat_word_diff) (simp add: word_le_nat_alt)
    then have sub2: "unat (s - ?pre - n) = unat s - unat ?pre - unat n"
      using le by (subst unat_word_diff) (simp_all add: word_le_nat_alt)
    have add1: "unat (a + ?pre) = unat a + unat ?pre"
      using le wf(1) by (intro no_wrap_limit) simp
    then have add2: "unat (a + ?pre + n) = unat a + unat ?pre + unat n"
      using le wf(1) by (subst no_wrap_limit) simp_all
    have post: "s - ?pre - n = 0 \<longleftrightarrow> unat s - unat ?pre - unat n = 0"
      using sub2 by (metis unat_eq_0)
    have "\<not> (s < ?pre \<or> s - ?pre < n)" using False fits by simp
    then have "alloc_search off n msk (b # bs) = Some (a + ?pre,
        (if ?pre = 0 then [] else [(a, ?pre)])
        @ (if s - ?pre - n = 0 then [] else [(a + ?pre + n, s - ?pre - n)]) @ bs)"
      by (simp add: b Let_def del: de_Morgan_disj)
    moreover have "take_interval (\<lambda>a. unat ((off - of_nat a) AND msk)) (unat n) (nat_blocks (b # bs)) =
      Some (unat (a + ?pre), (if ?pre = 0 then [] else [(unat a, unat ?pre)])
        @ (if s - ?pre - n = 0 then [] else [(unat (a + ?pre + n), unat (s - ?pre - n))])
        @ nat_blocks bs)"
      unfolding post add1 add2 sub2 using False by (simp add: b unat_eq_0)
    ultimately show ?thesis by simp
  qed
qed simp

text \<open>
  The sizes of an allocation, for an alignment \<open>2 ^ j\<close> and a heap alignment \<open>2 ^ k\<close>: the part of
  the offset below the heap alignment is kept inside the block.
\<close>

definition sub_offset :: "nat \<Rightarrow> nat \<Rightarrow> u64 \<Rightarrow> u64" where
  "sub_offset k j off = take_bit k (take_bit j off)"

lemma alloc_offset_pow2: "j < 64 \<Longrightarrow> alloc_offset (2 ^ j) off = take_bit j off"
  by (simp add: alloc_offset_def mask_and)

lemma alloc_actual_offset_pow2:
  "align h = 2 ^ k \<Longrightarrow> j < 64 \<Longrightarrow>
     alloc_actual_offset h (2 ^ j) off = take_bit j off - sub_offset k j off"
  by (simp add: alloc_actual_offset_def alloc_offset_pow2 mask_and_not sub_offset_def)

lemma alloc_mask_pow2: "align h = 2 ^ k \<Longrightarrow> alloc_mask h (2 ^ j) = 2 ^ max j k - 1"
  by (simp add: alloc_mask_def mask_or)

lemma unat_sub_offset_less: "unat (sub_offset k j off) < 2 ^ k"
  by (simp only: sub_offset_def unat_take_bit) simp

text \<open>Rounding up to a multiple of the alignment, when nothing overflows.\<close>

definition round_up :: "nat \<Rightarrow> nat \<Rightarrow> nat" where
  "round_up k n = (n + 2 ^ k - 1) div 2 ^ k * 2 ^ k"

lemma round_up_props: "2 ^ k dvd round_up k n" "n \<le> round_up k n" "0 < n \<Longrightarrow> 0 < round_up k n"
proof -
  show "2 ^ k dvd round_up k n" by (simp add: round_up_def)
  have "(n + 2 ^ k - 1) mod 2 ^ k < 2 ^ k" by simp
  then show "n \<le> round_up k n"
    unfolding round_up_def
    using div_mult_mod_eq [of "n + 2 ^ k - 1" "2 ^ k"] by linarith
  then show "0 < n \<Longrightarrow> 0 < round_up k n" by simp
qed

lemma round_up_dvd:
  assumes "2 ^ k dvd n"
  shows "round_up k n = n"
proof -
  obtain q where q: "n = 2 ^ k * q" using assms by (rule dvdE)
  have "n + 2 ^ k - 1 = (2 ^ k - 1) + 2 ^ k * q" using q by simp
  moreover have "((2 ^ k - 1) + 2 ^ k * q) div 2 ^ k = q + (2 ^ k - 1) div 2 ^ k"
    by (rule div_mult_self2) simp
  ultimately have "(n + 2 ^ k - 1) div 2 ^ k = q" by simp
  then show ?thesis by (simp add: round_up_def q mult.commute)
qed

lemma unat_round_up:
  fixes x :: u64
  assumes "k < 64" and "unat x + 2 ^ k \<le> 2 ^ 64"
  shows "unat ((x + 2 ^ k - 1) AND NOT (2 ^ k - 1)) = round_up k (unat x)"
proof -
  have "unat (2 ^ k - 1 :: u64) = 2 ^ k - 1"
    using assms(1) by (simp add: unat_word_diff unat_pow2 word_le_nat_alt)
  moreover have "(1 :: nat) \<le> 2 ^ k" by simp
  ultimately have "unat (x + (2 ^ k - 1)) = unat x + (2 ^ k - 1)"
    using assms(2) by (subst unat_add_no_wrap) simp_all
  then have "unat (x + 2 ^ k - 1) = unat x + 2 ^ k - 1"
    using \<open>1 \<le> 2 ^ k\<close> by (simp add: algebra_simps)
  then show ?thesis
    by (simp add: mask_and_not unat_round_down round_up_def minus_mod_eq_div_mult)
qed

lemma size_no_overflow:
  fixes sz sub :: u64
  assumes "unat sz \<le> 2 ^ 63" and "unat sub < 2 ^ k" and "k < 63"
  shows "unat (sz + sub) = unat sz + unat sub" and "unat (sz + sub) + 2 ^ k \<le> 2 ^ 64"
proof -
  have "(2 :: nat) ^ k \<le> 2 ^ 62" using assms(3) by (intro power_increasing) simp_all
  with assms(1,2) show "unat (sz + sub) = unat sz + unat sub"
    by (intro unat_add_no_wrap) simp
  with assms(1,2) \<open>(2 :: nat) ^ k \<le> 2 ^ 62\<close> show "unat (sz + sub) + 2 ^ k \<le> 2 ^ 64" by simp
qed

lemma alloc_actual_size_pow2:
  assumes "align h = 2 ^ k" and "k < 63" and "j < 64" and "unat sz \<le> 2 ^ 63"
  shows "unat (alloc_actual_size h sz (2 ^ j) off) =
    round_up k (unat sz + unat (sub_offset k j off))"
proof -
  let ?sub = "sub_offset k j off"
  have "alloc_actual_size h sz (2 ^ j) off = ((sz + ?sub) + 2 ^ k - 1) AND NOT (2 ^ k - 1)"
    unfolding alloc_actual_size_def alloc_offset_pow2 [OF assms(3)]
      alloc_actual_offset_pow2 [OF assms(1,3)] assms(1)
    by (simp add: algebra_simps)
  then show ?thesis
    using size_no_overflow [OF assms(4) unat_sub_offset_less assms(2), of j off] assms(2)
    by (simp add: unat_round_up)
qed

lemma take_bit_align_diff:
  assumes "2 ^ k dvd a" and "take_bit k x = (0 :: u64)"
  shows "take_bit k (x - of_nat a) = 0"
proof -
  have "2 ^ k dvd (of_nat a :: u64)" using assms(1) by (auto elim!: dvdE)
  with assms(2) show ?thesis by (simp add: take_bit_eq_0_iff)
qed

definition alloc_pre :: "heap \<Rightarrow> u64 \<Rightarrow> u64 \<Rightarrow> nat \<Rightarrow> nat" where
  "alloc_pre h al off a = unat ((alloc_actual_offset h al off - of_nat a) AND alloc_mask h al)"

lemma alloc_pre_dvd:
  assumes "align h = 2 ^ k" and "j < 64" and "2 ^ k dvd a"
  shows "2 ^ k dvd alloc_pre h (2 ^ j) off a"
proof -
  let ?x = "alloc_actual_offset h (2 ^ j) off - of_nat a"
  have "take_bit k (alloc_actual_offset h (2 ^ j) off) = 0"
    unfolding alloc_actual_offset_pow2 [OF assms(1,2)] sub_offset_def
    by (rule take_bit_round_down)
  then have "take_bit k ?x = 0" by (rule take_bit_align_diff [OF assms(3)])
  then have "take_bit k (take_bit (max j k) ?x) = 0" by (simp add: min_def)
  moreover have "alloc_pre h (2 ^ j) off a = unat (take_bit (max j k) ?x)"
    by (simp add: alloc_pre_def alloc_mask_pow2 [OF assms(1)] mask_and)
  ultimately show ?thesis
    by (metis mod_0_imp_dvd unat_0 unat_take_bit)
qed

lemma alloc_actual_size_valid:
  assumes "heap_inv h" and "j < 64" and "0 < unat sz" and "unat sz \<le> 2 ^ 63"
  shows "alloc_actual_size h sz (2 ^ j) off \<noteq> 0"
    and "unat (align h) dvd unat (alloc_actual_size h sz (2 ^ j) off)"
proof -
  obtain k where k: "k < 63" "align h = 2 ^ k" "unat (align h) = 2 ^ k"
    using assms(1) by (rule heap_invE)
  note eq = alloc_actual_size_pow2 [OF k(2,1) assms(2,4), of off]
  show "alloc_actual_size h sz (2 ^ j) off \<noteq> 0"
    using round_up_props(3) [of "unat sz + unat (sub_offset k j off)" k] assms(3) eq
    by (metis add_gr_0 unat_0 less_irrefl)
  show "unat (align h) dvd unat (alloc_actual_size h sz (2 ^ j) off)"
    by (simp only: eq k(3) round_up_props(1))
qed

text \<open>An allocation takes an interval out of the abstract free list.\<close>

lemma heap_alloc_try_refines:
  assumes "heap_inv h" and "align h = 2 ^ k" and "j < 64" and "0 < unat sz" and "unat sz \<le> 2 ^ 63"
    and "heap_alloc_try h sz (2 ^ j) off = Some (h', p)"
  defines "n \<equiv> unat (alloc_actual_size h sz (2 ^ j) off)"
  obtains b where
    "take_interval (alloc_pre h (2 ^ j) off) n (nat_blocks (blocks h)) = Some (unat b, nat_blocks (blocks h'))"
    "p = b + sub_offset k j off" "align h' = align h"
    "freemem h' = freemem h - of_nat n" "usedmem h' = usedmem h + of_nat n"
proof -
  have wf: "wf_free heap_limit (unat (align h)) 0 (nat_blocks (blocks h))"
    using assms(1) by (simp add: heap_inv_def)
  let ?r = "alloc_search (alloc_actual_offset h (2 ^ j) off) (alloc_actual_size h sz (2 ^ j) off)
      (alloc_mask h (2 ^ j)) (blocks h)"
  obtain b bs where r: "?r = Some (b, bs)"
    and h': "blocks h' = bs" "align h' = align h" "freemem h' = freemem h - of_nat n"
      "usedmem h' = usedmem h + of_nat n"
    and p: "p = b + alloc_offset (2 ^ j) off - alloc_actual_offset h (2 ^ j) off"
    using assms(6) by (auto simp: heap_alloc_try_def Let_def n_def split: option.splits)
  have "take_interval (alloc_pre h (2 ^ j) off) n (nat_blocks (blocks h)) =
      Some (unat b, nat_blocks (blocks h'))"
    using alloc_search_refines [OF wf, of "alloc_actual_offset h (2 ^ j) off"
        "alloc_actual_size h sz (2 ^ j) off" "alloc_mask h (2 ^ j)"] r h'(1)
    by (simp add: alloc_pre_def [abs_def] n_def)
  moreover have "p = b + sub_offset k j off"
    by (simp add: p alloc_offset_pow2 [OF assms(3)] alloc_actual_offset_pow2 [OF assms(2,3)])
  ultimately show thesis using that h' by blast
qed

text \<open>
  The block that holds an allocation is recovered from the pointer and the size, as
  \<open>heap_free_block()\<close> does it.
\<close>

lemma free_of_alloc:
  assumes "align h = 2 ^ k" and "k < 63" and "j < 64" and "unat sz \<le> 2 ^ 63"
    and "2 ^ k dvd unat b" and "p = b + sub_offset k j off"
  shows "free_start h p = b"
    and "free_actual_size h p sz = alloc_actual_size h sz (2 ^ j) off"
proof -
  have "take_bit k b = 0"
    using assms(5) by (simp add: word_unat_eq_iff unat_take_bit mod_eq_0_iff_dvd)
  then have "take_bit k p = take_bit k (sub_offset k j off)"
    using take_bit_add_cong [of k b 0 "sub_offset k j off" "sub_offset k j off"] assms(6) by simp
  then have sub: "take_bit k p = sub_offset k j off" by (simp add: sub_offset_def)
  then show "free_start h p = b"
    by (simp add: free_start_def assms(1,6) mask_and)
  show "free_actual_size h p sz = alloc_actual_size h sz (2 ^ j) off"
    unfolding free_actual_size_def alloc_actual_size_def alloc_offset_pow2 [OF assms(3)]
      alloc_actual_offset_pow2 [OF assms(1,3)] assms(1) mask_and sub
    by (simp add: algebra_simps)
qed

lemma take_bit_alloc_pointer:
  assumes "align h = 2 ^ k" and "k < 63" and "j < 64"
    and "unat b = a + alloc_pre h (2 ^ j) off a"
    and "p = b + sub_offset k j off"
  shows "take_bit j p = take_bit j off"
proof -
  let ?x = "alloc_actual_offset h (2 ^ j) off - of_nat a"
  have "b = of_nat (unat b)" by simp
  also have "\<dots> = of_nat (a + alloc_pre h (2 ^ j) off a)" by (simp only: assms(4))
  also have "\<dots> = of_nat a + take_bit (max j k) ?x"
    by (simp add: alloc_pre_def alloc_mask_pow2 [OF assms(1)] mask_and)
  finally have "take_bit j b = take_bit j (of_nat a + ?x)"
    by (simp only:) (rule take_bit_add_cong, simp_all add: min_def)
  then have "take_bit j b = take_bit j (alloc_actual_offset h (2 ^ j) off)" by simp
  then have "take_bit j p = take_bit j (alloc_actual_offset h (2 ^ j) off + sub_offset k j off)"
    unfolding assms(5) by (rule take_bit_add_cong) simp
  then show ?thesis
    by (simp add: alloc_actual_offset_pow2 [OF assms(1,3)])
qed

text \<open>
  A successful search: the pointer has the requested residue, the requested bytes lie inside an
  aligned block that was free before, exactly that block leaves the free memory, and it may be
  freed again.
\<close>

lemma heap_alloc_try_sound:
  assumes "heap_inv h" and "j < 64" and "0 < unat sz" and "unat sz \<le> 2 ^ 63"
    and "heap_alloc_try h sz (2 ^ j) off = Some (h', p)"
  shows "heap_inv h' \<and> align h' = align h \<and> p \<noteq> 0 \<and> p AND (2 ^ j - 1) = off AND (2 ^ j - 1)
    \<and> {unat p..<unat p + unat sz} \<subseteq> block_memory h p sz \<and> block_memory h p sz \<subseteq> free_memory h
    \<and> free_memory h' = free_memory h - block_memory h p sz \<and> freeable h' p sz
    \<and> freemem h' = freemem h - free_actual_size h p sz
    \<and> usedmem h' = usedmem h + free_actual_size h p sz"
proof -
  obtain k where k: "5 \<le> k" "k < 63" "align h = 2 ^ k" "unat (align h) = 2 ^ k"
    "wf_free heap_limit (2 ^ k) 0 (nat_blocks (blocks h))"
    using assms(1) by (rule heap_invE)
  define n where "n = unat (alloc_actual_size h sz (2 ^ j) off)"
  have n: "n = round_up k (unat sz + unat (sub_offset k j off))"
    unfolding n_def by (rule alloc_actual_size_pow2 [OF k(3,2) assms(2,4)])
  have n_pos: "0 < n" "2 ^ k dvd n" "unat sz + unat (sub_offset k j off) \<le> n"
    using round_up_props assms(3) by (auto simp: n)
  obtain b where b:
    "take_interval (alloc_pre h (2 ^ j) off) n (nat_blocks (blocks h)) = Some (unat b, nat_blocks (blocks h'))"
    "p = b + sub_offset k j off" "align h' = align h"
    "freemem h' = freemem h - of_nat n" "usedmem h' = usedmem h + of_nat n"
    using heap_alloc_try_refines [OF assms(1) k(3) assms(2-5)] unfolding n_def by metis
  have t: "wf_free heap_limit (2 ^ k) 0 (nat_blocks (blocks h'))"
    "cover (nat_blocks (blocks h')) = cover (nat_blocks (blocks h)) - {unat b..<unat b + n}"
    "{unat b..<unat b + n} \<subseteq> cover (nat_blocks (blocks h))"
    "\<exists>a s. (a, s) \<in> set (nat_blocks (blocks h)) \<and> unat b = a + alloc_pre h (2 ^ j) off a"
    using take_interval_Some [OF k(5) b(1) n_pos(1,2) alloc_pre_dvd [OF k(3) assms(2)]] by auto
  obtain a s where as: "(a, s) \<in> set (nat_blocks (blocks h))"
    and ba: "unat b = a + alloc_pre h (2 ^ j) off a" using t(4) by auto
  have a: "0 < a" "2 ^ k dvd a" using wf_free_length [OF k(5) as] by auto
  have dvd_b: "2 ^ k dvd unat b" using ba a(2) alloc_pre_dvd [OF k(3) assms(2) a(2)] by simp
  note fr = free_of_alloc [OF k(3,2) assms(2,4) dvd_b b(2)]
  have "unat b + n - 1 < heap_limit"
    using wf_free_cover [OF k(5) range_subsetD [OF t(3), of "unat b + n - 1"]] n_pos(1) by simp
  then have "unat p = unat b + unat (sub_offset k j off)"
    unfolding b(2) using n_pos(3) assms(3) by (intro no_wrap_limit) simp
  moreover have "0 < unat b" using ba a(1) by (simp only:)
  moreover have "heap_inv h'" using t(1) b(3) k by (auto simp: heap_inv_def)
  moreover have "p AND (2 ^ j - 1) = off AND (2 ^ j - 1)"
    unfolding mask_and by (rule take_bit_alloc_pointer [OF k(3,2) assms(2) ba b(2)])
  moreover have "block_memory h p sz = {unat b..<unat b + n}" by (simp add: block_memory_def fr n_def)
  moreover have "block_memory h' p sz = block_memory h p sz" "free_start h' p = free_start h p"
    "free_actual_size h' p sz = free_actual_size h p sz"
    by (simp_all add: block_memory_def free_start_def free_actual_size_def b(3))
  moreover have "unat (free_actual_size h p sz) = n" "free_start h p = b" by (simp_all add: fr n_def)
  ultimately show ?thesis
    using t(2,3) n_pos b(3-5) \<open>unat b + n - 1 < heap_limit\<close>
    by (auto simp: word_unat_eq_iff [of p] freeable_def free_memory_def)
qed

text \<open>An allocation fails only when no stretch of free memory would do.\<close>

lemma alloc_pre_minimal:
  assumes "align h = 2 ^ k" and "a \<le> b"
    and "b mod 2 ^ max j k = unat (alloc_actual_offset h (2 ^ j) off) mod 2 ^ max j k"
    and "b < 2 ^ 64"
  shows "alloc_pre h (2 ^ j) off a \<le> b - a"
proof -
  let ?m = "max j k" and ?ao = "alloc_actual_offset h (2 ^ j) off"
  have "take_bit ?m ?ao = take_bit ?m (of_nat b)"
    using assms(3,4) by (simp add: word_unat_eq_iff unat_take_bit unat_of_nat)
  then have "take_bit ?m (?ao + (- of_nat a)) = take_bit ?m (of_nat b + (- of_nat a))"
    by (rule take_bit_add_cong) simp
  moreover have "of_nat b + (- of_nat a) = (of_nat (b - a) :: u64)"
    using assms(2) by simp
  ultimately have "alloc_pre h (2 ^ j) off a = unat (take_bit ?m (of_nat (b - a) :: u64))"
    by (simp add: alloc_pre_def alloc_mask_pow2 [OF assms(1)] mask_and del: of_nat_diff)
  also have "\<dots> \<le> b - a"
    by (simp add: unat_take_bit unat_of_nat del: of_nat_diff)
       (meson le_trans mod_less_eq_dividend)
  finally show ?thesis .
qed

text \<open>
  Claim C13. When the search fails, there is no stretch of free memory, at an address with the
  residue the caller asked for, that is as long as the rounded-up request: first fit over the
  merged list misses nothing.
\<close>

theorem heap_alloc_complete:
  assumes "heap_inv h" and "j < 64" and "0 < unat sz" and "unat sz \<le> 2 ^ 63"
    and "heap_alloc_try h sz (2 ^ j) off = None"
    and "b mod unat (alloc_mask h (2 ^ j) + 1)
         = unat (alloc_actual_offset h (2 ^ j) off) mod unat (alloc_mask h (2 ^ j) + 1)"
  shows "\<not> {b..<b + unat (alloc_actual_size h sz (2 ^ j) off)} \<subseteq> free_memory h"
proof
  define n where "n = unat (alloc_actual_size h sz (2 ^ j) off)"
  assume sub: "{b..<b + unat (alloc_actual_size h sz (2 ^ j) off)} \<subseteq> free_memory h"
  obtain k where k: "k < 63" "align h = 2 ^ k"
    "wf_free heap_limit (2 ^ k) 0 (nat_blocks (blocks h))"
    using assms(1) by (rule heap_invE)
  have "max j k < 64" using k(1) assms(2) by simp
  have m: "b mod 2 ^ max j k = unat (alloc_actual_offset h (2 ^ j) off) mod 2 ^ max j k"
    using assms(6) \<open>max j k < 64\<close> by (simp add: alloc_mask_pow2 [OF k(2)] unat_pow2)
  have "0 < n"
    using round_up_props(3) assms(3) by (simp add: n_def alloc_actual_size_pow2 [OF k(2,1) assms(2,4)])
  obtain a s where as: "(a, s) \<in> set (nat_blocks (blocks h))" "a \<le> b" "b + n \<le> a + s"
    using cover_contiguous [OF k(3), of b n] sub \<open>0 < n\<close> by (auto simp: free_memory_def n_def)
  have "take_interval (alloc_pre h (2 ^ j) off) n (nat_blocks (blocks h)) = None"
    using assms(5) alloc_search_refines [OF k(3), of "alloc_actual_offset h (2 ^ j) off"
        "alloc_actual_size h sz (2 ^ j) off" "alloc_mask h (2 ^ j)"]
    by (auto simp: heap_alloc_try_def Let_def n_def alloc_pre_def [abs_def] split: option.splits)
  then have "s < alloc_pre h (2 ^ j) off a + n" using as(1) by (rule take_interval_None)
  moreover have "b < 2 ^ 64"
    using wf_free_length [OF k(3) as(1)] as(3) by (simp add: heap_limit_def)
  ultimately show False
    using alloc_pre_minimal [OF k(2) as(2) m] as(2,3) by simp
qed

text \<open>A heap of one free page.\<close>

definition page_heap :: heap where
  "page_heap = \<lparr>blocks = [(0x2000, 0x1000)], align = 32, ptr_align = 8,
     freemem = 0x1000, usedmem = 32, maxusedmem = 32\<rparr>"

lemma page_heap_inv: "heap_inv page_heap"
  unfolding heap_inv_def by (rule conjI, rule exI [of _ 5]) (simp_all add: page_heap_def heap_limit_def)

lemma page_heap_alloc:
  "\<exists>h' p. heap_alloc_try page_heap 100 (2 ^ 6) 16 = Some (h', p)" "heap_alloc_try page_heap 0x1001 (2 ^ 6) 0 = None"
  by (simp_all add: heap_alloc_try_def page_heap_def alloc_actual_offset_def alloc_offset_def
      alloc_actual_size_def alloc_mask_def Let_def)

theorem heap_alloc_complete_witness:
  "\<not> {0x2000..<0x2000 + unat (alloc_actual_size page_heap 0x1001 (2 ^ 6) 0)} \<subseteq> free_memory page_heap"
  by (rule heap_alloc_complete [OF page_heap_inv _ _ _ page_heap_alloc(2)])
     (simp_all add: alloc_mask_def alloc_actual_offset_def alloc_offset_def page_heap_def)

section \<open>Freeing\<close>

lemma gap_before_iff:
  fixes a s f :: u64
  assumes "unat a + unat s \<le> heap_limit"
  shows "f - (a + s) = 0 \<longleftrightarrow> unat a + unat s = unat f"
  using no_wrap_limit [OF assms] by (metis eq_iff_diff_eq_0 unsigned_word_eqI)

lemma gap_after_iff:
  fixes a f n :: u64
  assumes "unat f + unat n \<le> heap_limit" and "0 < unat a" and "unat a \<le> heap_limit" and "0 < unat f"
  shows "0 \<le> sint (a - (f + n)) \<longleftrightarrow> unat f + unat n \<le> unat a"
    and "a - (f + n) = 0 \<longleftrightarrow> unat f + unat n = unat a"
proof -
  have sum: "unat (f + n) = unat f + unat n" by (rule no_wrap_limit [OF assms(1)])
  show "a - (f + n) = 0 \<longleftrightarrow> unat f + unat n = unat a"
    using sum by (metis eq_iff_diff_eq_0 unsigned_word_eqI)
  have "unat (a - (f + n)) = (if unat f + unat n \<le> unat a then unat a - (unat f + unat n)
      else unat a + 2 ^ 64 - (unat f + unat n))"
    by (simp add: unat_sub_if' sum word_le_nat_alt)
  then show "0 \<le> sint (a - (f + n)) \<longleftrightarrow> unat f + unat n \<le> unat a"
    using assms by (auto simp: sint64_nonneg_iff heap_limit_def)
qed

text \<open>
  Once the freed block has merged with its predecessor all further blocks lie beyond it, so
  the size added to a predecessor is always the size being freed.
\<close>

lemma free_merge_refines:
  assumes "wf_free heap_limit al lo (nat_blocks bs)" and "0 < unat f" and "0 < unat n"
    and "unat f + unat n \<le> heap_limit" and "{unat f..<unat f + unat n} \<inter> cover (nat_blocks bs) = {}"
    and "n = act \<or> unat f \<le> lo"
  shows "\<exists>bs' rf rn. free_merge act (f, n) bs = Some (bs', (rf, rn))
    \<and> put_interval (unat f, unat n) (nat_blocks bs) = (nat_blocks bs', (unat rf, unat rn))"
  using assms
proof (induction act "(f, n)" bs arbitrary: f n lo rule: free_merge.induct)
  case (1 act f n)
  then show ?case by simp
next
  case (2 act f n a s bs)
  have wf: "lo < unat a" "0 < unat s" "unat a + unat s \<le> heap_limit"
    "wf_free heap_limit al (unat a + unat s) (nat_blocks bs)"
    using "2.prems"(1) by simp_all
  note before = gap_before_iff [OF wf(3), of f]
  note after = gap_after_iff [OF "2.prems"(4), of a]
  have dis: "{unat f..<unat f + unat n} \<inter> {unat a..<unat a + unat s} = {}"
    "{unat f..<unat f + unat n} \<inter> cover (nat_blocks bs) = {}"
    using "2.prems"(5) by (simp_all only: nat_blocks_simps cover_simps Int_Un_distrib Un_empty)
  consider "unat a + unat s = unat f" | "unat a + unat s \<noteq> unat f" "unat f + unat n \<le> unat a"
    | "unat a + unat s \<noteq> unat f" "unat a < unat f + unat n" by linarith
  then show ?case
  proof cases
    case 1
    then have "n = act" using "2.prems"(6) wf(1,2) by auto
    then have sum: "unat (s + act) = unat s + unat n"
      using 1 "2.prems"(4) by (subst unat_add_no_wrap) (simp_all add: heap_limit_def)
    have neg: "\<not> 0 \<le> sint (a - (f + n))" using after wf 1 "2.prems"(2,3) by simp
    have "{unat a..<unat a + (unat s + unat n)} = {unat a..<unat a + unat s} \<union> {unat f..<unat f + unat n}"
      using 1 by auto
    then have dis': "{unat a..<unat a + (unat s + unat n)} \<inter> cover (nat_blocks bs) = {}"
      using dis(2) cover_tail_disjoint [OF "2.prems"(1) [unfolded nat_blocks_simps]] by blast
    have "f - (a + s) = 0" using before 1 by simp
    from "2.hyps"(1) [OF refl refl this neg wf(4)] dis' sum 1 wf "2.prems"(4) \<open>f - (a + s) = 0\<close> neg
    show ?thesis by (auto simp: Let_def)
  next
    case 2
    then show ?thesis
      using before after wf "2.prems"(2,3,4) no_wrap_limit [of n s]
      by (auto simp: Let_def add.assoc)
  next
    case 3
    have "unat a + unat s < unat f"
    proof (rule ccontr)
      assume "\<not> unat a + unat s < unat f"
      with 3 wf(2) "2.prems"(3) have "max (unat a) (unat f) \<in> {unat f..<unat f + unat n} \<inter> {unat a..<unat a + unat s}"
        by auto
      with dis(1) show False by blast
    qed
    have "f - (a + s) \<noteq> 0" "\<not> 0 \<le> sint (a - (f + n))" using before after 3 wf "2.prems"(2) by simp_all
    moreover from "2.hyps"(2) [OF refl refl this wf(4)]
    obtain bs' rf rn where "free_merge act (f, n) bs = Some (bs', (rf, rn))"
      "put_interval (unat f, unat n) (nat_blocks bs) = (nat_blocks bs', (unat rf, unat rn))"
      using "2.prems"(2-4,6) dis(2) wf(1) by auto
    ultimately show ?thesis using 3 by (simp add: Let_def)
  qed
qed

lemma free_aligned:
  assumes "align h = 2 ^ k"
  shows "2 ^ k dvd unat (free_start h p)" and "2 ^ k dvd unat (free_actual_size h p sz)"
  unfolding free_start_def free_actual_size_def assms mask_and mask_and_not unat_round_down
  by (rule dvd_round_down)+

lemma heap_free_merge:
  assumes "heap_inv h" and "freeable h p sz"
  obtains bs fa fs where
    "free_merge (free_actual_size h p sz) (free_start h p, free_actual_size h p sz) (blocks h) = Some (bs, (fa, fs))"
    "put_interval (unat (free_start h p), unat (free_actual_size h p sz)) (nat_blocks (blocks h))
       = (nat_blocks bs, (unat fa, unat fs))"
    "heap_inv (h\<lparr>blocks := bs\<rparr>)" "cover (nat_blocks bs) = free_memory h \<union> block_memory h p sz"
    "(fa, fs) \<in> set bs" "block_memory h p sz \<subseteq> {unat fa..<unat fa + unat fs}"
proof -
  obtain k where k: "align h = 2 ^ k" "unat (align h) = 2 ^ k" "5 \<le> k" "k < 63"
    "wf_free heap_limit (2 ^ k) 0 (nat_blocks (blocks h))"
    using assms(1) by (rule heap_invE)
  let ?f = "free_start h p" and ?n = "free_actual_size h p sz"
  note f = assms(2) [unfolded freeable_def block_memory_def free_memory_def]
  obtain bs fa fs where m: "free_merge ?n (?f, ?n) (blocks h) = Some (bs, (fa, fs))"
    and p: "put_interval (unat ?f, unat ?n) (nat_blocks (blocks h)) = (nat_blocks bs, (unat fa, unat fs))"
    using free_merge_refines [OF k(5), of ?f ?n ?n] f by auto
  have c: "wf_free heap_limit (2 ^ k) 0 (nat_blocks bs)"
    "cover (nat_blocks bs) = cover (nat_blocks (blocks h)) \<union> {unat ?f..<unat ?f + unat ?n}"
    "(unat fa, unat fs) \<in> set (nat_blocks bs)"
    "{unat ?f..<unat ?f + unat ?n} \<subseteq> cover1 (unat fa, unat fs)"
    using put_interval_correct [OF k(5) _ free_aligned [OF k(1)] _ _ _ p] f by simp_all
  show thesis
  proof (rule that [OF m p])
    show "heap_inv (h\<lparr>blocks := bs\<rparr>)" using c(1) k by (auto simp: heap_inv_def)
    show "(fa, fs) \<in> set bs" using c(3) by (simp add: nat_blocks_mem)
  qed (use c(2,4) in \<open>simp_all add: free_memory_def block_memory_def cover1_def\<close>)
qed

text \<open>
  Freeing never gets stuck; without a shrink method exactly the memory of the block becomes
  free.
\<close>

lemma heap_free_sound:
  assumes "heap_inv h" and "p \<noteq> 0" and "freeable h p sz"
  shows "\<exists>bs. heap_free_block None h s p sz =
      Some (h\<lparr>blocks := bs, freemem := freemem h + free_actual_size h p sz,
               usedmem := usedmem h - free_actual_size h p sz\<rparr>, s)
    \<and> heap_inv (h\<lparr>blocks := bs\<rparr>) \<and> cover (nat_blocks bs) = free_memory h \<union> block_memory h p sz"
proof -
  from heap_free_merge [OF assms(1,3)] obtain bs fa fs where
    "free_merge (free_actual_size h p sz) (free_start h p, free_actual_size h p sz) (blocks h) = Some (bs, (fa, fs))"
    "heap_inv (h\<lparr>blocks := bs\<rparr>)" "cover (nat_blocks bs) = free_memory h \<union> block_memory h p sz"
    by metis
  then show ?thesis
    using assms(2) by (intro exI [of _ bs]) (simp add: heap_free_block_def Let_def)
qed

text \<open>A heap whose fields other than the list change keeps its invariant and its free memory.\<close>

lemma heap_inv_cong: "blocks h' = blocks h \<Longrightarrow> align h' = align h \<Longrightarrow> heap_inv h' = heap_inv h"
  by (simp add: heap_inv_def)

lemma free_memory_cong: "blocks h' = blocks h \<Longrightarrow> free_memory h' = free_memory h"
  by (simp add: free_memory_def)

lemma free_memory_unique:
  assumes "heap_inv h" and "heap_inv h'" and "align h' = align h" and "free_memory h' = free_memory h"
  shows "blocks h' = blocks h"
  using assms wf_free_unique [of heap_limit "unat (align h)" 0 "nat_blocks (blocks h')" "nat_blocks (blocks h)"]
  by (simp add: heap_inv_def free_memory_def nat_blocks_inject)

text \<open>
  Claim C12. Freeing a block that was just allocated, with the size it was allocated with,
  restores the heap: the free list is the same list, block for block, and so are both
  statistics; only the record of the maximum usage keeps its new value.
\<close>

theorem heap_alloc_free_roundtrip:
  assumes "heap_inv h" and "j < 64" and "0 < unat sz" and "unat sz \<le> 2 ^ 63"
    and "heap_alloc_try h sz (2 ^ j) off = Some (h', p)"
  shows "heap_free_block None h' s p sz = Some (h\<lparr>maxusedmem := maxusedmem h'\<rparr>, s)"
proof -
  note a = heap_alloc_try_sound [OF assms]
  have size: "free_actual_size h' p sz = free_actual_size h p sz" "block_memory h' p sz = block_memory h p sz"
    using a by (simp_all add: free_actual_size_def block_memory_def free_start_def)
  obtain bs where f: "heap_free_block None h' s p sz =
      Some (h'\<lparr>blocks := bs, freemem := freemem h' + free_actual_size h' p sz,
        usedmem := usedmem h' - free_actual_size h' p sz\<rparr>, s)"
    "heap_inv (h'\<lparr>blocks := bs\<rparr>)" "cover (nat_blocks bs) = free_memory h' \<union> block_memory h' p sz"
    using heap_free_sound [of h' p sz s] a by blast
  have "free_memory (h'\<lparr>blocks := bs\<rparr>) = free_memory h"
    using f(3) a by (auto simp: free_memory_def size)
  with f(2) a have "bs = blocks h"
    using free_memory_unique [OF assms(1), of "h'\<lparr>blocks := bs\<rparr>"] by simp
  moreover have "ptr_align h' = ptr_align h"
    using assms(5) by (auto simp: heap_alloc_try_def Let_def split: option.splits prod.splits)
  ultimately have "h'\<lparr>blocks := bs, freemem := freemem h' + free_actual_size h' p sz,
      usedmem := usedmem h' - free_actual_size h' p sz\<rparr> = h\<lparr>maxusedmem := maxusedmem h'\<rparr>"
    using a by (intro heap.equality) (simp_all add: size)
  with f(1) show ?thesis by simp
qed

theorem heap_alloc_free_roundtrip_witness:
  "\<exists>h' p. heap_alloc_try page_heap 100 (2 ^ 6) 16 = Some (h', p)
     \<and> heap_free_block None h' () p 100 = Some (page_heap\<lparr>maxusedmem := maxusedmem h'\<rparr>, ())"
proof -
  obtain h' p where r: "heap_alloc_try page_heap 100 (2 ^ 6) 16 = Some (h', p)"
    using page_heap_alloc by blast
  from heap_alloc_free_roundtrip [OF page_heap_inv _ _ _ this] r show ?thesis by auto
qed

section \<open>The edges of the interface\<close>

text \<open>
  The check for an arithmetic overflow only sees sizes whose sum wraps to less than the heap's
  alignment: with an offset inside the block a request for almost the whole address space is
  rounded to one page, and succeeds.
\<close>

definition user_page_heap :: heap where
  "user_page_heap = page_heap\<lparr>align := 4096, ptr_align := 4096\<rparr>"

lemma heap_alloc_overflow:
  "\<exists>h' p. heap_alloc_try user_page_heap (- 16) (ptr_align user_page_heap) (- 8) = Some (h', p)
     \<and> unat (free_actual_size user_page_heap p (- 16)) = 4096"
  by (simp add: heap_alloc_try_def user_page_heap_def page_heap_def alloc_actual_offset_def alloc_offset_def
      alloc_actual_size_def alloc_mask_def Let_def free_actual_size_def)

text \<open>An alignment of zero passes the assertions, and makes every search fail.\<close>

lemma heap_alloc_zero_align:
  assumes "heap_inv h"
  shows "heap_alloc_try h sz 0 off = None"
proof -
  have "alloc_search 0 n (- 1) bs = None" if "wf_free heap_limit al lo (nat_blocks bs)" for n al lo bs
    using that
  proof (induction bs arbitrary: lo)
    case (Cons x bs)
    obtain a s where x: "x = (a, s)" by (cases x)
    have "0 < unat a" "unat a + unat s \<le> heap_limit" using Cons.prems x by auto
    moreover from this have "unat (- a) = 2 ^ 64 - unat a"
      using unat_sub_if' [of 0 a] by simp
    ultimately have "s < - a" by (simp add: word_less_nat_alt heap_limit_def)
    with Cons.IH Cons.prems x show ?case by (auto simp: Let_def)
  qed simp
  then have "alloc_search 0 (alloc_actual_size h sz 0 off) (- 1) (blocks h) = None"
    using assms unfolding heap_inv_def by blast
  then show ?thesis
    by (simp add: heap_alloc_try_def alloc_actual_offset_def alloc_offset_def alloc_mask_def Let_def)
qed

section \<open>Growing heaps\<close>

text \<open>The four ways through one round of the allocation loop.\<close>

lemma heap_alloc_loop_cases:
  "heap_alloc_try h sz al off = Some (h', p) \<Longrightarrow> heap_alloc_loop gr sz al off h s = Some ((h', s), p)"
  "heap_alloc_try h sz al off = None \<Longrightarrow> heap_alloc_loop None sz al off h s = Some ((h, s), 0)"
  "heap_alloc_try h sz al off = None \<Longrightarrow> g h s (alloc_actual_size h sz al off) = Some ((h', s'), 0) \<Longrightarrow>
     heap_alloc_loop (Some g) sz al off h s = Some ((h', s'), 0)"
  "heap_alloc_try h sz al off = None \<Longrightarrow> g h s (alloc_actual_size h sz al off) = Some ((h', s'), n) \<Longrightarrow>
     n \<noteq> 0 \<Longrightarrow> heap_alloc_loop (Some g) sz al off h s = heap_alloc_loop (Some g) sz al off h' s'"
  by (subst heap_alloc_loop.simps, simp)+

text \<open>
  What the allocation loop relies on of the method that grows a heap: it keeps the state of the
  owner, it keeps the alignment, it never takes free memory away, and whenever it claims to
  have made progress some measure of what is left to give has decreased.
\<close>

locale growable_heap =
  fixes grow :: "heap \<Rightarrow> 's \<Rightarrow> u64 \<Rightarrow> ((heap \<times> 's) \<times> u32) option"
    and owner :: "heap \<Rightarrow> 's \<Rightarrow> bool"
    and room :: "heap \<Rightarrow> 's \<Rightarrow> nat"
  assumes owner_inv: "owner h s \<Longrightarrow> heap_inv h"
    and grow_returns: "\<lbrakk>owner h s; n \<noteq> 0; unat (align h) dvd unat n\<rbrakk> \<Longrightarrow> grow h s n \<noteq> None"
    and grow_owner: "\<lbrakk>owner h s; n \<noteq> 0; unat (align h) dvd unat n; grow h s n = Some ((h', s'), g)\<rbrakk>
      \<Longrightarrow> owner h' s' \<and> align h' = align h \<and> free_memory h \<subseteq> free_memory h'"
    and grow_room: "\<lbrakk>owner h s; n \<noteq> 0; unat (align h) dvd unat n; grow h s n = Some ((h', s'), g); g \<noteq> 0\<rbrakk>
      \<Longrightarrow> room h' s' < room h s"
begin

lemma alloc_loop:
  assumes "owner h s" and "j < 64" and "0 < unat sz" and "unat sz \<le> 2 ^ 63"
  shows "\<exists>h1 h' s' p. heap_alloc_loop (Some grow) sz (2 ^ j) off h s = Some ((h', s'), p)
    \<and> owner h1 s' \<and> align h1 = align h \<and> free_memory h \<subseteq> free_memory h1
    \<and> (if p = 0 then h' = h1 else heap_alloc_try h1 sz (2 ^ j) off = Some (h', p))"
  using assms(1)
proof (induction "room h s" arbitrary: h s rule: less_induct)
  case less
  let ?n = "alloc_actual_size h sz (2 ^ j) off"
  note inv = owner_inv [OF less.prems]
  show ?case
  proof (cases "heap_alloc_try h sz (2 ^ j) off")
    case (Some r)
    then obtain h' p where r: "heap_alloc_try h sz (2 ^ j) off = Some (h', p)" by (cases r) auto
    moreover have "p \<noteq> 0" using heap_alloc_try_sound [OF inv assms(2-4) r] by simp
    ultimately show ?thesis
      using less.prems heap_alloc_loop_cases(1) [OF r]
      by (intro exI [of _ h] exI [of _ h'] exI [of _ s] exI [of _ p]) simp
  next
    case None
    have n: "?n \<noteq> 0" "unat (align h) dvd unat ?n"
      using alloc_actual_size_valid [OF inv assms(2-4)] by auto
    obtain h1 s1 g where g: "grow h s ?n = Some ((h1, s1), g)"
      using grow_returns [OF less.prems n] by auto
    note o = grow_owner [OF less.prems n g]
    show ?thesis
    proof (cases "g = 0")
      case True
      with g have "grow h s ?n = Some ((h1, s1), 0)" by simp
      from heap_alloc_loop_cases(3) [OF None, of grow, OF this] o show ?thesis
        by (intro exI [of _ h1] exI [of _ h1] exI [of _ s1] exI [of _ 0]) simp
    next
      case False
      note loop = heap_alloc_loop_cases(4) [OF None, of grow, OF g False]
      from less.hyps [OF grow_room [OF less.prems n g False]] o
      obtain h2 h' s' p where "heap_alloc_loop (Some grow) sz (2 ^ j) off h1 s1 = Some ((h', s'), p)"
        "owner h2 s'" "align h2 = align h" "free_memory h1 \<subseteq> free_memory h2"
        "if p = 0 then h' = h2 else heap_alloc_try h2 sz (2 ^ j) off = Some (h', p)"
        by auto
      with loop o show ?thesis
        by (intro exI [of _ h2] exI [of _ h'] exI [of _ s'] exI [of _ p]) auto
    qed
  qed
qed

lemma alloc_block:
  assumes "owner h s" and "j < 64" and "0 < unat sz" and "unat sz \<le> 2 ^ 63"
  shows "\<exists>h1 h' s' p. heap_alloc_block (Some grow) h s sz (2 ^ j) off = Some ((h', s'), p)
    \<and> owner h1 s' \<and> align h1 = align h \<and> free_memory h \<subseteq> free_memory h1
    \<and> (if p = 0 then h' = h1 else heap_alloc_try h1 sz (2 ^ j) off = Some (h', p))"
  using alloc_loop [OF assms] alloc_actual_size_valid(1) [OF owner_inv [OF assms(1)] assms(2-4)]
  by (simp add: heap_alloc_block_def)

end

end
