(* ===== verification/HeapRealloc.thy ===== *)
theory HeapRealloc
  imports HeapCorrect
begin

text \<open>
  The clients of the block allocator in \<open>core/malloc.c\<close>: the global heap, which grows by
  discarding cached data, and size-tracked reallocation over the memory contents.
\<close>

section \<open>Cache discarders\<close>

text \<open>
  What the allocator relies on of a discarder, relative to an invariant of the whole program
  that includes the heap's: it keeps the invariant and the heap's alignment, it only ever gives
  memory back, and when it reports an item as discarded there is one item less to discard.
\<close>

definition wf_discarder ::
  "(heap \<Rightarrow> 's \<Rightarrow> bool) \<Rightarrow> (heap \<Rightarrow> 's \<Rightarrow> nat) \<Rightarrow> (heap \<Rightarrow> 's \<Rightarrow> (heap \<times> 's) \<times> u32) \<Rightarrow> bool" where
  "wf_discarder own items d \<longleftrightarrow> (\<forall>h s h' s' g. own h s \<longrightarrow> d h s = ((h', s'), g) \<longrightarrow>
     own h' s' \<and> align h' = align h \<and> free_memory h \<subseteq> free_memory h'
     \<and> (if g = 0 then items h' s' \<le> items h s else items h' s' < items h s))"

lemma wf_discarderD:
  assumes "wf_discarder own items d" and "own h s" and "d h s = ((h', s'), g)"
  shows "own h' s'" "align h' = align h" "free_memory h \<subseteq> free_memory h'" "items h' s' \<le> items h s"
    "g \<noteq> 0 \<Longrightarrow> items h' s' < items h s"
  using assms unfolding wf_discarder_def by (metis less_imp_le)+

lemma discard_cache_wf:
  assumes "\<forall>d \<in> set ds. wf_discarder own items d"
  shows "wf_discarder own items (\<lambda>h s. discard_cache ds h s n)"
  using assms
proof (induction ds)
  case Nil
  then show ?case by (simp add: wf_discarder_def)
next
  case (Cons d ds)
  have d: "wf_discarder own items d" and ds: "wf_discarder own items (\<lambda>h s. discard_cache ds h s n)"
    using Cons by auto
  show ?case
    unfolding wf_discarder_def
  proof (intro allI impI)
    fix h s h' s' g
    assume own: "own h s" and e: "discard_cache (d # ds) h s n = ((h', s'), g)"
    obtain h1 s1 g1 where d1: "d h s = ((h1, s1), g1)" by (metis surj_pair)
    note p = wf_discarderD [OF d own d1]
    show "own h' s' \<and> align h' = align h \<and> free_memory h \<subseteq> free_memory h'
      \<and> (if g = 0 then items h' s' \<le> items h s else items h' s' < items h s)"
    proof (cases "g1 = 0")
      case True
      then have "discard_cache ds h1 s1 n = ((h', s'), g)" using e d1 by simp
      from wf_discarderD [OF ds p(1) this] p show ?thesis by auto
    next
      case False
      then show ?thesis using e d1 p by auto
    qed
  qed
qed

lemma discard_cache_growable:
  assumes "\<forall>d \<in> set ds. wf_discarder own items d" and "\<And>h s. own h s \<Longrightarrow> heap_inv h"
  shows "growable_heap (discarder ds) own items"
proof
  fix h s n h' s' g
  assume "own h s" "discarder ds h s n = Some ((h', s'), g)"
  then have "own h s" "discard_cache ds h s n = ((h', s'), g)" by (simp_all add: discarder_def)
  note w = wf_discarderD [OF discard_cache_wf [OF assms(1), of n] this]
  show "own h' s' \<and> align h' = align h \<and> free_memory h \<subseteq> free_memory h'" using w by simp
  show "g \<noteq> 0 \<Longrightarrow> items h' s' < items h s" by (rule w(5))
qed (simp_all add: assms(2) discarder_def)


section \<open>Initialisation\<close>

text \<open>Populating an empty heap with an aligned area makes exactly that area free.\<close>

lemma free_exact:
  assumes "align h = 2 ^ k" and "k < 63" and "2 ^ k dvd unat area" and "2 ^ k dvd unat len"
    and "unat area + unat len \<le> heap_limit"
  shows "free_start h area = area" and "free_actual_size h area len = len"
proof -
  have t: "take_bit k area = 0" using assms(3) by (simp add: word_unat_eq_iff unat_take_bit mod_eq_0_iff_dvd)
  then show "free_start h area = area" by (simp add: free_start_def assms(1) mask_and)
  have "(2::nat) ^ k \<le> 2 ^ 62" using assms(2) by (intro power_increasing) simp_all
  then have "unat len + 2 ^ k \<le> 2 ^ 64" using assms(5) by (simp add: heap_limit_def)
  then have "unat ((len + 2 ^ k - 1) AND NOT (2 ^ k - 1)) = unat len"
    using assms(2,4) by (simp add: unat_round_up round_up_dvd)
  then have "(len + 2 ^ k - 1) AND NOT (2 ^ k - 1) = len" by (rule unsigned_word_eqI)
  then show "free_actual_size h area len = len"
    by (simp add: free_actual_size_def assms(1) mask_and t)
qed

lemma heap_populate_empty:
  assumes "blocks h = []" and "align h = 2 ^ k" and "5 \<le> k" and "k < 63"
    and "2 ^ k dvd unat area" and "area \<noteq> 0" and "unat area + unat len \<le> heap_limit"
    and "2 ^ k dvd unat len" and "len \<noteq> 0"
  shows "heap_populate None h s area len = Some (h\<lparr>blocks := [(area, len)], freemem := freemem h + len\<rparr>, s)
    \<and> heap_inv (h\<lparr>blocks := [(area, len)]\<rparr>)"
proof -
  have "unat (2 ^ k :: u64) = 2 ^ k" using assms(4) by (simp add: unat_pow2)
  then show ?thesis
    using assms free_exact [OF assms(2,4,5,8,7)]
    by (auto simp: heap_populate_def heap_free_block_def Let_def heap_inv_def unat_gt_0)
qed



text \<open>Discarding everything ends, and keeps the invariant.\<close>

lemma discard_all_cache_returns:
  assumes "\<forall>d \<in> set ds. wf_discarder own items d" and "own h s"
  shows "\<exists>h' s'. discard_all_cache ds h s = Some (h', s') \<and> own h' s' \<and> free_memory h \<subseteq> free_memory h'"
  using assms(2)
proof (induction "items h s" arbitrary: h s rule: less_induct)
  case less
  obtain h1 s1 g where d: "discard_cache ds h s 0 = ((h1, s1), g)" by (metis surj_pair)
  note w = wf_discarderD [OF discard_cache_wf [OF assms(1), of 0] less.prems d]
  show ?case
  proof (cases "g = 0")
    case True
    then show ?thesis using d w by (subst discard_all_cache.simps) simp
  next
    case False
    from less.hyps [OF w(5) [OF False] w(1)] d False w(3) show ?thesis
      by (subst discard_all_cache.simps) auto
  qed
qed

section \<open>Reallocation\<close>

lemma no_wrap_header:
  assumes "no_wrap b m" and "8 \<le> m" and "n \<le> m - 8"
  shows "no_wrap b 8" and "n = 0 \<or> unat (b + 8) = unat b + 8" and "no_wrap (b + 8) n"
proof -
  show "no_wrap b 8" using assms(1,2) by (simp add: no_wrap_def)
  show *: "n = 0 \<or> unat (b + 8) = unat b + 8"
  proof (cases "n = 0")
    case False
    then have "8 < m" using assms(3) by linarith
    with no_wrap_add [OF assms(1), of 8] show ?thesis by simp
  qed simp
  show "no_wrap (b + 8) n"
  proof (cases "n = 0")
    case True
    then show ?thesis using unat_u64_less [of "b + 8"] by (simp add: no_wrap_def)
  next
    case False
    with * assms show ?thesis by (simp add: no_wrap_def)
  qed
qed

text \<open>
  Copying between two separate regions, each with its size header: the new header holds the new
  size, the data starts with the old data, and nothing outside the new region changes.
\<close>

lemma copy_with_header:
  fixes mem :: memory and b ob nt tot q :: u64 and n :: nat
  assumes "no_wrap b (unat nt)" and "no_wrap ob (unat tot)"
    and "{unat b..<unat b + unat nt} \<inter> {unat ob..<unat ob + unat tot} = {}"
    and "8 \<le> unat nt" and "8 \<le> unat tot" and "n \<le> unat nt - 8" and "n \<le> unat tot - 8"
  defines "mem1 \<equiv> store_size mem b nt"
  defines "mem2 \<equiv> generic_memcpy mem1 (b + 8) (ob + 8) n"
  shows "load_size mem1 ob = load_size mem ob" and "load_size mem2 b = nt"
    and "region mem2 (b + 8) n = region mem (ob + 8) n"
    and "unat q \<notin> {unat b..<unat b + unat nt} \<Longrightarrow> mem2 q = mem q"
proof -
  note b8 = no_wrap_header [OF assms(1,4,6)] and ob8 = no_wrap_header [OF assms(2,5,7)]
  have dis: "\<not> (unat b \<le> x \<and> x < unat b + unat nt \<and> unat ob \<le> x \<and> x < unat ob + unat tot)" for x
    using assms(3) by auto
  have mem1: "mem1 r = mem r" if "\<not> in_region b 8 r" for r
    unfolding mem1_def store_size_def using that by (rule store_le_other)
  show "load_size mem1 ob = load_size mem ob"
    unfolding load_size_def
  proof (rule load_le_cong, rule mem1)
    fix q assume "in_region ob 8 q"
    then show "\<not> in_region b 8 q" using dis [of "unat q"] assms(4,5) by (auto simp: in_region_iff b8 ob8)
  qed
  have neq: "b + 8 + of_nat i \<noteq> ob + 8 + of_nat k" if "i < n" "k < n" for i k
  proof -
    have "unat (b + 8 + of_nat i) = unat b + 8 + i" "unat (ob + 8 + of_nat k) = unat ob + 8 + k"
      using no_wrap_add [OF b8(3) that(1)] no_wrap_add [OF ob8(3) that(2)] b8(2) ob8(2) that by auto
    moreover have "unat b + 8 + i \<noteq> unat ob + 8 + k"
      using dis [of "unat b + 8 + i"] that assms(4-7) by linarith
    ultimately show ?thesis by metis
  qed
  have mem2: "mem2 r = (if in_region (b + 8) n r then mem1 (ob + 8 + (r - (b + 8))) else mem1 r)" for r
    unfolding mem2_def by (rule generic_memcpy_apply) (use neq in auto)
  show "load_size mem2 b = nt"
  proof -
    have "load_size mem2 b = load_size mem1 b"
      unfolding load_size_def
    proof (rule load_le_cong)
      fix q assume "in_region b 8 q"
      then have "\<not> in_region (b + 8) n q" using b8(2) by (cases "n = 0") (auto simp: in_region_iff b8)
      then show "mem2 q = mem1 q" by (simp add: mem2)
    qed
    then show ?thesis
      by (simp add: mem1_def load_size_def store_size_def load_store_le take_bit_word_eq_self)
  qed
  have "\<not> in_region b 8 (ob + 8 + of_nat i)" if "i < n" for i
    using no_wrap_add [OF ob8(3) that] dis [of "unat ob + 8 + i"] ob8(2) that assms(4,7)
    by (auto simp: in_region_iff b8)
  then show "region mem2 (b + 8) n = region mem (ob + 8) n"
    using b8(3) by (intro nth_equalityI) (simp_all add: mem2 mem1 in_regionI no_wrap_def)
  show "mem2 q = mem q" if "unat q \<notin> {unat b..<unat b + unat nt}"
    using that assms(4,6) b8(2) by (cases "n = 0") (auto simp: mem2 mem1 in_region_iff b8)
qed

text \<open>A live size-tracked allocation: the header holds the size and its block is not free.\<close>

definition live :: "heap \<Rightarrow> memory \<Rightarrow> u64 \<Rightarrow> u64 \<Rightarrow> bool" where
  "live h mem p tot \<longleftrightarrow> p \<noteq> 0 \<and> p \<noteq> NOWHERE \<and> load_size mem (p - 8) = tot \<and> 8 \<le> unat tot
     \<and> freeable h (p - 8) tot
     \<and> {unat (p - 8)..<unat (p - 8) + unat tot} \<subseteq> block_memory h (p - 8) tot"

lemma block_memory_cong: "align h' = align h \<Longrightarrow> block_memory h' p sz = block_memory h p sz"
  by (simp add: block_memory_def free_start_def free_actual_size_def)

lemma freeable_cong:
  assumes "align h' = align h" and "freeable h p sz" and "block_memory h p sz \<inter> free_memory h' = {}"
  shows "freeable h' p sz"
  using assms by (simp add: freeable_def block_memory_cong [OF assms(1)] free_start_def free_actual_size_def)

lemma freeable_nonzero: "freeable h p sz \<Longrightarrow> p \<noteq> 0"
  by (auto simp: freeable_def free_start_def)

lemma freeable_no_wrap:
  assumes "freeable h p sz" and "{unat p..<unat p + n} \<subseteq> block_memory h p sz"
  shows "unat p + n \<le> heap_limit \<or> n = 0"
proof (cases "n = 0")
  case False
  then have "unat p + n - 1 \<in> block_memory h p sz" using assms(2) by (intro subsetD [OF assms(2)]) auto
  then show ?thesis using assms(1) False by (auto simp: freeable_def block_memory_def)
qed simp

text \<open>The end of a reallocation: the copy and the release of the old block.\<close>

lemma realloc_copy:
  fixes b old new tot :: u64
  assumes "heap_inv h" and "live h mem old tot" and "freeable h b (new + 8)" and "b \<noteq> 0"
    and "unat (new + 8) = unat new + 8"
    and "{unat b..<unat b + (unat new + 8)} \<subseteq> block_memory h b (new + 8)"
    and "block_memory h b (new + 8) \<inter> block_memory h (old - 8) tot = {}"
  defines "n \<equiv> unat (if tot - 8 < new then tot - 8 else new)"
  defines "mem1 \<equiv> store_size mem b (new + 8)"
  defines "mem2 \<equiv> generic_memcpy mem1 (b + 8) old n"
  shows "load_size mem1 (old - 8) = tot" and "load_size mem2 b = new + 8"
    and "region mem2 (b + 8) n = region mem old n" and "n = min (unat tot - 8) (unat new)"
    and "unat q \<notin> block_memory h b (new + 8) \<Longrightarrow> mem2 q = mem q"
proof -
  note l = assms(2) [unfolded live_def]
  have tot8: "unat (tot - 8) = unat tot - 8" using l by (simp add: unat_sub word_le_nat_alt)
  then show n: "n = min (unat tot - 8) (unat new)" by (simp add: n_def word_less_nat_alt min_def)
  have nb: "no_wrap b (unat (new + 8))"
    using freeable_no_wrap [OF assms(3,6)] by (simp add: no_wrap_def heap_limit_def assms(5))
  have no: "no_wrap (old - 8) (unat tot)"
    using freeable_no_wrap [of h "old - 8" tot "unat tot"] l by (auto simp: no_wrap_def heap_limit_def)
  have dis: "{unat b..<unat b + unat (new + 8)} \<inter> {unat (old - 8)..<unat (old - 8) + unat tot} = {}"
    using assms(6,7) l unfolding assms(5) by blast
  have sizes: "8 \<le> unat (new + 8)" "8 \<le> unat tot" "n \<le> unat (new + 8) - 8" "n \<le> unat tot - 8"
    using l by (simp_all add: n assms(5))
  note c = copy_with_header [OF nb no dis sizes, where mem = mem, unfolded diff_add_cancel,
      folded mem1_def, folded mem2_def]
  show "load_size mem1 (old - 8) = tot" using c(1) l by simp
  show "load_size mem2 b = new + 8" by (rule c(2))
  show "region mem2 (b + 8) n = region mem old n" by (rule c(3))
  show "unat q \<notin> block_memory h b (new + 8) \<Longrightarrow> mem2 q = mem q"
    using c(4) subsetD [OF assms(6)] unfolding assms(5) by blast
qed

lemma aligned_after_header:
  fixes b :: u64
  assumes "b AND (2 ^ j - 1) = - 8 AND (2 ^ j - 1)"
  shows "(b + 8) AND (2 ^ j - 1) = 0"
proof -
  have "take_bit j (b + 8) = take_bit j (- 8 + 8)"
    by (rule take_bit_add_cong) (use assms in \<open>simp_all add: mask_and\<close>)
  then show ?thesis by (simp add: mask_and)
qed

text \<open>The two ways a reallocation to a nonzero size ends.\<close>

lemma realloc_null:
  assumes "new \<noteq> 0" and "\<not> new + 8 < new"
    and "heap_alloc_block (Some (discarder ds)) h s (new + 8) (ptr_align h) (- 8) = Some ((h', s'), 0)"
  shows "realloc ds h s mem old new = Some ((h', s', mem), 0)"
  using assms by (simp add: realloc_def heap_realloc_def Let_def sizeof_autosized_def)

lemma realloc_move:
  assumes "new \<noteq> 0" and "\<not> new + 8 < new" and "b \<noteq> 0" and "old \<noteq> 0" and "old \<noteq> NOWHERE"
    and "heap_alloc_block (Some (discarder ds)) h s (new + 8) (ptr_align h) (- 8) = Some ((h1, s1), b)"
    and "load_size (store_size mem b (new + 8)) (old - 8) = tot"
    and "heap_free_block None h1 s1 (old - 8) tot = Some (h', s')"
  shows "realloc ds h s mem old new = Some ((h', s', generic_memcpy (store_size mem b (new + 8)) (b + 8) old
    (unat (if tot - 8 < new then tot - 8 else new))), b + 8)"
  using assms by (simp add: realloc_def heap_realloc_def Let_def sizeof_autosized_def)

lemma nowhere_beyond: "unat p < heap_limit \<Longrightarrow> p \<noteq> NOWHERE"
  by (auto simp: NOWHERE_def heap_limit_def unsigned_minus_1_eq_mask mask_eq_exp_minus_1)

lemma realloc_success:
  fixes old new tot b :: u64
  assumes "heap_inv h1" and "freeable h1 (old - 8) tot" and "align h1 = align h"
    and "ptr_align h = 2 ^ j" and "j < 64" and "live h mem old tot"
    and "unat (new + 8) = unat new + 8" and "unat new + 8 \<le> 2 ^ 63" and "new \<noteq> 0"
    and "heap_alloc_try h1 (new + 8) (2 ^ j) (- 8) = Some (h2, b)"
    and "heap_alloc_block (Some (discarder ds)) h s (new + 8) (2 ^ j) (- 8) = Some ((h2, s'), b)"
  defines "n \<equiv> min (unat tot - 8) (unat new)"
  obtains h' mem' where "realloc ds h s mem old new = Some ((h', s', mem'), b + 8)"
    "heap_inv h'" "b + 8 \<noteq> 0" "(b + 8) AND (2 ^ j - 1) = 0" "live h' mem' (b + 8) (new + 8)"
    "region mem' (b + 8) n = region mem old n"
    "\<forall>q. unat q \<notin> block_memory h b (new + 8) \<longrightarrow> mem' q = mem q"
    "block_memory h (old - 8) tot \<subseteq> free_memory h'"
proof -
  have sz: "0 < unat (new + 8)" "unat (new + 8) \<le> 2 ^ 63" "\<not> new + 8 < new"
    using assms(7,8) by (auto simp: word_less_nat_alt)
  note a = heap_alloc_try_sound [OF assms(1,5) sz(1,2) assms(10)]
  have al: "align h2 = align h1" "align h2 = align h" using a assms(3) by simp_all
  have b0: "b \<noteq> 0" using a by simp
  have dis: "block_memory h2 b (new + 8) \<inter> block_memory h2 (old - 8) tot = {}"
    using a assms(2) unfolding block_memory_cong [OF al(1)] freeable_def by blast
  have fb: "freeable h2 b (new + 8)" using a by blast
  have "freeable h2 (old - 8) tot"
    using freeable_cong [OF al(1) assms(2)] a assms(2) unfolding freeable_def by blast
  then have live2: "live h2 mem old tot"
    using assms(6) by (simp add: live_def block_memory_cong [OF al(2)])
  have sub: "{unat b..<unat b + (unat new + 8)} \<subseteq> block_memory h2 b (new + 8)"
    using a unfolding assms(7) block_memory_cong [OF al(1)] by blast
  have "heap_inv h2" using a by simp
  note c = realloc_copy [OF this live2 fb b0 assms(7) sub dis]
  obtain bs where f: "heap_free_block None h2 s' (old - 8) tot =
      Some (h2\<lparr>blocks := bs, freemem := freemem h2 + free_actual_size h2 (old - 8) tot,
             usedmem := usedmem h2 - free_actual_size h2 (old - 8) tot\<rparr>, s')"
    "heap_inv (h2\<lparr>blocks := bs\<rparr>)" "cover (nat_blocks bs) = free_memory h2 \<union> block_memory h2 (old - 8) tot"
    using heap_free_sound [of h2 "old - 8" tot s'] a live2 freeable_nonzero unfolding live_def by blast
  let ?h' = "h2\<lparr>blocks := bs, freemem := freemem h2 + free_actual_size h2 (old - 8) tot,
             usedmem := usedmem h2 - free_actual_size h2 (old - 8) tot\<rparr>"
  let ?mem' = "generic_memcpy (store_size mem b (new + 8)) (b + 8) old (unat (if tot - 8 < new then tot - 8 else new))"
  have free': "free_memory ?h' = free_memory h2 \<union> block_memory h2 (old - 8) tot"
    using f(3) by (simp add: free_memory_def)
  have "freeable ?h' b (new + 8)"
    by (rule freeable_cong [OF _ fb]) (use fb dis in \<open>simp_all add: free' freeable_def Int_Un_distrib\<close>)
  moreover have "unat b + (unat new + 8) \<le> heap_limit" using freeable_no_wrap [OF fb sub] by simp
  moreover from this have "unat (b + 8) = unat b + 8"
    by (subst unat_add_no_wrap) (simp_all add: heap_limit_def)
  ultimately have b8: "live ?h' ?mem' (b + 8) (new + 8)" "b + 8 \<noteq> 0"
    using c(2) sub assms(7,9) nowhere_beyond [of "b + 8"]
    by (auto simp: live_def block_memory_cong [of ?h' h2] word_unat_eq_iff)
  show thesis
  proof (rule that [of ?h' ?mem'])
    show "realloc ds h s mem old new = Some ((?h', s', ?mem'), b + 8)"
      using realloc_move [OF assms(9) sz(3) b0 _ _ assms(11) [folded assms(4)] c(1) f(1)] live2
      by (simp add: live_def)
    show "(b + 8) AND (2 ^ j - 1) = 0" using a by (intro aligned_after_header) simp
    show "region ?mem' (b + 8) n = region mem old n" using c(3,4) by (simp only: n_def)
    show "\<forall>q. unat q \<notin> block_memory h b (new + 8) \<longrightarrow> ?mem' q = mem q"
      using c(5) by (simp only: block_memory_cong [OF al(2)]) blast
    show "heap_inv ?h'" using f(2) by (simp add: heap_inv_def)
    show "block_memory h (old - 8) tot \<subseteq> free_memory ?h'"
      using free' by (simp add: block_memory_cong [OF al(2)])
  qed (use b8 in simp_all)
qed


section \<open>Concrete instances\<close>

text \<open>
  A cache of a given number of items that hold no heap memory, and a live block of sixteen
  bytes below the free page.
\<close>

definition drop_item :: "heap \<Rightarrow> nat \<Rightarrow> (heap \<times> nat) \<times> u32" where
  "drop_item h s = ((h, s - 1), if s = 0 then 0 else 1)"

lemma drop_item_wf: "wf_discarder (\<lambda>h s. P h) (\<lambda>h s. s) drop_item"
  by (simp add: wf_discarder_def drop_item_def)

lemma page_heap_freeable: "freeable page_heap 0x1000 24"
  and page_heap_block: "block_memory page_heap 0x1000 24 = {0x1000..<0x1020}"
proof -
  show "block_memory page_heap 0x1000 24 = {0x1000..<0x1020}"
    by (simp add: block_memory_def free_start_def free_actual_size_def page_heap_def)
  then show "freeable page_heap 0x1000 24"
    by (simp add: freeable_def free_memory_def)
       (simp add: free_start_def free_actual_size_def page_heap_def heap_limit_def)
qed

lemma page_heap_live: "live page_heap (store_size (\<lambda>q. ucast q) 0x1000 24) 0x1008 24"
  using page_heap_freeable page_heap_block
  by (simp add: live_def NOWHERE_def load_size_def store_size_def load_store_le take_bit_word_eq_self)



end
