(* ===== verification/Memmap.thy ===== *)
theory Memmap
  imports Prelude
begin

text \<open>
  The system memory map: \<open>core/memmap.c\<close> with the inline functions of
  \<open>include/ipxe/memmap.h\<close>, and its BIOS back end \<open>arch/x86/interface/pcbios/int15.c\<close> with the
  replies of the BIOS as arguments. A map is never stored: a caller asks for the description
  of the region at an address, and the description is narrowed by each known region in turn.
\<close>

section \<open>Region descriptors\<close>

record memmap_region =
  region_min :: u64
  region_max :: u64
  region_flags :: u32
  region_name :: "string option"

definition MEMMAP_FL_MEMORY :: u32 where "MEMMAP_FL_MEMORY = 1"
definition MEMMAP_FL_RESERVED :: u32 where "MEMMAP_FL_RESERVED = 2"
definition MEMMAP_FL_USED :: u32 where "MEMMAP_FL_USED = 4"
definition MEMMAP_FL_INACCESSIBLE :: u32 where "MEMMAP_FL_INACCESSIBLE = 8"

definition memmap_init :: "u64 \<Rightarrow> memmap_region" where
  "memmap_init mn = \<lparr>region_min = mn, region_max = NOT 0, region_flags = 0, region_name = None\<rparr>"

definition memmap_is_usable :: "memmap_region \<Rightarrow> bool" where
  "memmap_is_usable r \<longleftrightarrow> region_flags r = MEMMAP_FL_MEMORY"

definition memmap_size :: "memmap_region \<Rightarrow> u64" where
  "memmap_size r = region_max r - region_min r + 1"

text \<open>The last address of a known region, truncated to the end of the address space.\<close>

definition known_max :: "u64 \<Rightarrow> u64 \<Rightarrow> u64" where
  "known_max start sz = (let mx = start + sz - 1 in if mx < start then NOT 0 else mx)"

definition memmap_update :: "u64 \<Rightarrow> u64 \<Rightarrow> u32 \<Rightarrow> string option \<Rightarrow> memmap_region \<Rightarrow> memmap_region" where
  "memmap_update start sz flags name r =
     (if sz = 0 then r
      else
        let mx = known_max start sz
        in if mx < region_min r then r
           else if start > region_max r then r
           else if start \<le> region_min r then
             r\<lparr>region_flags := region_flags r OR flags,
               region_name := (case name of None \<Rightarrow> region_name r | Some n \<Rightarrow> Some n),
               region_max := (if mx < region_max r then mx else region_max r)\<rparr>
           else if start < region_max r then r\<lparr>region_max := start - 1\<rparr>
           else r)"

record used_region =
  used_name :: string
  used_start :: u64
  used_size :: u64

definition memmap_use :: "used_region \<Rightarrow> u64 \<Rightarrow> u64 \<Rightarrow> used_region" where
  "memmap_use u start sz = u\<lparr>used_start := start, used_size := sz\<rparr>"

fun memmap_update_used :: "used_region list \<Rightarrow> memmap_region \<Rightarrow> memmap_region" where
  "memmap_update_used [] r = r"
| "memmap_update_used (u # us) r =
     memmap_update_used us (memmap_update (used_start u) (used_size u) MEMMAP_FL_USED (Some (used_name u)) r)"

text \<open>
  The loop over all regions asks for the description at zero, then at the address after each
  region, until a region ends at the top. A description that does not move forward would make
  it run forever.
\<close>

partial_function (option) memmap_scan ::
  "(u64 \<Rightarrow> memmap_region) \<Rightarrow> u64 \<Rightarrow> u64 \<Rightarrow> u64 \<Rightarrow> (u64 \<times> u64) option" where
  "memmap_scan describe mn start largest =
     (let r = describe mn;
          better = (memmap_is_usable r \<and> memmap_size r > largest);
          start' = (if better then region_min r else start);
          largest' = (if better then memmap_size r else largest)
      in if region_max r + 1 = 0 then Some (start', largest')
         else memmap_scan describe (region_max r + 1) start' largest')"

definition memmap_largest :: "(u64 \<Rightarrow> memmap_region) \<Rightarrow> (u64 \<times> u64) option" where
  "memmap_largest describe = memmap_scan describe 0 0 0"

section \<open>The BIOS memory map\<close>

text \<open>One reply to INT 15,e820: the registers, and the buffer as the call leaves it.\<close>

record e820_reply =
  e820_smap :: u32
  e820_next :: u32
  e820_size :: u32
  e820_carry :: bool
  e820_start :: u64
  e820_len :: u64
  e820_type :: u32
  e820_attrs :: u32

definition SMAP :: u32 where "SMAP = 0x534d4150"
definition E820_TYPE_RAM :: u32 where "E820_TYPE_RAM = 1"
definition E820_ATTR_ENABLED :: u32 where "E820_ATTR_ENABLED = 1"
definition E820_ATTR_NONVOLATILE :: u32 where "E820_ATTR_NONVOLATILE = 2"
definition E820_MIN_SIZE :: u32 where "E820_MIN_SIZE = 20"

text \<open>
  The sequence of replies is an argument; when it ends before the BIOS reports the end of its
  map the loop has not returned, and the value is \<open>None\<close>. The region keeps the updates made
  before an error.
\<close>

fun e820_loop :: "e820_reply list \<Rightarrow> nat \<Rightarrow> u64 \<Rightarrow> u64 \<Rightarrow> memmap_region
    \<Rightarrow> (memmap_region \<times> nat result) option" where
  "e820_loop [] count start len r = None"
| "e820_loop (e # es) count start len r =
     (let again = (\<lambda>count start len r.
            if e820_next e \<noteq> 0 then e820_loop es count start len r else Some (r, Inr count))
      in if e820_smap e \<noteq> SMAP then Some (r, Inl ENOTSUP)
         else if e820_size e < E820_MIN_SIZE then Some (r, Inl EINVAL)
         else if e820_carry e then Some (r, Inr count)
         else if e820_type e \<noteq> E820_TYPE_RAM then again count start len r
         else if e820_size e > 20 \<and> (e820_attrs e AND E820_ATTR_ENABLED = 0
                 \<or> e820_attrs e AND E820_ATTR_NONVOLATILE \<noteq> 0) then again count start len r
         else
           let merge = (e820_start e = start + len);
               start = (if merge then start else e820_start e);
               len = (if merge then len + e820_len e else e820_len e)
           in if count = 0 \<and> start \<noteq> 0 then Some (r, Inl EINVAL)
              else if count = 1 \<and> start \<noteq> 0x100000 then Some (r, Inl EINVAL)
              else again (Suc count) start len
                     (memmap_update start len MEMMAP_FL_MEMORY (Some ''e820'') r))"

definition meme820 :: "bool \<Rightarrow> e820_reply list \<Rightarrow> memmap_region \<Rightarrow> (memmap_region \<times> unit result) option" where
  "meme820 post es r =
     (if post then Some (r, Inl ENOTTY)
      else case e820_loop es 0 0 0 r of
             None \<Rightarrow> None
           | Some (r', Inl rc) \<Rightarrow> Some (r', Inl rc)
           | Some (r', Inr count) \<Rightarrow> Some (r', if count < 2 then Inl EINVAL else Inr ()))"

text \<open>A reply to INT 15,e801: the carry flag and the four 16-bit registers.\<close>

record e801_reply =
  e801_carry :: bool
  ext_1m_to_16m_k :: u16
  ext_16m_plus_64k :: u16
  conf_1m_to_16m_k :: u16
  conf_16m_plus_64k :: u16

definition extmemsize_e801 :: "bool \<Rightarrow> e801_reply \<Rightarrow> u32" where
  "extmemsize_e801 post e =
     (if post then 0
      else if e801_carry e then 0
      else
        let conf = (ext_1m_to_16m_k e OR ext_16m_plus_64k e = 0);
            low = (if conf then conf_1m_to_16m_k e else ext_1m_to_16m_k e);
            high = (if conf then conf_16m_plus_64k e else ext_16m_plus_64k e);
            extmem = ucast low + ucast high * 64
        in if extmem = 0x400000 - 0x400 then 0 else extmem)"

definition extmemsize :: "bool \<Rightarrow> e801_reply \<Rightarrow> u16 \<Rightarrow> u32" where
  "extmemsize post e801 e88 =
     (let extmem_88 = ucast e88;
          extmem_e801 = extmemsize_e801 post e801
      in if extmem_e801 \<noteq> 0 then extmem_e801 else extmem_88)"

text \<open>
  The products \<open>basemem * 1024\<close> and \<open>extmem * 1024\<close> are computed in 32 bits before they are
  widened.
\<close>

definition int15_describe ::
  "bool \<Rightarrow> e820_reply list \<Rightarrow> u32 \<Rightarrow> e801_reply \<Rightarrow> u16 \<Rightarrow> u64 \<Rightarrow> memmap_region option" where
  "int15_describe post es basemem e801 e88 mn =
     (let r = memmap_update (2 ^ 32) (- (2 ^ 32)) MEMMAP_FL_INACCESSIBLE None (memmap_init mn)
      in case meme820 post es r of
           None \<Rightarrow> None
         | Some (r, Inr _) \<Rightarrow> Some r
         | Some (r, Inl _) \<Rightarrow>
             (let extmem = extmemsize post e801 e88;
                  r = memmap_update 0 (ucast (basemem * 1024)) MEMMAP_FL_MEMORY (Some ''basemem'') r
              in Some (memmap_update 0x100000 (ucast (extmem * 1024)) MEMMAP_FL_MEMORY (Some ''extmem'') r)))"

section \<open>What a description says\<close>

type_synonym known_region = "u64 \<times> u64 \<times> u32 \<times> string option"

definition covers :: "known_region \<Rightarrow> u64 \<Rightarrow> bool" where
  "covers = (\<lambda>(start, sz, flags, name) x. sz \<noteq> 0 \<and> start \<le> x \<and> x \<le> known_max start sz)"

definition update_known :: "known_region \<Rightarrow> memmap_region \<Rightarrow> memmap_region" where
  "update_known = (\<lambda>(start, sz, flags, name). memmap_update start sz flags name)"

text \<open>The flags of an address: those of all the known regions that contain it.\<close>

definition flags_at :: "known_region list \<Rightarrow> u64 \<Rightarrow> u32" where
  "flags_at ks x = fold (\<lambda>k acc. if covers k x then acc OR fst (snd (snd k)) else acc) ks 0"

lemma flags_at_simps [simp]:
  "flags_at [] x = 0"
  "flags_at (ks @ [k]) x = (if covers k x then flags_at ks x OR fst (snd (snd k)) else flags_at ks x)"
  by (simp_all add: flags_at_def)

lemma flags_at_cong:
  "(\<And>k. k \<in> set ks \<Longrightarrow> covers k x = covers k y) \<Longrightarrow> flags_at ks x = flags_at ks y"
  unfolding flags_at_def by (rule fold_cong) auto

text \<open>
  One update: the description still starts where it did, and up to its end every address is
  inside the known region if and only if the first one is, except that a region which starts
  exactly at the end is not seen.
\<close>

lemma update_known_props:
  fixes r :: memmap_region and k :: known_region and x :: u64
  assumes "region_min r \<le> region_max r"
  defines "r' \<equiv> update_known k r"
  shows "region_min r' = region_min r" and "region_min r' \<le> region_max r'" and "region_max r' \<le> region_max r"
    and "region_flags r' = (if covers k (region_min r) then region_flags r OR fst (snd (snd k)) else region_flags r)"
    and "region_min r \<le> x \<Longrightarrow> x \<le> region_max r' \<Longrightarrow>
           covers k x = covers k (region_min r) \<or> x = region_max r' \<and> x = fst k"
    and "region_max r' = region_max r \<or> fst (snd k) \<noteq> 0
           \<and> (region_max r' = known_max (fst k) (fst (snd k)) \<or> region_max r' + 1 = fst k)"
proof -
  obtain start sz flags name where k: "k = (start, sz, flags, name)" by (cases k) auto
  have pred: "region_min r \<le> start - 1" "start - 1 < start" if "\<not> start \<le> region_min r"
  proof -
    have "start \<noteq> 0" using that by auto
    then show "region_min r \<le> start - 1" "start - 1 < start"
      using that by (simp_all add: word_le_nat_alt word_less_nat_alt unat_minus_one)
  qed
  note defs = k r'_def update_known_def memmap_update_def covers_def Let_def
  show "region_min r' = region_min r" by (simp add: defs)
  show "region_min r' \<le> region_max r'" "region_max r' \<le> region_max r"
    using assms(1) pred by (auto simp: defs intro: less_imp_le less_trans)
  show "region_flags r' = (if covers k (region_min r) then region_flags r OR fst (snd (snd k)) else region_flags r)"
    using assms(1) by (auto simp: defs)
  show "region_max r' = region_max r \<or> fst (snd k) \<noteq> 0
      \<and> (region_max r' = known_max (fst k) (fst (snd k)) \<or> region_max r' + 1 = fst k)"
    by (auto simp: defs)
  show "covers k x = covers k (region_min r) \<or> x = region_max r' \<and> x = fst k"
    if "region_min r \<le> x" "x \<le> region_max r'"
  proof (cases "start \<le> region_min r")
    case True
    with that show ?thesis by (auto simp: defs split: if_splits)
  next
    case False
    note that(2) [unfolded defs]
    with that(1) False pred [OF False] show ?thesis by (auto simp: defs split: if_splits)
  qed
qed

text \<open>The description of an address by a list of known regions, in the order of the updates.\<close>

definition describe_known :: "known_region list \<Rightarrow> u64 \<Rightarrow> memmap_region" where
  "describe_known ks a = fold update_known ks (memmap_init a)"

lemma describe_known_snoc: "describe_known (ks @ [k]) a = update_known k (describe_known ks a)"
  by (simp add: describe_known_def)

lemma describe_known_range:
  "region_min (describe_known ks a) = a \<and> a \<le> region_max (describe_known ks a)"
proof (induction ks rule: rev_induct)
  case Nil
  then show ?case by (simp add: describe_known_def memmap_init_def)
next
  case (snoc k ks)
  then show ?case
    using update_known_props(1,2) [of "describe_known ks a" k] by (simp add: describe_known_snoc)
qed

lemma describe_known_flags: "region_flags (describe_known ks a) = flags_at ks a"
proof (induction ks rule: rev_induct)
  case Nil
  then show ?case by (simp add: describe_known_def memmap_init_def)
next
  case (snoc k ks)
  then show ?case
    using update_known_props(4) [of "describe_known ks a" k] describe_known_range [of ks a]
    by (simp add: describe_known_snoc)
qed

lemma describe_known_covers:
  assumes "k \<in> set ks" and "a \<le> x" and "x \<le> region_max (describe_known ks a)"
  shows "covers k x = covers k a \<or> x = region_max (describe_known ks a) \<and> x = fst k"
  using assms
proof (induction ks rule: rev_induct)
  case (snoc k' ks)
  note u = update_known_props [where r = "describe_known ks a" and k = k', folded describe_known_snoc]
  have r: "region_min (describe_known ks a) = a" "a \<le> region_max (describe_known ks a)"
    using describe_known_range by auto
  show ?case
  proof (cases "k = k'")
    case True
    then show ?thesis using u(5) r snoc.prems by simp
  next
    case False
    then have "k \<in> set ks" using snoc.prems(1) by auto
    moreover have le: "region_max (describe_known (ks @ [k']) a) \<le> region_max (describe_known ks a)"
      using u(3) r by simp
    ultimately have "covers k x = covers k a \<or> x = region_max (describe_known ks a) \<and> x = fst k"
      using snoc.IH snoc.prems(2) order_trans [OF snoc.prems(3) le] by blast
    then show ?thesis using antisym [OF le] snoc.prems(3) by auto
  qed
qed simp

lemma describe_known_boundary:
  "region_max (describe_known ks a) = NOT 0 \<or> (\<exists>(start, sz, rest) \<in> set ks. sz \<noteq> 0
     \<and> (region_max (describe_known ks a) = known_max start sz \<or> region_max (describe_known ks a) + 1 = start))"
proof (induction ks rule: rev_induct)
  case Nil
  then show ?case by (simp add: describe_known_def memmap_init_def)
next
  case (snoc k ks)
  have "region_min (describe_known ks a) \<le> region_max (describe_known ks a)"
    using describe_known_range [of ks a] by simp
  from update_known_props(6) [OF this, of k, folded describe_known_snoc] snoc show ?case
    by (auto split: prod.splits)
qed

text \<open>
  Claim C16. The description of an address starts there, is never empty, carries exactly the
  flags of the address, and ends at the end of the address space or at a boundary of a known
  region. All its addresses have the same flags, except that the last one may also lie in a
  region that starts at exactly that address.
\<close>

theorem memmap_describe_sound:
  fixes ks :: "known_region list" and a :: u64
  defines "r \<equiv> fold (\<lambda>(start, sz, flags, name). memmap_update start sz flags name) ks (memmap_init a)"
  shows "region_min r = a \<and> a \<le> region_max r \<and> region_flags r = flags_at ks a
    \<and> (region_max r = NOT 0 \<or> (\<exists>(start, sz, rest) \<in> set ks. sz \<noteq> 0
         \<and> (region_max r = known_max start sz \<or> region_max r + 1 = start)))
    \<and> (\<forall>x. a \<le> x \<and> x < region_max r \<longrightarrow> flags_at ks x = flags_at ks a)
    \<and> (region_max r \<notin> fst ` set ks \<longrightarrow> flags_at ks (region_max r) = flags_at ks a)"
proof -
  have r: "r = describe_known ks a"
    by (simp add: r_def describe_known_def update_known_def [abs_def])
  have "flags_at ks x = flags_at ks a" if "a \<le> x" "x < region_max r" for x
    using describe_known_covers [OF _ that(1) less_imp_le] that(2) unfolding r
    by (intro flags_at_cong) blast
  moreover have "flags_at ks (region_max r) = flags_at ks a" if "region_max r \<notin> fst ` set ks"
    using describe_known_covers [OF _ conjunct2 [OF describe_known_range] order_refl] that unfolding r
    by (intro flags_at_cong) (blast intro: imageI)
  ultimately show ?thesis
    using describe_known_range describe_known_flags describe_known_boundary by (simp add: r)
qed

theorem memmap_describe_sound_witness:
  "flags_at [(0, 0xa0000, 1, None), (0x9fc00, 0x400, 4, None)] 0x9fbff
     = flags_at [(0, 0xa0000, 1, None), (0x9fc00, 0x400, 4, None)] 0"
proof -
  let ?ks = "[(0, 0xa0000, 1, None), (0x9fc00, 0x400, 4, None)] :: known_region list"
  have "region_max (fold (\<lambda>(start, sz, flags, name). memmap_update start sz flags name) ?ks (memmap_init 0)) = 0x9fbff"
    by (simp add: memmap_update_def memmap_init_def known_max_def Let_def)
  then show ?thesis
    using conjunct2 [OF conjunct2 [OF conjunct2 [OF conjunct2 [OF conjunct2 [OF memmap_describe_sound [of ?ks 0]]]]]]
    by simp
qed

text \<open>The exception is real: here the last address described as unused is used.\<close>

lemma memmap_update_boundary_missed:
  "let ks = [(0, 0x1000, MEMMAP_FL_MEMORY, None), (0xfff, 1, MEMMAP_FL_USED, None)] :: known_region list;
       r = describe_known ks 0
   in region_max r = 0xfff \<and> region_flags r = MEMMAP_FL_MEMORY
     \<and> flags_at ks 0xfff = MEMMAP_FL_MEMORY OR MEMMAP_FL_USED"
  by (simp add: describe_known_def update_known_def memmap_update_def memmap_init_def known_max_def
      flags_at_def covers_def Let_def MEMMAP_FL_MEMORY_def MEMMAP_FL_USED_def)

section \<open>The largest region\<close>

text \<open>The addresses at which a loop over all regions asks for a description.\<close>

inductive visited :: "(u64 \<Rightarrow> memmap_region) \<Rightarrow> u64 \<Rightarrow> u64 \<Rightarrow> bool" for describe where
  start: "visited describe a a"
| step: "\<lbrakk>region_max (describe a) + 1 \<noteq> 0; visited describe (region_max (describe a) + 1) b\<rbrakk>
    \<Longrightarrow> visited describe a b"

inductive_cases visited_stepE: "visited describe a b"

definition progresses :: "(u64 \<Rightarrow> memmap_region) \<Rightarrow> bool" where
  "progresses describe \<longleftrightarrow> (\<forall>a. region_min (describe a) = a \<and> a \<le> region_max (describe a))"

definition scan_result :: "(u64 \<Rightarrow> memmap_region) \<Rightarrow> u64 \<Rightarrow> u64 \<Rightarrow> u64 \<Rightarrow> u64 \<times> u64 \<Rightarrow> bool" where
  "scan_result describe mn start largest = (\<lambda>(s, l).
     ((s, l) = (start, largest) \<or> (\<exists>a. visited describe mn a \<and> memmap_is_usable (describe a)
        \<and> s = a \<and> l = memmap_size (describe a)))
     \<and> largest \<le> l
     \<and> (\<forall>a. visited describe mn a \<and> memmap_is_usable (describe a) \<longrightarrow> memmap_size (describe a) \<le> l))"

lemma memmap_scan_correct:
  assumes "progresses describe"
  shows "\<exists>res. memmap_scan describe mn start largest = Some res \<and> scan_result describe mn start largest res"
proof (induction "2 ^ 64 - unat mn" arbitrary: mn start largest rule: less_induct)
  case less
  let ?r = "describe mn" and ?next = "region_max (describe mn) + 1"
  let ?better = "memmap_is_usable ?r \<and> memmap_size ?r > largest"
  let ?start = "if ?better then region_min ?r else start"
  let ?largest = "if ?better then memmap_size ?r else largest"
  have mn: "region_min ?r = mn" "mn \<le> region_max ?r" using assms by (auto simp: progresses_def)
  note scan = memmap_scan.simps [of describe mn start largest, unfolded Let_def]
  show ?case
  proof (cases "?next = 0")
    case True
    then have "visited describe mn a \<longleftrightarrow> a = mn" for a
      by (auto intro: visited.start elim: visited_stepE)
    then show ?thesis using True mn by (subst scan) (auto simp: scan_result_def)
  next
    case False
    have v: "visited describe mn a \<longleftrightarrow> a = mn \<or> visited describe ?next a" for a
      using False by (auto intro: visited.intros elim: visited_stepE)
    have "unat mn < unat ?next"
      using mn(2) unat_minus_one [OF False] False by (auto simp: word_le_nat_alt simp flip: unat_gt_0)
    then have "2 ^ 64 - unat ?next < 2 ^ 64 - unat mn" using unat_u64_less [of ?next] by linarith
    from less.hyps [OF this, of ?start ?largest]
    obtain s l where r: "memmap_scan describe ?next ?start ?largest = Some (s, l)"
      "scan_result describe ?next ?start ?largest (s, l)" by auto
    have "scan_result describe mn start largest (s, l)"
      using r(2) mn(1) unfolding scan_result_def split v by (auto split: if_splits)
    then show ?thesis using False r(1) by (subst scan) simp
  qed
qed

text \<open>
  Claim C32. Over any description that starts at the address asked for and does not end before
  it, the search for the largest usable region returns. It returns the start and the size of a
  usable region that the loop visits, at least as large as every other, or zero and zero when
  no usable region has a size.
\<close>

theorem memmap_largest_correct:
  assumes "\<And>a. region_min (describe a) = a \<and> a \<le> region_max (describe a)"
  shows "\<exists>start sz. memmap_largest describe = Some (start, sz)
    \<and> (sz = 0 \<and> start = 0 \<or> visited describe 0 start \<and> memmap_is_usable (describe start)
         \<and> sz = memmap_size (describe start))
    \<and> (\<forall>a. visited describe 0 a \<and> memmap_is_usable (describe a) \<longrightarrow> memmap_size (describe a) \<le> sz)"
proof -
  have "progresses describe" using assms by (simp add: progresses_def)
  from memmap_scan_correct [OF this, of 0 0 0] show ?thesis
    by (auto simp: memmap_largest_def scan_result_def)
qed

theorem memmap_largest_correct_witness:
  "\<exists>start sz. memmap_largest (describe_known [(0x1000, 0x2000, 1, None)]) = Some (start, sz)
     \<and> (\<forall>a. visited (describe_known [(0x1000, 0x2000, 1, None)]) 0 a
          \<and> memmap_is_usable (describe_known [(0x1000, 0x2000, 1, None)] a)
          \<longrightarrow> memmap_size (describe_known [(0x1000, 0x2000, 1, None)] a) \<le> sz)"
  using memmap_largest_correct [of "describe_known [(0x1000, 0x2000, 1, None)]", OF describe_known_range]
  by blast

section \<open>The BIOS never offers memory it cannot reach\<close>

definition below_4g :: "memmap_region \<Rightarrow> bool" where
  "below_4g r \<longleftrightarrow> region_min r \<le> region_max r
     \<and> (bit (region_flags r) 3 \<or> region_max r < 2 ^ 32)"

lemma word_less_le_pred_4g: "x < 0x100000000 \<Longrightarrow> x \<le> 0xffffffff" for x :: u64
  by (simp add: word_le_nat_alt word_less_nat_alt)

lemma below_4g_update: "below_4g r \<Longrightarrow> below_4g (memmap_update start sz flags name r)"
proof -
  assume r: "below_4g r"
  then have "region_min r \<le> region_max r" by (simp add: below_4g_def)
  note u = update_known_props(2-4) [OF this, of "(start, sz, flags, name)"]
  show "below_4g (memmap_update start sz flags name r)"
    using r u by (auto simp: below_4g_def update_known_def bit_simps intro: le_less_trans)
qed

lemma below_4g_e820: "e820_loop es count start len r = Some (r', rc) \<Longrightarrow> below_4g r \<Longrightarrow> below_4g r'"
proof (induction es count start len r rule: e820_loop.induct)
  case (2 e es count start len r)
  then show ?case by (auto simp: Let_def below_4g_update split: if_splits)
qed simp

text \<open>
  Claim C33. A usable region that the BIOS back end describes always ends below 4GB, whatever the
  BIOS replies and at whatever point it fails.
\<close>

theorem int15_describe_below_4g:
  assumes "int15_describe post es basemem e801 e88 mn = Some r" and "memmap_is_usable r"
  shows "region_max r < 2 ^ 32"
proof -
  have "below_4g (memmap_update (2 ^ 32) (- (2 ^ 32)) MEMMAP_FL_INACCESSIBLE None (memmap_init mn))"
    using word_less_le_pred_4g [of mn]
    by (auto simp: below_4g_def memmap_update_def memmap_init_def known_max_def Let_def
        MEMMAP_FL_INACCESSIBLE_def not_le)
  moreover have "below_4g r'" if "meme820 post es r0 = Some (r', rc)" "below_4g r0" for r0 r' rc
    using that by (auto simp: meme820_def split: if_splits option.splits sum.splits intro: below_4g_e820)
  ultimately have "below_4g r"
    using assms(1) by (auto simp: int15_describe_def Let_def below_4g_update split: option.splits sum.splits)
  moreover have "\<not> bit (region_flags r) 3"
    using assms(2) by (simp add: memmap_is_usable_def MEMMAP_FL_MEMORY_def)
  ultimately show ?thesis by (simp add: below_4g_def)
qed

theorem int15_describe_below_4g_witness:
  "\<exists>r. int15_describe True [] 640 \<lparr>e801_carry = True, ext_1m_to_16m_k = 0, ext_16m_plus_64k = 0,
       conf_1m_to_16m_k = 0, conf_16m_plus_64k = 0\<rparr> 0x3c00 0 = Some r
   \<and> memmap_is_usable r \<and> region_max r < 2 ^ 32"
proof -
  let ?e = "\<lparr>e801_carry = True, ext_1m_to_16m_k = 0, ext_16m_plus_64k = 0,
       conf_1m_to_16m_k = 0, conf_16m_plus_64k = 0\<rparr>"
  let ?r = "\<lparr>region_min = 0, region_max = 0x9ffff, region_flags = 1, region_name = Some ''basemem''\<rparr>"
  have d: "int15_describe True [] 640 ?e 0x3c00 0 = Some ?r"
    by (simp add: int15_describe_def meme820_def memmap_update_def memmap_init_def known_max_def Let_def
        extmemsize_def extmemsize_e801_def MEMMAP_FL_MEMORY_def)
  moreover have u: "memmap_is_usable ?r" by (simp add: memmap_is_usable_def MEMMAP_FL_MEMORY_def)
  ultimately show ?thesis using int15_describe_below_4g [OF d u] by blast
qed

end
