(* ===== verification/UHeap.thy ===== *)
theory UHeap
  imports HeapRealloc Memmap
begin

text \<open>
  The external heap (\<open>core/uheap.c\<close>): a heap of pages that grows downwards from the top of the
  largest usable region of the memory map and gives its lowest block back when it is freed. The
  description of the memory map, which depends on the region the heap has in use, is an
  argument. Physical and virtual addresses coincide.
\<close>

section \<open>State and operations\<close>

record uheap_vars =
  uheap_limit :: u64
  uheap_start :: u64
  uheap_end :: u64
  uheap_used :: used_region

type_synonym memory_map = "used_region \<Rightarrow> u64 \<Rightarrow> memmap_region"

definition UHEAP_ALIGN :: u64 where
  "UHEAP_ALIGN = 4096"

definition initial_uheap_vars :: uheap_vars where
  "initial_uheap_vars = \<lparr>uheap_limit = 0, uheap_start = 0, uheap_end = 0,
     uheap_used = \<lparr>used_name = ''uheap'', used_start = 0, used_size = 0\<rparr>\<rparr>"

definition uheap :: heap where
  "uheap = \<lparr>blocks = [], align = UHEAP_ALIGN, ptr_align = UHEAP_ALIGN,
     freemem = 0, usedmem = 0, maxusedmem = 0\<rparr>"

definition uheap_resize :: "uheap_vars \<Rightarrow> u64 \<Rightarrow> uheap_vars" where
  "uheap_resize v delta =
     (let start = uheap_start v - delta
      in v\<lparr>uheap_start := start, uheap_used := memmap_use (uheap_used v) start (uheap_end v - start)\<rparr>)"

definition uheap_find :: "memory_map \<Rightarrow> uheap_vars \<Rightarrow> uheap_vars option" where
  "uheap_find describe v =
     (case memmap_largest (describe (uheap_used v)) of
        None \<Rightarrow> None
      | Some (start, sz) \<Rightarrow>
          (let finish = start + sz;
               after = (if finish \<noteq> 0 then finish AND (UHEAP_ALIGN - 1) else UHEAP_ALIGN);
               before = (- start) AND (UHEAP_ALIGN - 1);
               strip = before + after
           in if strip > sz then Some v
              else Some (uheap_resize
                (v\<lparr>uheap_limit := start + before, uheap_start := finish - after, uheap_end := finish - after\<rparr>) 0)))"

definition uheap_shrink :: "uheap_vars \<Rightarrow> u64 \<Rightarrow> u64 \<Rightarrow> uheap_vars \<times> u32" where
  "uheap_shrink v ptr sz =
     (if ptr \<noteq> uheap_start v then (v, 0) else (uheap_resize v (- sz), 1))"

definition uheap_grow :: "memory_map \<Rightarrow> heap \<Rightarrow> uheap_vars \<Rightarrow> u64 \<Rightarrow> ((heap \<times> uheap_vars) \<times> u32) option" where
  "uheap_grow describe h v sz =
     (case (if uheap_limit v = uheap_end v then uheap_find describe v else Some v) of
        None \<Rightarrow> None
      | Some v1 \<Rightarrow>
          (if sz > uheap_start v1 - uheap_limit v1 then Some ((h, v1), 0)
           else case heap_populate (Some uheap_shrink) h v1 (uheap_start v1 - sz) sz of
                  None \<Rightarrow> None
                | Some (h', v2) \<Rightarrow> Some ((h', uheap_resize v2 sz), 1)))"

definition uheap_realloc :: "memory_map \<Rightarrow> heap \<Rightarrow> uheap_vars \<Rightarrow> memory \<Rightarrow> u64 \<Rightarrow> u64
    \<Rightarrow> ((heap \<times> uheap_vars \<times> memory) \<times> u64) option" where
  "uheap_realloc describe h v mem old_ptr new_size =
     heap_realloc (Some (uheap_grow describe)) (Some uheap_shrink) h v mem old_ptr new_size"

section \<open>Invariant\<close>

text \<open>
  Between the three addresses the heap owns pages below the middle of the address space and
  above address zero; its free memory lies between start and end, and the region it reports as
  in use is exactly that range. Before the first growth all three addresses are equal.
\<close>

definition page_aligned :: "u64 \<Rightarrow> bool" where
  "page_aligned a \<longleftrightarrow> 4096 dvd unat a"

definition uheap_inv :: "heap \<Rightarrow> uheap_vars \<Rightarrow> bool" where
  "uheap_inv h v \<longleftrightarrow> heap_inv h \<and> align h = 4096 \<and> ptr_align h = 4096
     \<and> (if uheap_limit v = uheap_end v then uheap_start v = uheap_end v \<and> blocks h = []
        else 0 < unat (uheap_limit v) \<and> unat (uheap_limit v) \<le> unat (uheap_start v)
          \<and> unat (uheap_start v) \<le> unat (uheap_end v) \<and> unat (uheap_end v) \<le> heap_limit
          \<and> page_aligned (uheap_limit v) \<and> page_aligned (uheap_start v) \<and> page_aligned (uheap_end v)
          \<and> free_memory h \<subseteq> {unat (uheap_start v)..<unat (uheap_end v)})
     \<and> used_size (uheap_used v) = uheap_end v - uheap_start v
     \<and> (used_size (uheap_used v) \<noteq> 0 \<longrightarrow> used_start (uheap_used v) = uheap_start v)"

text \<open>What is relied on of the memory map: usable memory is below the limit and not at zero.\<close>

definition good_map :: "memory_map \<Rightarrow> bool" where
  "good_map describe \<longleftrightarrow> (\<forall>u a. region_min (describe u a) = a \<and> a \<le> region_max (describe u a)
     \<and> (memmap_is_usable (describe u a) \<longrightarrow> a \<noteq> 0 \<and> unat (region_max (describe u a)) < heap_limit))"

definition in_use :: "heap \<Rightarrow> uheap_vars \<Rightarrow> nat set" where
  "in_use h v = {unat (uheap_start v)..<unat (uheap_end v)} - free_memory h"

definition uheap_room :: "heap \<Rightarrow> uheap_vars \<Rightarrow> nat" where
  "uheap_room h v = (if uheap_limit v = uheap_end v then 2 ^ 64 else unat (uheap_start v) - unat (uheap_limit v))"

section \<open>Finding the region\<close>

lemma page_mask: "x AND (UHEAP_ALIGN - 1) = take_bit 12 x"
  using mask_and [of x 12] by (simp add: UHEAP_ALIGN_def)

lemma page_aligned_iff: "page_aligned a \<longleftrightarrow> take_bit 12 a = 0"
  by (simp add: page_aligned_def word_unat_eq_iff unat_take_bit mod_eq_0_iff_dvd)

lemma page_round_up: "page_aligned (a + take_bit 12 (- a))"
  using take_bit_add_cong [of 12 a a "take_bit 12 (- a)" "- a"] by (simp add: page_aligned_iff)

lemma page_round_down: "page_aligned (a - take_bit 12 a)"
  by (simp add: page_aligned_iff take_bit_round_down)

lemma unat_page_offset: "unat (take_bit 12 a) < 4096" for a :: u64
  using unat_take_bit [of 12 a] by simp

text \<open>The arithmetic of rounding a region that ends below the limit to whole pages.\<close>

lemma round_region:
  fixes start mx :: u64
  assumes "start \<le> mx" and "unat mx < heap_limit"
  defines "sz \<equiv> mx - start + 1"
  shows "start + sz = mx + 1" and "mx + 1 \<noteq> 0" and "unat (mx + 1) \<le> heap_limit"
    and "\<not> sz < take_bit 12 (- start) + take_bit 12 (mx + 1) \<Longrightarrow>
      unat (start + take_bit 12 (- start)) = unat start + unat (take_bit 12 (- start))
      \<and> unat (mx + 1 - take_bit 12 (mx + 1)) = unat (mx + 1) - unat (take_bit 12 (mx + 1))
      \<and> unat start + unat (take_bit 12 (- start)) \<le> unat (mx + 1) - unat (take_bit 12 (mx + 1))"
proof -
  have mx1: "unat (mx + 1) = unat mx + 1"
    using assms(2) by (subst unat_add_no_wrap) (simp_all add: heap_limit_def)
  then show "mx + 1 \<noteq> 0" "unat (mx + 1) \<le> heap_limit" using assms(2) by (auto simp: word_unat_eq_iff)
  have "unat (mx - start) = unat mx - unat start" using assms(1) by (rule unat_word_diff)
  then have sz: "unat sz = unat mx - unat start + 1"
    unfolding sz_def using assms(2) by (subst unat_add_no_wrap) (simp_all add: heap_limit_def)
  show "start + sz = mx + 1" by (simp add: sz_def)
  assume "\<not> sz < take_bit 12 (- start) + take_bit 12 (mx + 1)"
  moreover have "unat (take_bit 12 (- start) + take_bit 12 (mx + 1)) =
      unat (take_bit 12 (- start)) + unat (take_bit 12 (mx + 1))"
    using unat_page_offset [of "- start"] unat_page_offset [of "mx + 1"] by (intro unat_add_no_wrap) simp
  ultimately have le: "unat (take_bit 12 (- start)) + unat (take_bit 12 (mx + 1)) \<le> unat mx - unat start + 1"
    using sz by (simp add: word_less_nat_alt)
  have "unat start \<le> unat mx" using assms(1) by (simp add: word_le_nat_alt)
  moreover have "unat (start + take_bit 12 (- start)) = unat start + unat (take_bit 12 (- start))"
    using unat_page_offset [of "- start"] assms(2) \<open>unat start \<le> unat mx\<close>
    by (intro unat_add_no_wrap) (simp add: heap_limit_def)
  moreover have "unat (mx + 1 - take_bit 12 (mx + 1)) = unat (mx + 1) - unat (take_bit 12 (mx + 1))"
    by (rule unat_word_diff) (rule take_bit_le)
  ultimately show "unat (start + take_bit 12 (- start)) = unat start + unat (take_bit 12 (- start))
      \<and> unat (mx + 1 - take_bit 12 (mx + 1)) = unat (mx + 1) - unat (take_bit 12 (mx + 1))
      \<and> unat start + unat (take_bit 12 (- start)) \<le> unat (mx + 1) - unat (take_bit 12 (mx + 1))"
    using le mx1 by linarith
qed

lemma uheap_find_correct:
  assumes "good_map describe" and "uheap_start v = uheap_end v" and "uheap_limit v = uheap_end v"
    and "used_size (uheap_used v) = 0"
  obtains v' where "uheap_find describe v = Some v'" "uheap_start v' = uheap_end v'"
    "used_size (uheap_used v') = 0"
    "uheap_limit v' \<noteq> uheap_end v' \<Longrightarrow> 0 < unat (uheap_limit v') \<and> unat (uheap_limit v') \<le> unat (uheap_end v')
       \<and> unat (uheap_end v') \<le> heap_limit \<and> page_aligned (uheap_limit v') \<and> page_aligned (uheap_end v')"
proof -
  let ?d = "describe (uheap_used v)"
  have g: "region_min (?d a) = a" "a \<le> region_max (?d a)"
    "memmap_is_usable (?d a) \<Longrightarrow> a \<noteq> 0 \<and> unat (region_max (?d a)) < heap_limit" for a
    using assms(1) by (auto simp: good_map_def)
  from memmap_scan_correct [of ?d 0 0 0] g(1,2)
  obtain start sz where l: "memmap_largest ?d = Some (start, sz)" "scan_result ?d 0 0 0 (start, sz)"
    by (auto simp: progresses_def memmap_largest_def)
  note find = uheap_find_def [of describe v, unfolded l(1) option.case split page_mask Let_def]
  consider "start = 0" "sz = 0"
    | "memmap_is_usable (?d start)" "sz = region_max (?d start) - start + 1"
    using l(2) g(1) by (auto simp: scan_result_def memmap_size_def)
  then show thesis
  proof cases
    case 1
    then have "uheap_find describe v = Some v" by (simp add: find UHEAP_ALIGN_def)
    with assms that show thesis by simp
  next
    case 2
    note r = round_region [OF g(2) conjunct2 [OF g(3) [OF 2(1)]], folded 2(2)]
    show thesis
    proof (cases "sz < take_bit 12 (- start) + take_bit 12 (start + sz)")
      case True
      then have "uheap_find describe v = Some v" using r(1,2) by (simp add: find)
      with assms that show thesis by simp
    next
      case False
      let ?l = "start + take_bit 12 (- start)" and ?e = "start + sz - take_bit 12 (start + sz)"
      have f: "uheap_find describe v = Some (uheap_resize
          (v\<lparr>uheap_limit := ?l, uheap_start := ?e, uheap_end := ?e\<rparr>) 0)"
        using False r(1,2) by (simp add: find)
      have "0 < unat start" using g(3) [OF 2(1)] by (simp add: unat_gt_0)
      moreover note r(4) [unfolded r(1) [symmetric], OF False] r(3)
      ultimately have "0 < unat ?l \<and> unat ?l \<le> unat ?e \<and> unat ?e \<le> heap_limit"
        unfolding r(1) by linarith
      then show thesis
        using page_round_up [of start] page_round_down [of "start + sz"]
        by (intro that [OF f]) (simp_all add: uheap_resize_def Let_def memmap_use_def)
    qed
  qed
qed

section \<open>Growing\<close>

lemma uheap_inv_init:
  assumes "uheap_inv h v" and "uheap_limit v \<noteq> uheap_end v"
  shows "heap_inv h" "align h = 2 ^ 12" "ptr_align h = 4096" "0 < unat (uheap_limit v)"
    "unat (uheap_limit v) \<le> unat (uheap_start v)" "unat (uheap_start v) \<le> unat (uheap_end v)"
    "unat (uheap_end v) \<le> heap_limit" "page_aligned (uheap_limit v)" "page_aligned (uheap_start v)"
    "page_aligned (uheap_end v)" "free_memory h \<subseteq> {unat (uheap_start v)..<unat (uheap_end v)}"
  using assms by (simp_all add: uheap_inv_def)

lemma uheap_resize_fields [simp]:
  "uheap_limit (uheap_resize v d) = uheap_limit v" "uheap_end (uheap_resize v d) = uheap_end v"
  "uheap_start (uheap_resize v d) = uheap_start v - d"
  "used_size (uheap_used (uheap_resize v d)) = uheap_end v - (uheap_start v - d)"
  "used_start (uheap_used (uheap_resize v d)) = uheap_start v - d"
  by (simp_all add: uheap_resize_def memmap_use_def Let_def)

lemma uheap_find_inv:
  assumes "good_map describe" and "uheap_inv h v" and "uheap_limit v = uheap_end v"
  obtains v' where "uheap_find describe v = Some v'" "uheap_inv h v'" "in_use h v' = in_use h v"
proof -
  have "uheap_start v = uheap_end v" "used_size (uheap_used v) = 0"
    using assms(2,3) by (simp_all add: uheap_inv_def)
  from uheap_find_correct [OF assms(1) this(1) assms(3) this(2)]
  obtain v' where f: "uheap_find describe v = Some v'" "uheap_start v' = uheap_end v'"
    "used_size (uheap_used v') = 0"
    "uheap_limit v' \<noteq> uheap_end v' \<Longrightarrow> 0 < unat (uheap_limit v') \<and> unat (uheap_limit v') \<le> unat (uheap_end v')
       \<and> unat (uheap_end v') \<le> heap_limit \<and> page_aligned (uheap_limit v') \<and> page_aligned (uheap_end v')"
    by blast
  have "blocks h = []" using assms(2,3) by (simp add: uheap_inv_def)
  then have "uheap_inv h v'" using assms(2,3) f(2-4) by (simp add: uheap_inv_def free_memory_def)
  moreover have "in_use h v' = in_use h v"
    using f(2) \<open>uheap_start v = uheap_end v\<close> by (simp add: in_use_def)
  ultimately show thesis using that f(1) by blast
qed

lemma uheap_populate:
  assumes "uheap_inv h v" and "sz \<noteq> 0" and "4096 dvd unat sz" and "sz \<le> uheap_start v - uheap_limit v"
  obtains h' where "heap_populate (Some uheap_shrink) h v (uheap_start v - sz) sz = Some (h', v)"
    "uheap_inv h' (uheap_resize v sz)" "free_memory h \<subseteq> free_memory h'"
    "in_use h' (uheap_resize v sz) = in_use h v"
    "uheap_room h' (uheap_resize v sz) < uheap_room h v"
proof -
  have ne: "uheap_limit v \<noteq> uheap_end v"
    using assms(1,2,4) by (auto simp: uheap_inv_def)
  note i = uheap_inv_init [OF assms(1) ne]
  let ?new = "uheap_start v - sz"
  have le: "unat sz \<le> unat (uheap_start v) - unat (uheap_limit v)"
    using assms(4) i(5) by (simp add: word_le_nat_alt unat_sub)
  have new: "unat ?new = unat (uheap_start v) - unat sz" "unat (uheap_limit v) \<le> unat ?new"
    "0 < unat sz"
    using le i(5) assms(2) by (simp_all add: unat_sub word_le_nat_alt unat_gt_0)
  have al: "page_aligned ?new" using i(9) assms(3) unfolding page_aligned_def new(1) by (rule dvd_diff_nat)
  have len: "unat ?new + unat sz = unat (uheap_start v)" using new(1) le by linarith
  then have lim: "unat ?new + unat sz \<le> heap_limit" using i(6,7) by linarith
  have ex: "free_start h ?new = ?new" "free_actual_size h ?new sz = sz"
    using free_exact [OF i(2) _ _ _ lim] al assms(3) by (simp_all add: page_aligned_def)
  have blk: "block_memory h ?new sz = {unat ?new..<unat (uheap_start v)}"
    by (simp only: block_memory_def ex len)
  have "block_memory h ?new sz \<inter> free_memory h = {}" using i(11) unfolding blk by auto
  then have fr: "freeable h ?new sz" using new i(4) lim by (simp add: freeable_def ex)
  from heap_free_merge [OF i(1) fr, unfolded ex] obtain bs fa fs where m:
    "free_merge sz (?new, sz) (blocks h) = Some (bs, (fa, fs))" "heap_inv (h\<lparr>blocks := bs\<rparr>)"
    "cover (nat_blocks bs) = free_memory h \<union> block_memory h ?new sz"
    "block_memory h ?new sz \<subseteq> {unat fa..<unat fa + unat fs}" by metis
  have "unat ?new \<in> block_memory h ?new sz" using new le i(5) unfolding blk by simp
  then have "unat fa \<le> unat ?new" using m(4) by auto
  then have fa: "fa \<noteq> uheap_start v" using new le i(5) by auto
  let ?h' = "h\<lparr>blocks := bs, freemem := freemem h + sz\<rparr>"
  have "?new \<noteq> 0" using new(2) i(4) by auto
  then have p: "heap_populate (Some uheap_shrink) h v ?new sz = Some (?h', v)"
    using m(1) fa ex by (simp add: heap_populate_def heap_free_block_def uheap_shrink_def Let_def)
  have free': "free_memory ?h' = free_memory h \<union> {unat ?new..<unat (uheap_start v)}"
    using m(3) blk by (simp add: free_memory_def)
  have new_le: "unat ?new \<le> unat (uheap_start v)" using new(1) by simp
  have "{unat ?new..<unat (uheap_end v)} =
      {unat ?new..<unat (uheap_start v)} \<union> {unat (uheap_start v)..<unat (uheap_end v)}"
    using new_le i(6) by (simp add: ivl_disj_un)
  then have sub: "free_memory ?h' \<subseteq> {unat ?new..<unat (uheap_end v)}"
    and use: "in_use ?h' (uheap_resize v sz) = in_use h v"
    using i(11) unfolding in_use_def free' by auto
  have "uheap_inv ?h' (uheap_resize v sz)"
    using m(2) ne i new new_le al sub unfolding uheap_inv_def by (auto simp: heap_inv_def)
  moreover have "uheap_room ?h' (uheap_resize v sz) < uheap_room h v"
    using ne new le i(5) by (simp add: uheap_room_def)
  ultimately show thesis using that [OF p] use free' by blast
qed

lemma uheap_grow_correct:
  assumes "good_map describe" and "uheap_inv h v" and "sz \<noteq> 0" and "4096 dvd unat sz"
  obtains h' v' g where "uheap_grow describe h v sz = Some ((h', v'), g)" "uheap_inv h' v'"
    "free_memory h \<subseteq> free_memory h'" "in_use h' v' = in_use h v"
    "g \<noteq> 0 \<Longrightarrow> uheap_room h' v' < uheap_room h v"
proof -
  obtain v1 where v1: "(if uheap_limit v = uheap_end v then uheap_find describe v else Some v) = Some v1"
    "uheap_inv h v1" "in_use h v1 = in_use h v" "uheap_room h v1 \<le> uheap_room h v"
  proof (cases "uheap_limit v = uheap_end v")
    case True
    obtain v' where "uheap_find describe v = Some v'" "uheap_inv h v'" "in_use h v' = in_use h v"
      using uheap_find_inv [OF assms(1,2) True] by blast
    moreover have "uheap_room h v' \<le> uheap_room h v"
      using True unat_u64_less [of "uheap_start v'"] by (auto simp: uheap_room_def)
    ultimately show thesis using that True by simp
  next
    case False
    then show thesis using that assms(2) by simp
  qed
  note grow = uheap_grow_def [of describe h v sz, unfolded v1(1) option.case]
  show thesis
  proof (cases "sz > uheap_start v1 - uheap_limit v1")
    case True
    then show thesis using that [of h v1 0] v1 grow by simp
  next
    case False
    then have "sz \<le> uheap_start v1 - uheap_limit v1" by simp
    from uheap_populate [OF v1(2) assms(3,4) this] obtain h' where
      "heap_populate (Some uheap_shrink) h v1 (uheap_start v1 - sz) sz = Some (h', v1)"
      "uheap_inv h' (uheap_resize v1 sz)" "free_memory h \<subseteq> free_memory h'"
      "in_use h' (uheap_resize v1 sz) = in_use h v1"
      "uheap_room h' (uheap_resize v1 sz) < uheap_room h v1" by blast
    then show thesis
      using that [of h' "uheap_resize v1 sz" 1] v1(3,4) grow False by simp
  qed
qed

text \<open>
  The external heap is a growable heap, for every good memory map and for every set of bytes
  that is in use: growing never touches what is allocated.
\<close>

definition uheap_owner :: "memory_map \<Rightarrow> nat set \<Rightarrow> heap \<Rightarrow> uheap_vars \<Rightarrow> bool" where
  "uheap_owner describe U h v \<longleftrightarrow> good_map describe \<and> uheap_inv h v \<and> in_use h v = U"

interpretation ext: growable_heap "uheap_grow describe" "uheap_owner describe U" uheap_room
  for describe U
proof
  fix h :: heap and v :: uheap_vars and n :: u64
  assume o: "uheap_owner describe U h v" and n: "n \<noteq> 0" "unat (align h) dvd unat n"
  have "align h = 4096" using o by (simp add: uheap_owner_def uheap_inv_def)
  then obtain h1 v1 g1 where g: "uheap_grow describe h v n = Some ((h1, v1), g1)" "uheap_inv h1 v1"
    "free_memory h \<subseteq> free_memory h1" "in_use h1 v1 = in_use h v"
    "g1 \<noteq> 0 \<Longrightarrow> uheap_room h1 v1 < uheap_room h v"
    using uheap_grow_correct [of describe h v n] o n by (auto simp: uheap_owner_def)
  then show "uheap_grow describe h v n \<noteq> None" by simp
  fix h' :: heap and v' :: uheap_vars and g :: u32
  assume "uheap_grow describe h v n = Some ((h', v'), g)"
  with g have eq: "h' = h1" "v' = v1" "g = g1" by simp_all
  show "uheap_owner describe U h' v' \<and> align h' = align h \<and> free_memory h \<subseteq> free_memory h'"
    using g o eq by (simp add: uheap_owner_def uheap_inv_def)
  show "g \<noteq> 0 \<Longrightarrow> uheap_room h' v' < uheap_room h v" using g eq by simp
qed (simp add: uheap_owner_def uheap_inv_def)

section \<open>Allocating\<close>

text \<open>Allocation keeps the invariant and adds exactly the block to what is in use.\<close>

lemma uheap_alloc_inv:
  assumes "uheap_inv h v" and "j < 64" and "0 < unat sz" and "unat sz \<le> 2 ^ 63"
    and "heap_alloc_try h sz (2 ^ j) off = Some (h', p)"
  shows "uheap_inv h' v" and "in_use h' v = in_use h v \<union> block_memory h p sz"
    and "in_use h v \<inter> block_memory h p sz = {}"
proof -
  have "heap_inv h" using assms(1) by (simp add: uheap_inv_def)
  note a = heap_alloc_try_sound [OF this assms(2-5)]
  have "ptr_align h' = ptr_align h"
    using assms(5) by (auto simp: heap_alloc_try_def Let_def split: option.splits prod.splits)
  have "block_memory h p sz \<noteq> {}" using a assms(3) by auto
  then have ne: "uheap_limit v \<noteq> uheap_end v"
    using assms(1) a by (auto simp: uheap_inv_def free_memory_def)
  note i = uheap_inv_init [OF assms(1) ne]
  have free': "free_memory h' = free_memory h - block_memory h p sz" "block_memory h p sz \<subseteq> free_memory h"
    using a by blast+
  show "uheap_inv h' v"
    using assms(1) ne a free' i(11) \<open>ptr_align h' = ptr_align h\<close> unfolding uheap_inv_def by auto
  show "in_use h' v = in_use h v \<union> block_memory h p sz"
    using free' i(11) unfolding in_use_def by blast
  show "in_use h v \<inter> block_memory h p sz = {}"
    using free'(2) unfolding in_use_def by blast
qed

lemma uheap_realloc_fresh:
  assumes "heap_alloc_block (Some (uheap_grow describe)) h v (n + 8) (ptr_align h) (- 8) = Some ((h', v'), b)"
    and "n \<noteq> 0" and "\<not> n + 8 < n"
  shows "uheap_realloc describe h v mem 0 n =
    (if b = 0 then Some ((h', v', mem), 0) else Some ((h', v', store_size mem b (n + 8)), b + 8))"
  using assms by (simp add: uheap_realloc_def heap_realloc_def Let_def sizeof_autosized_def)

lemma store_header:
  assumes "freeable h b nt" and "{unat b..<unat b + unat nt} \<subseteq> block_memory h b nt" and "8 < unat nt"
  shows "load_size (store_size mem b nt) b = nt" and "b + 8 \<noteq> 0"
    and "unat q \<notin> block_memory h b nt \<Longrightarrow> store_size mem b nt q = mem q"
proof -
  have lim: "unat b + unat nt \<le> heap_limit" using freeable_no_wrap [OF assms(1,2)] assms(3) by simp
  show "load_size (store_size mem b nt) b = nt"
    by (simp add: load_size_def store_size_def load_store_le take_bit_word_eq_self)
  have "unat (b + 8) = unat b + 8"
    using lim assms(3) by (subst unat_add_no_wrap) (simp_all add: heap_limit_def)
  then show "b + 8 \<noteq> 0" by auto
  have "no_wrap b 8" using lim assms(3) by (simp add: no_wrap_def heap_limit_def)
  then show "unat q \<notin> block_memory h b nt \<Longrightarrow> store_size mem b nt q = mem q"
    unfolding store_size_def using subsetD [OF assms(2), of "unat q"] assms(3)
    by (intro store_le_other) (auto simp: in_region_iff)
qed


section \<open>Freeing\<close>

lemma nat_blocks_remove1: "nat_blocks (remove1 (a, n) bs) = remove1 (unat a, unat n) (nat_blocks bs)"
  by (induction bs) (auto simp: nat_blocks_def dest: unsigned_word_eqI)

lemma freeable_within:
  assumes "block_memory h p tot \<subseteq> {lo..<hi}" and "block_memory h p tot \<noteq> {}" and "0 < lo" and "hi \<le> heap_limit"
    and "block_memory h p tot \<inter> free_memory h = {}"
  shows "freeable h p tot"
proof -
  let ?f = "unat (free_start h p)" and ?n = "unat (free_actual_size h p tot)"
  have n: "0 < ?n" using assms(2) by (simp add: block_memory_def)
  then have "?f \<in> block_memory h p tot" "?f + ?n - 1 \<in> block_memory h p tot" by (auto simp: block_memory_def)
  then have "lo \<le> ?f" "?f + ?n - 1 < hi" using assms(1) by auto
  then show ?thesis using assms(3-5) n by (simp add: freeable_def)
qed

text \<open>Unlinking the lowest block and moving the start of the heap above it.\<close>

lemma uheap_unlink:
  assumes "uheap_inv h v" and "uheap_limit v \<noteq> uheap_end v" and "heap_inv (h\<lparr>blocks := bs\<rparr>)"
    and "cover (nat_blocks bs) \<subseteq> {unat (uheap_start v)..<unat (uheap_end v)}"
    and "(uheap_start v, fs) \<in> set bs"
  shows "uheap_inv (h\<lparr>blocks := remove1 (uheap_start v, fs) bs, freemem := fm, usedmem := um\<rparr>) (uheap_resize v (- fs))"
    and "in_use (h\<lparr>blocks := remove1 (uheap_start v, fs) bs, freemem := fm, usedmem := um\<rparr>) (uheap_resize v (- fs))
      = {unat (uheap_start v)..<unat (uheap_end v)} - cover (nat_blocks bs)"
proof -
  let ?h = "h\<lparr>blocks := remove1 (uheap_start v, fs) bs, freemem := fm, usedmem := um\<rparr>"
  let ?st = "unat (uheap_start v)"
  note i = uheap_inv_init [OF assms(1,2)]
  have cov: "{?st..<?st + unat fs} \<subseteq> cover (nat_blocks bs)"
    using assms(5) by (auto simp: cover_def cover1_def nat_blocks_mem [symmetric])
  have wf: "wf_free heap_limit 4096 0 (nat_blocks bs)" using assms(3) i(2) by (simp add: heap_inv_def)
  have fs: "4096 dvd unat fs" "0 < unat fs"
    using wf_free_length [OF wf] assms(5) by (auto simp: nat_blocks_mem [symmetric])
  have "?st + unat fs - 1 \<in> cover (nat_blocks bs)" using fs(2) by (intro subsetD [OF cov]) simp
  from subsetD [OF assms(4) this] have "?st + unat fs - 1 < unat (uheap_end v)" by simp
  then have le: "?st + unat fs \<le> unat (uheap_end v)" using fs(2) by linarith
  then have st: "unat (uheap_start v + fs) = ?st + unat fs"
    using i(7) by (intro unat_add_no_wrap) (simp add: heap_limit_def)
  have rm: "wf_free heap_limit 4096 0 (nat_blocks (remove1 (uheap_start v, fs) bs))"
    "free_memory ?h = cover (nat_blocks bs) - {?st..<?st + unat fs}"
    using wf_free_remove1 [OF wf, of ?st "unat fs"] assms(5)
    by (simp_all add: nat_blocks_mem nat_blocks_remove1 free_memory_def)
  have split: "{?st..<unat (uheap_end v)} =
      {?st..<unat (uheap_start v + fs)} \<union> {unat (uheap_start v + fs)..<unat (uheap_end v)}"
    using le by (simp add: st ivl_disj_un)
  have sub': "free_memory ?h \<subseteq> {unat (uheap_start v + fs)..<unat (uheap_end v)}"
    using assms(4) unfolding rm(2) split st by blast
  have "page_aligned (uheap_start v + fs)" using i(9) fs(1) unfolding page_aligned_def st by (rule dvd_add)
  then show "uheap_inv ?h (uheap_resize v (- fs))"
    using i assms(2,3) le rm(1) sub' unfolding uheap_inv_def by (auto simp: heap_inv_def st)
  show "in_use ?h (uheap_resize v (- fs)) = {?st..<unat (uheap_end v)} - cover (nat_blocks bs)"
    using cov unfolding in_use_def rm(2) split by (auto simp: st)
qed

text \<open>
  Freeing a block that is in use: the merged block either stays in the free list or, when it is
  the lowest of the heap, leaves the heap altogether.
\<close>

lemma uheap_free_inv:
  assumes "uheap_inv h v" and "p \<noteq> 0" and "block_memory h p tot \<subseteq> in_use h v" and "block_memory h p tot \<noteq> {}"
  shows "\<exists>h' v'. heap_free_block (Some uheap_shrink) h v p tot = Some (h', v') \<and> uheap_inv h' v'
    \<and> in_use h' v' = in_use h v - block_memory h p tot"
proof -
  let ?B = "block_memory h p tot" and ?n = "free_actual_size h p tot"
  have ne: "uheap_limit v \<noteq> uheap_end v" using assms(1,3,4) by (auto simp: uheap_inv_def in_use_def)
  note i = uheap_inv_init [OF assms(1) ne]
  have B: "?B \<subseteq> {unat (uheap_start v)..<unat (uheap_end v)}" "?B \<inter> free_memory h = {}"
    using assms(3) by (auto simp: in_use_def)
  have fr: "freeable h p tot"
    using freeable_within [OF _ assms(4), of "unat (uheap_start v)" "unat (uheap_end v)"] B i(4,5,7) by simp
  from heap_free_merge [OF i(1) fr] obtain bs fa fs where m:
    "free_merge ?n (free_start h p, ?n) (blocks h) = Some (bs, (fa, fs))" "heap_inv (h\<lparr>blocks := bs\<rparr>)"
    "cover (nat_blocks bs) = free_memory h \<union> ?B" "(fa, fs) \<in> set bs" by metis
  let ?h1 = "h\<lparr>blocks := bs, freemem := freemem h + ?n, usedmem := usedmem h - ?n\<rparr>"
  let ?h2 = "h\<lparr>blocks := remove1 (fa, fs) bs, freemem := freemem h + ?n - fs, usedmem := usedmem h - ?n\<rparr>"
  have f: "heap_free_block (Some uheap_shrink) h v p tot =
      (if fa \<noteq> uheap_start v then Some (?h1, v) else Some (?h2, uheap_resize v (- fs)))"
    using assms(2) m(1) by (simp add: heap_free_block_def uheap_shrink_def Let_def)
  have sub: "cover (nat_blocks bs) \<subseteq> {unat (uheap_start v)..<unat (uheap_end v)}" using m(3) B i(11) by simp
  show ?thesis
  proof (cases "fa = uheap_start v")
    case False
    have "uheap_inv ?h1 v" using assms(1) ne m(2) sub by (simp add: uheap_inv_def heap_inv_def free_memory_def)
    moreover have "in_use ?h1 v = in_use h v - ?B" using m(3) by (auto simp: in_use_def free_memory_def)
    ultimately show ?thesis using f False by simp
  next
    case True
    note u = uheap_unlink [OF assms(1) ne m(2) sub m(4) [unfolded True], folded True]
    have "in_use h v - ?B = {unat (uheap_start v)..<unat (uheap_end v)} - cover (nat_blocks bs)"
      using m(3) by (auto simp: in_use_def)
    then show ?thesis using f True u by simp
  qed
qed


section \<open>Concrete instances\<close>

text \<open>A machine with one megabyte of memory at the first megabyte, and an external heap of two pages.\<close>

definition one_megabyte :: memory_map where
  "one_megabyte u a = describe_known [(0x100000, 0x100000, MEMMAP_FL_MEMORY, None)] a"

definition two_pages :: uheap_vars where
  "two_pages = \<lparr>uheap_limit = 0x1000, uheap_start = 0x2000, uheap_end = 0x4000,
     uheap_used = \<lparr>used_name = ''uheap'', used_start = 0x2000, used_size = 0x2000\<rparr>\<rparr>"

lemma one_megabyte_good: "good_map one_megabyte"
proof -
  have "a \<noteq> 0 \<and> unat (region_max (one_megabyte u a)) < heap_limit" if "memmap_is_usable (one_megabyte u a)" for u a
  proof -
    have "flags_at [(0x100000, 0x100000, MEMMAP_FL_MEMORY, None)] a = MEMMAP_FL_MEMORY"
      using that by (simp add: one_megabyte_def memmap_is_usable_def describe_known_flags)
    then have a: "0x100000 \<le> a" "a \<le> 0x1fffff"
      by (auto simp: flags_at_def covers_def known_max_def MEMMAP_FL_MEMORY_def split: if_splits)
    then have "region_max (one_megabyte u a) = 0x1fffff"
      by (auto simp: one_megabyte_def describe_known_def update_known_def memmap_update_def memmap_init_def
          known_max_def Let_def not_less)
    with a show ?thesis by (auto simp: heap_limit_def)
  qed
  then show ?thesis by (simp add: good_map_def) (simp add: one_megabyte_def describe_known_range)
qed

lemma uheap_empty_inv: "heap_inv uheap"
  unfolding heap_inv_def by (intro conjI exI [of _ 12]) (simp_all add: uheap_def UHEAP_ALIGN_def)

lemma uheap_initial: "uheap_inv uheap initial_uheap_vars"
  using uheap_empty_inv by (simp add: uheap_inv_def uheap_def UHEAP_ALIGN_def initial_uheap_vars_def)

lemma uheap_two_pages: "uheap_inv uheap two_pages"
  using uheap_empty_inv
  by (simp add: uheap_inv_def two_pages_def uheap_def UHEAP_ALIGN_def free_memory_def page_aligned_def heap_limit_def)



end
