(* ===== verification/CString.thy ===== *)
theory CString
  imports Memory
begin

text \<open>
  The string functions of \<open>core/string.c\<close>, \<open>core/stringextra.c\<close> and \<open>core/basename.c\<close> and the
  character classes of \<open>core/ctype.c\<close> and \<open>include/ctype.h\<close>. A string that is only read is the
  list of its bytes before the terminating NUL, so that reading at its end gives zero; the
  functions that write strings work on the explicit memory.
\<close>

section \<open>Reading strings\<close>

text \<open>The bytes of a string literal, and the byte a pointer to a string reads.\<close>

definition str :: "string \<Rightarrow> bytes" where
  "str s = map of_char s"

definition chd :: "bytes \<Rightarrow> u8" where
  "chd s = (case s of [] \<Rightarrow> 0 | c # cs \<Rightarrow> c)"

lemma chd_simps [simp]: "chd [] = 0" "chd (c # cs) = c"
  by (simp_all add: chd_def)

definition nul_free :: "bytes \<Rightarrow> bool" where
  "nul_free s \<longleftrightarrow> 0 \<notin> set s"

lemma nul_free_simps [simp]: "nul_free []" "nul_free (c # cs) \<longleftrightarrow> c \<noteq> 0 \<and> nul_free cs"
  "nul_free (s @ t) \<longleftrightarrow> nul_free s \<and> nul_free t"
  by (auto simp: nul_free_def)

section \<open>Character classes\<close>

definition isascii :: "int \<Rightarrow> bool" where
  "isascii character \<longleftrightarrow> character \<le> 0x7f"

definition isdigit :: "int \<Rightarrow> bool" where
  "isdigit character \<longleftrightarrow> character \<ge> 0x30 \<and> character \<le> 0x39"

definition isxdigit :: "int \<Rightarrow> bool" where
  "isxdigit character \<longleftrightarrow> (character \<ge> 0x30 \<and> character \<le> 0x39)
     \<or> (character \<ge> 0x41 \<and> character \<le> 0x46) \<or> (character \<ge> 0x61 \<and> character \<le> 0x66)"

definition isupper :: "int \<Rightarrow> bool" where
  "isupper character \<longleftrightarrow> character \<ge> 0x41 \<and> character \<le> 0x5a"

definition islower :: "int \<Rightarrow> bool" where
  "islower character \<longleftrightarrow> character \<ge> 0x61 \<and> character \<le> 0x7a"

definition isalpha :: "int \<Rightarrow> bool" where
  "isalpha character \<longleftrightarrow> isupper character \<or> islower character"

definition isalnum :: "int \<Rightarrow> bool" where
  "isalnum character \<longleftrightarrow> isalpha character \<or> isdigit character"

definition isprint :: "int \<Rightarrow> bool" where
  "isprint character \<longleftrightarrow> character \<ge> 0x20 \<and> character \<le> 0x7e"

definition tolower :: "int \<Rightarrow> int" where
  "tolower character = (if isupper character then character - 0x41 + 0x61 else character)"

definition toupper :: "int \<Rightarrow> int" where
  "toupper character = (if islower character then character - 0x61 + 0x41 else character)"

definition isspace :: "int \<Rightarrow> bool" where
  "isspace character \<longleftrightarrow> character \<in> {0x20, 0x0c, 0x0a, 0x0d, 0x09, 0x0b}"

section \<open>Comparing and searching\<close>

function strncmp :: "bytes \<Rightarrow> bytes \<Rightarrow> nat \<Rightarrow> int" where
  "strncmp first second mx =
     (if mx = 0 then 0
      else let diff = uint (chd first) - uint (chd second)
           in if diff \<noteq> 0 then diff
              else if chd first = 0 then 0
              else strncmp (tl first) (tl second) (mx - 1))"
  by pat_completeness auto
termination by (relation "measure (\<lambda>(s, t, n). n)") auto

definition strcmp :: "bytes \<Rightarrow> bytes \<Rightarrow> int" where
  "strcmp first second = strncmp first second (2 ^ 64 - 1)"

function strncasecmp :: "bytes \<Rightarrow> bytes \<Rightarrow> nat \<Rightarrow> int" where
  "strncasecmp first second mx =
     (if mx = 0 then 0
      else let diff = toupper (uint (chd first)) - toupper (uint (chd second))
           in if diff \<noteq> 0 then diff
              else if chd first = 0 then 0
              else strncasecmp (tl first) (tl second) (mx - 1))"
  by pat_completeness auto
termination by (relation "measure (\<lambda>(s, t, n). n)") auto

definition strcasecmp :: "bytes \<Rightarrow> bytes \<Rightarrow> int" where
  "strcasecmp first second = strncasecmp first second (2 ^ 64 - 1)"

declare strncmp.simps [simp del] strncasecmp.simps [simp del]

text \<open>A pointer into a string is the string from there on; NULL is \<open>None\<close>.\<close>

fun strchr :: "bytes \<Rightarrow> int \<Rightarrow> bytes option" where
  "strchr [] character = (if character = 0 then Some [] else None)"
| "strchr (c # cs) character = (if uint c = character then Some (c # cs) else strchr cs character)"

text \<open>The search from the end never looks at the terminating NUL.\<close>

fun strrchr :: "bytes \<Rightarrow> int \<Rightarrow> bytes option" where
  "strrchr [] character = None"
| "strrchr (c # cs) character =
     (case strrchr cs character of
        Some s \<Rightarrow> Some s
      | None \<Rightarrow> if uint c = character then Some (c # cs) else None)"

text \<open>
  The comparison stops at the first difference, at the latest where the haystack ends, so it
  never reads beyond the terminating NUL.
\<close>

fun prefix_at :: "bytes \<Rightarrow> bytes \<Rightarrow> bool" where
  "prefix_at s [] = True"
| "prefix_at s (n # ns) = (chd s = n \<and> prefix_at (tl s) ns)"

fun strstr :: "bytes \<Rightarrow> bytes \<Rightarrow> bytes option" where
  "strstr [] needle = None"
| "strstr (c # cs) needle = (if prefix_at (c # cs) needle then Some (c # cs) else strstr cs needle)"

fun strpbrk :: "bytes \<Rightarrow> bytes \<Rightarrow> bytes option" where
  "strpbrk [] ct = None"
| "strpbrk (c # cs) ct = (if c \<in> set ct then Some (c # cs) else strpbrk cs ct)"

text \<open>The token, and what is left of the string after the separator.\<close>

definition strsep :: "bytes option \<Rightarrow> bytes \<Rightarrow> (bytes \<times> bytes option) option" where
  "strsep s ct =
     (case s of
        None \<Rightarrow> None
      | Some sbegin \<Rightarrow>
          (case strpbrk sbegin ct of
             None \<Rightarrow> Some (sbegin, None)
           | Some e \<Rightarrow> Some (take (length sbegin - length e) sbegin, Some (tl e))))"

definition basename :: "bytes \<Rightarrow> bytes" where
  "basename path = (case strrchr path 0x2f of None \<Rightarrow> path | Some s \<Rightarrow> tl s)"

definition dirname :: "bytes \<Rightarrow> bytes" where
  "dirname path =
     (case strrchr path 0x2f of
        None \<Rightarrow> str ''.''
      | Some s \<Rightarrow> if s = path then str ''/'' else take (length path - length s) path)"

section \<open>Numbers\<close>

definition digit_value :: "u32 \<Rightarrow> u32" where
  "digit_value character =
     (if character \<ge> 0x61 then character - (0x61 - 10)
      else if character \<ge> 0x41 then character - (0x41 - 10)
      else if character \<le> 0x39 then character - 0x30
      else character)"

text \<open>A \<open>char\<close> is signed, so it is extended with its sign when it becomes an \<open>unsigned int\<close>.\<close>

definition char_to_uint :: "u8 \<Rightarrow> u32" where
  "char_to_uint c = scast c"

fun skip_spaces :: "bytes \<Rightarrow> bytes" where
  "skip_spaces [] = []"
| "skip_spaces (c # cs) = (if isspace (sint c) then skip_spaces cs else c # cs)"

definition strtoul_pre :: "bytes \<Rightarrow> nat \<Rightarrow> bytes \<times> bool \<times> nat" where
  "strtoul_pre string base =
     (let string = skip_spaces string;
          negate = (chd string = 0x2d);
          string = (if negate \<or> chd string = 0x2b then tl string else string)
      in if base = 0 then
           (if chd string = 0x30 then
              (if chd (tl string) AND NOT 0x20 = 0x58 then (tl (tl string), negate, 16)
               else (tl string, negate, 8))
            else (string, negate, 10))
         else (string, negate, base))"

fun strtoul_digits :: "nat \<Rightarrow> u64 \<Rightarrow> bytes \<Rightarrow> u64 \<times> bytes" where
  "strtoul_digits base value [] = (value, [])"
| "strtoul_digits base value (c # cs) =
     (let digit = digit_value (char_to_uint c)
      in if digit \<ge> of_nat base then (value, c # cs)
         else strtoul_digits base (value * of_nat base + ucast digit) cs)"

text \<open>The value and the rest of the string, for a base that fits an \<open>int\<close>.\<close>

definition strtoul :: "bytes \<Rightarrow> nat \<Rightarrow> u64 \<times> bytes" where
  "strtoul string base =
     (case strtoul_pre string base of (string, negate, base) \<Rightarrow>
        (case strtoul_digits base 0 string of (value, rest) \<Rightarrow>
           (if negate then - value else value, rest)))"

definition strtoull :: "bytes \<Rightarrow> nat \<Rightarrow> u64 \<times> bytes" where
  "strtoull string base =
     (case strtoul_pre string base of (string, negate, base) \<Rightarrow>
        (case strtoul_digits base 0 string of (value, rest) \<Rightarrow>
           (if negate then - value else value, rest)))"

section \<open>Strings in memory\<close>

fun strnlen :: "memory \<Rightarrow> u64 \<Rightarrow> nat \<Rightarrow> u64" where
  "strnlen mem src 0 = 0"
| "strnlen mem src (Suc mx) = (if mem src \<noteq> 0 then 1 + strnlen mem (src + 1) mx else 0)"

definition strlen :: "memory \<Rightarrow> u64 \<Rightarrow> u64" where
  "strlen mem src = strnlen mem src (2 ^ 64 - 1)"

text \<open>
  The copy loops until it has copied a NUL, which it need not find when source and destination
  overlap.
\<close>

partial_function (option) stpcpy :: "memory \<Rightarrow> u64 \<Rightarrow> u64 \<Rightarrow> (memory \<times> u64) option" where
  "stpcpy mem dest src =
     (let mem = mem(dest := mem src)
      in if mem dest = 0 then Some (mem, dest) else stpcpy mem (dest + 1) (src + 1))"

definition strcpy :: "memory \<Rightarrow> u64 \<Rightarrow> u64 \<Rightarrow> memory option" where
  "strcpy mem dest src = map_option fst (stpcpy mem dest src)"

fun strncpy :: "memory \<Rightarrow> u64 \<Rightarrow> u64 \<Rightarrow> nat \<Rightarrow> memory" where
  "strncpy mem dest src 0 = mem"
| "strncpy mem dest src (Suc mx) =
     (let mem = mem(dest := mem src)
      in if mem dest = 0 then generic_memset mem dest 0 (Suc mx)
         else strncpy mem (dest + 1) (src + 1) mx)"

definition strcat :: "memory \<Rightarrow> u64 \<Rightarrow> u64 \<Rightarrow> memory option" where
  "strcat mem dest src = strcpy mem (dest + strlen mem dest) src"

text \<open>A NUL-terminated string at an address, and its bytes with the terminator.\<close>

fun cstring :: "memory \<Rightarrow> u64 \<Rightarrow> bytes \<Rightarrow> bool" where
  "cstring mem p [] \<longleftrightarrow> mem p = 0"
| "cstring mem p (c # cs) \<longleftrightarrow> mem p = c \<and> c \<noteq> 0 \<and> cstring mem (p + 1) cs"

lemma cstring_cong:
  assumes "\<And>q. in_region p (Suc (length s)) q \<Longrightarrow> mem' q = mem q"
  shows "cstring mem' p s \<longleftrightarrow> cstring mem p s"
  using assms
proof (induction s arbitrary: p)
  case (Cons c s)
  have "cstring mem' (p + 1) s \<longleftrightarrow> cstring mem (p + 1) s"
    by (rule Cons.IH) (use Cons.prems in \<open>auto simp: in_region_Suc [of p]\<close>)
  then show ?case using Cons.prems [of p] by (simp add: in_region_Suc)
qed (simp add: in_region_Suc)

lemma strnlen_cstring: "cstring mem p s \<Longrightarrow> length s \<le> mx \<Longrightarrow> strnlen mem p mx = of_nat (length s)"
proof (induction s arbitrary: p mx)
  case Nil
  then show ?case by (cases mx) auto
next
  case (Cons c s)
  then show ?case by (cases mx) auto
qed

lemma cstring_append:
  "cstring mem p (s @ t) \<longleftrightarrow> nul_free s \<and> region mem p (length s) = s \<and> cstring mem (p + of_nat (length s)) t"
proof (induction s arbitrary: p)
  case Nil
  then show ?case by (simp add: region_def)
next
  case (Cons c s)
  then show ?case by (auto simp: region_Suc add.assoc)
qed

lemma stpcpy_cstring:
  assumes "cstring mem src s" and "no_wrap src (Suc (length s))" and "no_wrap dest (Suc (length s))"
    and "\<And>q. \<not> (in_region src (Suc (length s)) q \<and> in_region dest (Suc (length s)) q)"
  shows "\<exists>mem'. stpcpy mem dest src = Some (mem', dest + of_nat (length s)) \<and> cstring mem' dest s
    \<and> (\<forall>q. \<not> in_region dest (Suc (length s)) q \<longrightarrow> mem' q = mem q)"
  using assms
proof (induction s arbitrary: mem dest src)
  case Nil
  then show ?case by (subst stpcpy.simps) (auto simp: in_region_Suc)
next
  case (Cons c s)
  let ?mem = "mem(dest := mem src)"
  have nw: "no_wrap (src + 1) (Suc (length s))" "no_wrap (dest + 1) (Suc (length s))"
    using Cons.prems(2,3) no_wrap_add [of src "Suc (Suc (length s))" 1]
      no_wrap_add [of dest "Suc (Suc (length s))" 1] by (auto simp: no_wrap_def)
  have dis: "\<not> (in_region (src + 1) (Suc (length s)) q \<and> in_region (dest + 1) (Suc (length s)) q)" for q
    using Cons.prems(4) [of q] by (auto simp: in_region_Suc [of _ "Suc (length s)"])
  have nd: "\<not> in_region (dest + 1) (Suc (length s)) dest"
    using nw(2) Cons.prems(3) no_wrap_add [of dest "Suc (Suc (length s))" 1] by (auto simp: in_region_iff)
  have "\<not> in_region (src + 1) (Suc (length s)) dest"
    using Cons.prems(4) [of dest] by (auto simp: in_region_Suc [of _ "Suc (length s)"])
  then have "cstring ?mem (src + 1) s"
    using Cons.prems(1) by (subst cstring_cong [where mem = mem]) auto
  from Cons.IH [OF this nw dis] obtain mem' where m:
    "stpcpy ?mem (dest + 1) (src + 1) = Some (mem', dest + 1 + of_nat (length s))" "cstring mem' (dest + 1) s"
    "\<forall>q. \<not> in_region (dest + 1) (Suc (length s)) q \<longrightarrow> mem' q = ?mem q" by blast
  have "stpcpy mem dest src = Some (mem', dest + of_nat (length (c # s)))"
    using m(1) Cons.prems(1) by (subst stpcpy.simps) (simp add: Let_def add.assoc)
  moreover have "mem' dest = c" using m(3) nd Cons.prems(1) by simp
  ultimately show ?case
    using m(2,3) Cons.prems(1) by (auto simp: in_region_Suc [of _ "Suc (length s)"])
qed

text \<open>
  Claim C34. Concatenation returns, leaves the two strings one after the other at the
  destination, and changes no byte outside the copied string and its terminator.
\<close>

theorem strcat_correct:
  assumes "cstring mem dest d" and "cstring mem src s"
    and "no_wrap dest (Suc (length d + length s))" and "no_wrap src (Suc (length s))"
    and "\<And>q. \<not> (in_region src (Suc (length s)) q \<and> in_region dest (Suc (length d + length s)) q)"
  shows "\<exists>mem'. strcat mem dest src = Some mem' \<and> cstring mem' dest (d @ s)
    \<and> (\<forall>q. \<not> in_region (dest + of_nat (length d)) (Suc (length s)) q \<longrightarrow> mem' q = mem q)"
proof -
  let ?e = "dest + of_nat (length d)"
  have e: "unat ?e = unat dest + length d" using assms(3) by (intro no_wrap_add) auto
  have len: "strlen mem dest = of_nat (length d)"
    unfolding strlen_def using assms(1,3) by (intro strnlen_cstring) (auto simp: no_wrap_def)
  have nw: "no_wrap ?e (Suc (length s))" using assms(3) e by (simp add: no_wrap_def)
  have dis: "\<not> (in_region src (Suc (length s)) q \<and> in_region ?e (Suc (length s)) q)" for q
    using assms(5) [of q] e by (auto simp: in_region_iff [OF assms(3)] in_region_iff [OF nw])
  from stpcpy_cstring [OF assms(2,4) nw dis] obtain mem' where m:
    "stpcpy mem ?e src = Some (mem', ?e + of_nat (length s))" "cstring mem' ?e s"
    "\<forall>q. \<not> in_region ?e (Suc (length s)) q \<longrightarrow> mem' q = mem q" by blast
  have "mem' (dest + of_nat i) = mem (dest + of_nat i)" if "i < length d" for i
  proof -
    have "unat (dest + of_nat i) = unat dest + i" using that by (intro no_wrap_add [OF assms(3)]) auto
    then show ?thesis using m(3) e that by (auto simp: in_region_iff [OF nw])
  qed
  then have "region mem' dest (length d) = region mem dest (length d)" by (simp add: region_def)
  then have "cstring mem' dest (d @ s)"
    using cstring_append [of mem dest d "[]"] assms(1) m(2) by (simp add: cstring_append)
  then show ?thesis using m(1,3) by (simp add: strcat_def strcpy_def len)
qed

theorem strcat_correct_witness:
  "\<exists>mem'. strcat ((\<lambda>q. 0)(16 := 0x61, 32 := 0x62)) 16 32 = Some mem' \<and> cstring mem' 16 [0x61, 0x62]"
proof -
  let ?mem = "(\<lambda>q. 0)(16 := 0x61, 32 := 0x62) :: memory"
  have "cstring ?mem 16 [0x61]" "cstring ?mem 32 [0x62]" by simp_all
  moreover have nw: "no_wrap 16 (Suc (length [0x61 :: u8] + length [0x62 :: u8]))" "no_wrap 32 (Suc (length [0x62 :: u8]))"
    by (simp_all add: no_wrap_def)
  moreover have "\<not> (in_region 32 (Suc (length [0x62 :: u8])) q
      \<and> in_region 16 (Suc (length [0x61 :: u8] + length [0x62 :: u8])) q)" for q
    unfolding in_region_iff [OF nw(1)] in_region_iff [OF nw(2)] by simp
  ultimately show ?thesis using strcat_correct [of ?mem 16 "[0x61]" 32 "[0x62]"] by auto
qed

section \<open>Comparison\<close>

text \<open>
  The result of a comparison, for strings shorter than the limit: zero exactly for equal
  strings, and otherwise the difference at the first byte, or terminator, that differs.
\<close>

lemma strncmp_eq_0_iff:
  "nul_free s \<Longrightarrow> nul_free t \<Longrightarrow> length s < n \<Longrightarrow> strncmp s t n = 0 \<longleftrightarrow> s = t"
proof (induction s arbitrary: t n)
  case Nil
  then show ?case by (cases t) (auto simp: strncmp.simps Let_def uint_0_iff)
next
  case (Cons c s)
  then show ?case
    by (cases t) (auto simp: strncmp.simps [of "c # s"] Let_def uint_0_iff simp flip: word_uint_eq_iff)
qed

lemma strncmp_antisym: "strncmp t s n = - strncmp s t n"
  by (induction s t n rule: strncmp.induct)
     (subst (1 2) strncmp.simps, auto simp: Let_def simp flip: word_uint_eq_iff)

lemma strncmp_append:
  "nul_free p \<Longrightarrow> length p \<le> n \<Longrightarrow> strncmp (p @ s) (p @ t) n = strncmp s t (n - length p)"
  by (induction p arbitrary: n) (auto simp: strncmp.simps [of "_ # _"] Let_def)

lemma strcmp_less:
  assumes "nul_free p" and "length p < 2 ^ 64 - 1" and "a < b"
  shows "strcmp (p @ a # s) (p @ b # t) < 0" and "b \<noteq> 0 \<Longrightarrow> strcmp p (p @ b # t) < 0"
proof -
  have n: "2 ^ 64 - 1 - length p \<noteq> 0" "length p \<le> 2 ^ 64 - 1" using assms(2) by simp_all
  then show "strcmp (p @ a # s) (p @ b # t) < 0"
    using assms(1,3) unfolding strcmp_def strncmp_append [OF assms(1) n(2)]
    by (subst strncmp.simps) (auto simp: Let_def word_less_def)
  show "b \<noteq> 0 \<Longrightarrow> strcmp p (p @ b # t) < 0"
    using n strncmp_append [OF assms(1) n(2), of "[]" "b # t"] unfolding strcmp_def
    by (subst (asm) strncmp.simps) (auto simp: Let_def uint_0_iff less_le)
qed

section \<open>Conversion of numbers\<close>

definition digit_char :: "nat \<Rightarrow> u8" where
  "digit_char d = (if d < 10 then 0x30 + of_nat d else 0x57 + of_nat d)"

definition digits_value :: "nat \<Rightarrow> nat list \<Rightarrow> nat" where
  "digits_value base ds = foldl (\<lambda>v d. v * base + d) 0 ds"

lemma digit_value_char: "d < 36 \<Longrightarrow> digit_value (char_to_uint (digit_char d)) = of_nat d"
proof -
  have "\<forall>d \<in> set [0..<36]. digit_value (char_to_uint (digit_char d)) = of_nat d" by code_simp
  then show "d < 36 \<Longrightarrow> ?thesis" by simp
qed

lemma digit_char_plain:
  assumes "d < 36"
  shows "\<not> isspace (sint (digit_char d))" "digit_char d \<noteq> 0x2d" "digit_char d \<noteq> 0x2b"
    "digit_char d = 0x30 \<longleftrightarrow> d = 0" "digit_char d \<noteq> 0"
proof -
  have "\<forall>d \<in> set [0..<36]. \<not> isspace (sint (digit_char d)) \<and> digit_char d \<noteq> 0x2d \<and> digit_char d \<noteq> 0x2b
     \<and> (digit_char d = 0x30 \<longleftrightarrow> d = 0) \<and> digit_char d \<noteq> 0" by code_simp
  with assms show "\<not> isspace (sint (digit_char d))" "digit_char d \<noteq> 0x2d" "digit_char d \<noteq> 0x2b"
    "digit_char d = 0x30 \<longleftrightarrow> d = 0" "digit_char d \<noteq> 0" by simp_all
qed

text \<open>Where a number ends: at the end of the string or at a character that is no digit.\<close>

definition number_ends :: "nat \<Rightarrow> bytes \<Rightarrow> bool" where
  "number_ends base rest \<longleftrightarrow> (case rest of [] \<Rightarrow> True | c # cs \<Rightarrow> digit_value (char_to_uint c) \<ge> of_nat base)"

lemma strtoul_digits_value:
  assumes "\<forall>d \<in> set ds. d < base" and "base \<le> 36" and "number_ends base rest"
  shows "strtoul_digits base v (map digit_char ds @ rest) =
    (foldl (\<lambda>v d. v * of_nat base + of_nat d) v ds, rest)"
  using assms(1)
proof (induction ds arbitrary: v)
  case Nil
  show ?case using assms(3) by (cases rest) (auto simp: number_ends_def Let_def)
next
  case (Cons d ds)
  have d: "d < base" "d < 36" using Cons.prems assms(2) by auto
  then have "\<not> (of_nat base :: u32) \<le> of_nat d"
    using assms(2) by (simp add: word_le_nat_alt unat_of_nat)
  moreover have "ucast (of_nat d :: u32) = (of_nat d :: u64)"
    using d(2) by (simp add: unsigned_of_nat take_bit_nat_eq_self)
  ultimately show ?case using d Cons by (simp add: digit_value_char Let_def)
qed

lemma of_nat_digits_value:
  "(of_nat (foldl (\<lambda>v d. v * base + d) x ds) :: u64) = foldl (\<lambda>v d. v * of_nat base + of_nat d) (of_nat x) ds"
  by (induction ds arbitrary: x) simp_all

lemma skip_spaces_append:
  "\<forall>c \<in> set ws. isspace (sint c) \<Longrightarrow> \<not> isspace (sint (chd s)) \<Longrightarrow> skip_spaces (ws @ s) = s"
  by (induction ws) (cases s; auto)+

lemma strtoul_pre_base:
  assumes "skip_spaces s = t" and "(chd t = 0x2d) = neg"
    and "(if chd t = 0x2d \<or> chd t = 0x2b then tl t else t) = u"
  shows "base \<noteq> 0 \<Longrightarrow> strtoul_pre s base = (u, neg, base)"
    and "chd u \<noteq> 0x30 \<Longrightarrow> strtoul_pre s 0 = (u, neg, 10)"
    and "chd u = 0x30 \<Longrightarrow> chd (tl u) AND NOT 0x20 = 0x58 \<Longrightarrow> strtoul_pre s 0 = (tl (tl u), neg, 16)"
  using assms by (simp_all add: strtoul_pre_def Let_def)

text \<open>
  The ways to write the base: given, or found from the prefix, with a leading digit that is not
  zero for base ten.
\<close>

definition base_prefix :: "nat \<Rightarrow> bytes \<Rightarrow> nat \<Rightarrow> nat list \<Rightarrow> bool" where
  "base_prefix given prefix base ds \<longleftrightarrow>
     (given = base \<and> prefix = [] \<and> base \<noteq> 0)
     \<or> (given = 0 \<and> prefix \<in> {[0x30, 0x78], [0x30, 0x58]} \<and> base = 16)
     \<or> (given = 0 \<and> prefix = [] \<and> base = 10 \<and> hd ds \<noteq> 0)"

lemma strtoul_number:
  assumes "\<forall>c \<in> set ws. isspace (sint c)" and "sign \<in> {[], [0x2d], [0x2b]}"
    and "base_prefix given prefix base ds" and "ds \<noteq> []" and "\<forall>d \<in> set ds. d < base" and "base \<le> 36"
    and "number_ends base rest"
  shows "strtoul (ws @ sign @ prefix @ map digit_char ds @ rest) given =
    ((if sign = [0x2d] then - 1 else 1) * of_nat (digits_value base ds), rest)"
proof -
  let ?num = "prefix @ map digit_char ds @ rest"
  obtain d ds' where ds: "ds = d # ds'" using assms(4) by (cases ds) auto
  then have d: "d < 36" using assms(5,6) by auto
  note plain = digit_char_plain [OF d]
  have "isspace (sint (chd (sign @ ?num))) = False"
    using assms(2,3) plain ds by (auto simp: base_prefix_def isspace_def)
  then have skip: "skip_spaces (ws @ sign @ ?num) = sign @ ?num"
    using assms(1) by (intro skip_spaces_append) simp_all
  have num: "chd ?num \<noteq> 0x2d" "chd ?num \<noteq> 0x2b"
    using assms(3) plain(2,3) ds by (auto simp: base_prefix_def)
  have neg: "chd (sign @ ?num) = 0x2d \<longleftrightarrow> sign = [0x2d]"
    "(if chd (sign @ ?num) = 0x2d \<or> chd (sign @ ?num) = 0x2b then tl (sign @ ?num) else sign @ ?num) = ?num"
    using assms(2) num by auto
  consider "given = base" "prefix = []" "base \<noteq> 0" | "given = 0" "prefix \<in> {[0x30, 0x78], [0x30, 0x58]}" "base = 16"
    | "given = 0" "prefix = []" "base = 10" "d \<noteq> 0"
    using assms(3) ds by (auto simp: base_prefix_def)
  then have "strtoul_pre (ws @ sign @ ?num) given = (map digit_char ds @ rest, sign = [0x2d], base)"
  proof cases
    case 1
    then show ?thesis using strtoul_pre_base(1) [OF skip neg] by simp
  next
    case 2
    then show ?thesis using strtoul_pre_base(3) [OF skip neg] by auto
  next
    case 3
    then show ?thesis using strtoul_pre_base(2) [OF skip neg] plain(4) ds by simp
  qed
  moreover have "strtoul_digits base 0 (map digit_char ds @ rest) = (of_nat (digits_value base ds), rest)"
    using strtoul_digits_value [OF assms(5-7), of 0] of_nat_digits_value [of base 0 ds]
    by (simp add: digits_value_def)
  ultimately show ?thesis by (simp add: strtoul_def)
qed



end
