(* ===== verification/Printf.thy ===== *)
theory Printf
  imports CString
begin

text \<open>
  Formatted printing (\<open>core/vsprintf.c\<close>, with the wide-character stub of \<open>include/wchar.h\<close>).
  The variable arguments are a list of tagged values; an argument of the wrong type, a number
  that does not fit the 32-byte scratch buffer and every other step the C language leaves
  undefined give \<open>None\<close>. The handler that a context calls for each character only appends or
  stores it, so the model first produces the characters and then hands them to the handler.
\<close>

section \<open>Numbers\<close>

definition LCASE :: u32 where "LCASE = 0x20"
definition ALT_FORM :: u32 where "ALT_FORM = 0x02"
definition ZPAD :: u32 where "ZPAD = 0x10"

definition hex_digit :: "u64 \<Rightarrow> u8" where
  "hex_digit n = str ''0123456789ABCDEF'' ! unat (n AND 0xf)"

text \<open>The digits of a number, generated from the last to the first.\<close>

function hex_digits :: "u8 \<Rightarrow> u64 \<Rightarrow> bytes \<Rightarrow> bytes" where
  "hex_digits case_mod num acc =
     (let acc = (hex_digit num OR case_mod) # acc;
          num = drop_bit 4 num
      in if num \<noteq> 0 then hex_digits case_mod num acc else acc)"
  by pat_completeness auto
termination
proof (relation "measure (\<lambda>(c, n, a). unat n)")
  fix case_mod :: u8 and num x :: u64 and acc y :: bytes
  assume x: "x = drop_bit 4 num" "x \<noteq> 0"
  then have "unat (drop_bit 4 num) \<noteq> 0" by (simp only: unat_eq_zero not_False_eq_True)
  then have "unat num div 16 \<noteq> 0" using unat_drop_bit [of 4 num] by simp
  then show "((case_mod, x, y), case_mod, num, acc) \<in> measure (\<lambda>(c, n, a). unat n)"
    using unat_drop_bit [of 4 num] x(1) by simp
qed simp

declare hex_digits.simps [simp del]

text \<open>The scratch buffer has room for 31 characters before its terminating NUL.\<close>

definition pad_left :: "int \<Rightarrow> u8 \<Rightarrow> bytes \<Rightarrow> bytes" where
  "pad_left width pad s = replicate (nat width - length s) pad @ s"

definition fits_scratch :: "bytes \<Rightarrow> bytes option" where
  "fits_scratch s = (if length s \<le> 31 then Some s else None)"

definition format_hex :: "u64 \<Rightarrow> int \<Rightarrow> u32 \<Rightarrow> bytes option" where
  "format_hex num width flags =
     (let case_mod = ucast (flags AND LCASE);
          pad = ucast ((flags AND ZPAD) OR 0x20);
          s = pad_left width pad (hex_digits case_mod num [])
      in fits_scratch (if flags AND ALT_FORM \<noteq> 0 then 0x30 # (0x58 OR case_mod) # s else s))"

fun dec_digits :: "nat \<Rightarrow> bytes \<Rightarrow> bytes" where
  "dec_digits num acc =
     (let acc = (0x30 + of_nat (num mod 10)) # acc
      in if num div 10 \<noteq> 0 then dec_digits (num div 10) acc else acc)"

declare dec_digits.simps [simp del]

text \<open>The negation of the most negative number overflows.\<close>

definition format_decimal :: "int \<Rightarrow> int \<Rightarrow> u32 \<Rightarrow> bytes option" where
  "format_decimal num width flags =
     (let zpad = flags AND ZPAD;
          pad = ucast (zpad OR 0x20);
          negative = num < 0;
          s = dec_digits (nat (abs num)) [];
          s = (if negative \<and> zpad = 0 then 0x2d # s else s);
          s = pad_left width pad s
      in if num = - (2 ^ 63) then None
         else fits_scratch (if negative \<and> zpad \<noteq> 0 then s[0 := 0x2d] else s))"

section \<open>Format strings\<close>

datatype printf_arg =
    Int_arg u32
  | Long_arg u64
  | Ptr_arg u64
  | Str_arg "bytes option"
  | Wstr_arg "u16 list option"

text \<open>The length modifiers are positions in the table of type sizes.\<close>

definition INT_LEN :: int where "INT_LEN = 2"
definition LONG_LEN :: int where "LONG_LEN = 3"
definition SIZE_T_LEN :: int where "SIZE_T_LEN = 5"

definition type_sizes :: "int \<Rightarrow> nat option" where
  "type_sizes i = (if 0 \<le> i \<and> i \<le> 5 then Some ([1, 2, 4, 8, 8, 8] ! nat i) else None)"

fun parse_flags :: "u32 \<Rightarrow> bytes \<Rightarrow> u32 \<times> bytes" where
  "parse_flags flags (c # fmt) =
     (if c = 0x23 then parse_flags (flags OR ALT_FORM) fmt
      else if c = 0x30 then parse_flags (flags OR ZPAD) fmt
      else (flags, c # fmt))"
| "parse_flags flags [] = (flags, [])"

fun parse_width :: "int \<Rightarrow> bytes \<Rightarrow> int \<times> bytes" where
  "parse_width width (c # fmt) =
     (if char_to_uint c - 0x30 < 10 then parse_width (width * 10 + (uint c - 0x30)) fmt
      else (width, c # fmt))"
| "parse_width width [] = (width, [])"

fun parse_length :: "int \<Rightarrow> bytes \<Rightarrow> int \<times> bytes" where
  "parse_length lmod (c # fmt) =
     (if c = 0x68 then parse_length (lmod - 1) fmt
      else if c = 0x6c then parse_length (lmod + 1) fmt
      else if c = 0x7a then parse_length SIZE_T_LEN fmt
      else (lmod, c # fmt))"
| "parse_length lmod [] = (lmod, [])"

text \<open>Conversion of one argument: the characters it prints and the arguments left.\<close>

definition wcrtomb :: "u16 \<Rightarrow> bytes" where
  "wcrtomb wc = [ucast wc]"

fun convert :: "u32 \<Rightarrow> int \<Rightarrow> int \<Rightarrow> u8 \<Rightarrow> printf_arg list \<Rightarrow> (bytes \<times> printf_arg list) option" where
  "convert flags width lmod c args =
     (if c = 0x63 then
        (case args of
           Int_arg n # args \<Rightarrow>
             (if lmod < LONG_LEN then Some ([ucast n], args)
              else Some (if (ucast n :: u8) = 0 then [] else wcrtomb (ucast n), args))
         | _ \<Rightarrow> None)
      else if c = 0x73 then
        (case args of
           Str_arg s # args \<Rightarrow>
             (if lmod < LONG_LEN then Some (case s of None \<Rightarrow> str ''<NULL>'' | Some s \<Rightarrow> s, args) else None)
         | Wstr_arg s # args \<Rightarrow>
             (if lmod < LONG_LEN then None
              else Some (case s of None \<Rightarrow> str ''<NULL>'' | Some s \<Rightarrow> concat (map wcrtomb s), args))
         | _ \<Rightarrow> None)
      else if c = 0x70 then
        (case args of
           Ptr_arg p # args \<Rightarrow> map_option (\<lambda>s. (s, args)) (format_hex p width (ALT_FORM OR LCASE))
         | _ \<Rightarrow> None)
      else if c AND NOT 0x20 = 0x58 then
        (let flags = flags OR ucast (c AND 0x20)
         in case (type_sizes lmod, args) of
              (Some sz, Long_arg n # args) \<Rightarrow>
                (if sz \<ge> 8 then map_option (\<lambda>s. (s, args)) (format_hex n width flags) else None)
            | (Some sz, Int_arg n # args) \<Rightarrow>
                (if sz \<ge> 8 then None else map_option (\<lambda>s. (s, args)) (format_hex (ucast n) width flags))
            | _ \<Rightarrow> None)
      else if c = 0x64 \<or> c = 0x69 then
        (case (type_sizes lmod, args) of
           (Some sz, Long_arg n # args) \<Rightarrow>
             (if sz \<ge> 8 then map_option (\<lambda>s. (s, args)) (format_decimal (sint n) width flags) else None)
         | (Some sz, Int_arg n # args) \<Rightarrow>
             (if sz \<ge> 8 then None else map_option (\<lambda>s. (s, args)) (format_decimal (sint n) width flags))
         | _ \<Rightarrow> None)
      else Some ([c], args))"

declare convert.simps [simp del]

text \<open>Parsing never lengthens the rest of the format.\<close>

lemma parse_flags_length: "length (snd (parse_flags f s)) \<le> length s"
  by (induction f s rule: parse_flags.induct) auto

lemma parse_width_length: "length (snd (parse_width w s)) \<le> length s"
  by (induction w s rule: parse_width.induct) auto

lemma parse_length_length: "length (snd (parse_length l s)) \<le> length s"
  by (induction l s rule: parse_length.induct) auto

definition parse_spec :: "bytes \<Rightarrow> u32 \<times> int \<times> int \<times> bytes" where
  "parse_spec fmt =
     (case parse_flags 0 fmt of (flags, fmt) \<Rightarrow>
      case parse_width 0 fmt of (width, fmt) \<Rightarrow>
      case parse_length INT_LEN fmt of (lmod, fmt) \<Rightarrow> (flags, width, lmod, fmt))"

lemma parse_spec_length: "parse_spec fmt = (flags, width, len, c # rest) \<Longrightarrow> length rest < length fmt"
  using parse_flags_length [of 0 fmt] parse_width_length [of 0 "snd (parse_flags 0 fmt)"]
    parse_length_length [of INT_LEN "snd (parse_width 0 (snd (parse_flags 0 fmt)))"]
  by (auto simp: parse_spec_def split: prod.splits)

text \<open>
  The characters that a format and its arguments print. A format that ends inside a conversion
  is read beyond its terminating NUL.
\<close>

function vcprintf :: "bytes \<Rightarrow> printf_arg list \<Rightarrow> bytes option" where
  "vcprintf fmt args =
     (case fmt of
        [] \<Rightarrow> Some []
      | c # fmt' \<Rightarrow>
          (if c \<noteq> 0x25 then map_option (Cons c) (vcprintf fmt' args)
           else case parse_spec fmt' of (flags, width, lmod, spec) \<Rightarrow>
             (case spec of
                [] \<Rightarrow> None
              | d # rest \<Rightarrow>
                  (case convert flags width lmod d args of
                     None \<Rightarrow> None
                   | Some (s, args') \<Rightarrow> map_option ((@) s) (vcprintf rest args')))))"
  by pat_completeness auto
termination
  by (relation "measure (\<lambda>(fmt, args). length fmt)")
     (auto dest!: parse_spec_length [OF sym])

declare vcprintf.simps [simp del]

section \<open>Printing into a buffer\<close>

text \<open>The handler of \<open>vsnprintf()\<close>, called for each character with the length so far.\<close>

definition printf_sputc :: "nat \<Rightarrow> nat \<Rightarrow> u8 \<Rightarrow> bytes \<Rightarrow> bytes" where
  "printf_sputc max_len len c buf = (if len < max_len then buf[len := c] else buf)"

fun cputchars :: "nat \<Rightarrow> bytes \<Rightarrow> nat \<Rightarrow> bytes \<Rightarrow> bytes \<times> nat" where
  "cputchars max_len [] len buf = (buf, len)"
| "cputchars max_len (c # cs) len buf = cputchars max_len cs (Suc len) (printf_sputc max_len len c buf)"

definition vsnprintf :: "bytes \<Rightarrow> nat \<Rightarrow> bytes \<Rightarrow> printf_arg list \<Rightarrow> (bytes \<times> nat) option" where
  "vsnprintf buf sz fmt args =
     (case vcprintf fmt args of
        None \<Rightarrow> None
      | Some out \<Rightarrow>
          (case cputchars sz out 0 buf of (buf, len) \<Rightarrow>
             (if sz \<noteq> 0 then
                (let finish = sz - 1;
                     finish = (if len < finish then len else finish)
                 in Some (buf[finish := 0], len))
              else Some (buf, len))))"

definition vssnprintf :: "bytes \<Rightarrow> int \<Rightarrow> bytes \<Rightarrow> printf_arg list \<Rightarrow> (bytes \<times> nat) option" where
  "vssnprintf buf ssize fmt args = vsnprintf buf (nat (if ssize < 0 then 0 else ssize)) fmt args"

section \<open>The buffer\<close>

lemma cputchars_length: "length (fst (cputchars sz out len buf)) = length buf"
  and cputchars_count: "snd (cputchars sz out len buf) = len + length out"
  by (induction sz out len buf rule: cputchars.induct) (auto simp: printf_sputc_def)

lemma cputchars_nth:
  assumes "i < length buf"
  shows "fst (cputchars sz out len buf) ! i =
    (if len \<le> i \<and> i < sz \<and> i < len + length out then out ! (i - len) else buf ! i)"
  using assms
proof (induction sz out len buf rule: cputchars.induct)
  case (2 sz c cs len buf)
  then show ?case by (auto simp: printf_sputc_def nth_Cons' nth_list_update less_Suc_eq)
qed auto

text \<open>The buffer after printing: as much of the output as fits, the NUL, and the old bytes.\<close>

definition printed :: "nat \<Rightarrow> bytes \<Rightarrow> bytes \<Rightarrow> bytes" where
  "printed sz out buf =
     (if sz = 0 then buf
      else let e = min (length out) (sz - 1) in take e out @ 0 # drop (Suc e) buf)"

lemma length_printed [simp]: "sz \<le> length buf \<Longrightarrow> length (printed sz out buf) = length buf"
  by (auto simp: printed_def Let_def)

lemma vsnprintf_printed:
  assumes "sz \<le> length buf" and "vcprintf fmt args = Some out"
  shows "vsnprintf buf sz fmt args = Some (printed sz out buf, length out)"
proof -
  obtain b n where c: "cputchars sz out 0 buf = (b, n)" by (cases "cputchars sz out 0 buf")
  have n: "n = length out" "length b = length buf"
    using cputchars_count [of sz out 0 buf] cputchars_length [of sz out 0 buf] c by simp_all
  have nth: "b ! i = (if i < sz \<and> i < length out then out ! i else buf ! i)" if "i < length buf" for i
    using cputchars_nth [OF that, of sz out 0] c by simp
  show ?thesis
  proof (cases "sz = 0")
    case True
    then have "b = buf" using nth n by (intro nth_equalityI) auto
    with True c n assms(2) show ?thesis by (simp add: vsnprintf_def printed_def)
  next
    case False
    define e where "e = min (length out) (sz - 1)"
    have "b[e := 0] = take e out @ 0 # drop (Suc e) buf"
      using nth n False assms(1)
      by (intro nth_equalityI) (auto simp: e_def nth_append nth_list_update nth_Cons')
    moreover have "(if length out < sz - 1 then length out else sz - 1) = e" by (simp add: e_def min_def)
    ultimately show ?thesis
      using False c unfolding vsnprintf_def printed_def assms(2) n(1) Let_def e_def [symmetric] by simp
  qed
qed



section \<open>Numbers that are printed and read back\<close>

fun digits :: "nat \<Rightarrow> nat \<Rightarrow> nat list" where
  "digits base n = (if base \<le> 1 \<or> n < base then [n] else digits base (n div base) @ [n mod base])"

declare digits.simps [simp del]

lemma digits_nonempty [simp]: "digits base n \<noteq> []"
  by (subst digits.simps) simp

lemma digits_bounds:
  assumes "1 < base"
  shows "\<forall>d \<in> set (digits base n). d < base"
    and "digits_value base (digits base n) = n" and "n \<noteq> 0 \<Longrightarrow> hd (digits base n) \<noteq> 0"
proof -
  show "\<forall>d \<in> set (digits base n). d < base"
    using assms by (induction base n rule: digits.induct) (subst digits.simps, auto)
  show "digits_value base (digits base n) = n"
    using assms by (induction base n rule: digits.induct) (subst digits.simps, auto simp: digits_value_def)
  show "n \<noteq> 0 \<Longrightarrow> hd (digits base n) \<noteq> 0"
    using assms by (induction base n rule: digits.induct) (subst digits.simps, auto simp: hd_append div_eq_0_iff)
qed

lemma hex_digit_lower: "hex_digit n OR 0x20 = digit_char (unat n mod 16)"
proof -
  have "\<forall>d \<in> set [0..<16]. str ''0123456789ABCDEF'' ! d OR 0x20 = digit_char d" by code_simp
  moreover have "unat (n AND 0xf) = unat n mod 16"
    using unat_take_bit [of 4 n] mask_and [of n 4] by simp
  ultimately show ?thesis by (simp add: hex_digit_def)
qed

lemma hex_digits_lower: "hex_digits 0x20 num acc = map digit_char (digits 16 (unat num)) @ acc"
proof (induction "0x20 :: u8" num acc rule: hex_digits.induct)
  case (1 num acc)
  let ?num = "drop_bit 4 num"
  have u: "unat ?num = unat num div 16" using unat_drop_bit [of 4 num] by simp
  have z: "?num = 0 \<longleftrightarrow> unat num < 16" using u by (metis div_eq_0_iff unat_eq_zero zero_neq_numeral)
  show ?case
  proof (cases "?num = 0")
    case True
    then show ?thesis using z
      by (subst hex_digits.simps, subst digits.simps) (simp add: Let_def hex_digit_lower)
  next
    case False
    then have "digits 16 (unat num) = digits 16 (unat num div 16) @ [unat num mod 16]"
      using z by (subst digits.simps) simp
    with False 1 [OF refl refl] show ?thesis
      by (subst hex_digits.simps) (simp add: Let_def hex_digit_lower u)
  qed
qed

lemma dec_digits_eq: "dec_digits num acc = map digit_char (digits 10 num) @ acc"
proof (induction num acc rule: dec_digits.induct)
  case (1 num acc)
  have c: "0x30 + of_nat (num mod 10) = digit_char (num mod 10)" by (simp add: digit_char_def)
  show ?case
  proof (cases "num < 10")
    case True
    then show ?thesis by (subst dec_digits.simps, subst digits.simps) (simp add: Let_def digit_char_def)
  next
    case False
    then have "digits 10 num = digits 10 (num div 10) @ [num mod 10]" "num div 10 \<noteq> 0"
      by (subst digits.simps, simp_all add: div_eq_0_iff)
    with 1 [OF refl] c show ?thesis by (subst dec_digits.simps) (simp add: Let_def)
  qed
qed

lemma digits_length: "1 < base \<Longrightarrow> 0 < k \<Longrightarrow> n < base ^ k \<Longrightarrow> length (digits base n) \<le> k"
proof (induction k arbitrary: n)
  case (Suc k)
  show ?case
  proof (cases "n < base")
    case True
    then show ?thesis by (subst digits.simps) simp
  next
    case False
    then have "0 < k" using Suc.prems by (cases k) auto
    moreover have "n div base < base ^ k" using Suc.prems by (simp add: div_less_iff_less_mult mult.commute)
    ultimately have "length (digits base (n div base)) \<le> k" using Suc by blast
    then show ?thesis using False Suc.prems by (subst digits.simps) simp
  qed
qed simp

lemma vcprintf_hex:
  "vcprintf (str ''%#llx'') [Long_arg n] = Some ([0x30, 0x78] @ map digit_char (digits 16 (unat n)))"
proof -
  have "length (digits 16 (unat n)) \<le> 16" using unat_u64_less [of n] by (intro digits_length) simp_all
  then have "format_hex n 0 (ALT_FORM OR 0x20) = Some ([0x30, 0x78] @ map digit_char (digits 16 (unat n)))"
    by (simp add: format_hex_def ALT_FORM_def LCASE_def ZPAD_def pad_left_def fits_scratch_def hex_digits_lower Let_def)
  then show ?thesis
    by (simp add: vcprintf.simps str_def parse_spec_def INT_LEN_def char_to_uint_def convert.simps type_sizes_def Let_def)
qed

lemma vcprintf_decimal:
  assumes "n \<noteq> 2 ^ 63"
  shows "vcprintf (str ''%ld'') [Long_arg n] =
    Some ((if sint n < 0 then [0x2d] else []) @ map digit_char (digits 10 (nat (abs (sint n)))))"
proof -
  have "abs (sint n) \<le> 2 ^ 63" using sint_greater_eq [of n] sint_less [of n] by (simp add: abs_le_iff)
  then have len: "length (digits 10 (nat (abs (sint n)))) \<le> 19" by (intro digits_length) simp_all
  have ne: "sint n \<noteq> - (2 ^ 63)"
  proof
    assume "sint n = - (2 ^ 63)"
    moreover have "n = of_int (sint n)" by simp
    ultimately have "n = 2 ^ 63" by simp
    with assms show False by contradiction
  qed
  have "format_decimal (sint n) 0 0 =
      Some ((if sint n < 0 then [0x2d] else []) @ map digit_char (digits 10 (nat (abs (sint n)))))"
    using len ne
    by (cases "sint n < 0")
       (simp_all add: format_decimal_def ZPAD_def pad_left_def fits_scratch_def dec_digits_eq Let_def)
  then show ?thesis
    by (simp add: vcprintf.simps str_def parse_spec_def INT_LEN_def char_to_uint_def convert.simps type_sizes_def Let_def)
qed

text \<open>Formats of plain characters, decimal numbers and strings.\<close>

lemma vcprintf_Nil [simp]: "vcprintf [] args = Some []"
  by (simp add: vcprintf.simps)

lemma vcprintf_char: "c \<noteq> 0x25 \<Longrightarrow> vcprintf (c # fmt) args = map_option (Cons c) (vcprintf fmt args)"
  by (simp add: vcprintf.simps [of "c # fmt"])

lemma vcprintf_s: "vcprintf (0x25 # 0x73 # fmt) (Str_arg (Some s) # args) = map_option ((@) s) (vcprintf fmt args)"
  by (simp add: vcprintf.simps [of "0x25 # 0x73 # fmt"] parse_spec_def INT_LEN_def LONG_LEN_def char_to_uint_def convert.simps)

lemma vcprintf_d:
  assumes "0 \<le> sint w"
  shows "vcprintf (0x25 # 0x64 # fmt) (Int_arg w # args) =
    map_option ((@) (map digit_char (digits 10 (nat (sint w))))) (vcprintf fmt args)"
proof -
  have b: "sint w < 2 ^ 31" using sint_less [of w] by simp
  then have "length (digits 10 (nat (sint w))) \<le> 10" by (intro digits_length) simp_all
  then have "format_decimal (sint w) 0 0 = Some (map digit_char (digits 10 (nat (sint w))))"
    using assms by (simp add: format_decimal_def ZPAD_def pad_left_def fits_scratch_def dec_digits_eq Let_def)
  then show ?thesis
    by (simp add: vcprintf.simps [of "0x25 # 0x64 # fmt"] parse_spec_def INT_LEN_def char_to_uint_def convert.simps type_sizes_def)
qed


end
