(* ===== verification/Codec.thy ===== *)
theory Codec
  imports Printf
begin

text \<open>
  The text encodings of binary data: hexadecimal strings (\<open>core/base16.c\<close>,
  \<open>include/ipxe/base16.h\<close>) and Base64 (\<open>core/base64.c\<close>, \<open>include/ipxe/base64.h\<close>). A buffer is
  the list of its bytes; encoding prints through the model of \<open>ssnprintf()\<close>.
\<close>

section \<open>Hexadecimal strings\<close>

definition HEX_DECODE_OPTIONAL :: u8 where
  "HEX_DECODE_OPTIONAL = 0x80"

definition base16_encoded_len :: "nat \<Rightarrow> nat" where
  "base16_encoded_len raw_len = 2 * raw_len"

definition base16_decoded_max_len :: "bytes \<Rightarrow> nat" where
  "base16_decoded_max_len encoded = (length encoded + 1) div 2"

text \<open>Printing at an offset of the buffer, where the remaining size may be negative.\<close>

definition ssnprintf_at :: "nat \<Rightarrow> bytes \<Rightarrow> int \<Rightarrow> bytes \<Rightarrow> printf_arg list \<Rightarrow> (bytes \<times> nat) option" where
  "ssnprintf_at offset buf ssize fmt args =
     map_option (\<lambda>(tail, n). (take offset buf @ tail, n)) (vssnprintf (drop offset buf) ssize fmt args)"

fun hex_encode_loop :: "bytes \<Rightarrow> bytes \<Rightarrow> nat \<Rightarrow> nat \<Rightarrow> bytes \<Rightarrow> (bytes \<times> nat) option" where
  "hex_encode_loop delimiter [] used len buf = Some (buf, used)"
| "hex_encode_loop delimiter (b # bs) used len buf =
     (case ssnprintf_at used buf (int len - int used) (str ''%s%02x'')
             [Str_arg (Some (if used \<noteq> 0 then delimiter else [])), Int_arg (ucast b)] of
        None \<Rightarrow> None
      | Some (buf, n) \<Rightarrow> hex_encode_loop delimiter bs (used + n) len buf)"

definition hex_encode :: "u8 \<Rightarrow> bytes \<Rightarrow> bytes \<Rightarrow> nat \<Rightarrow> (bytes \<times> nat) option" where
  "hex_encode separator raw buf len =
     hex_encode_loop (if separator = 0 then [] else [separator]) raw 0 len
       (if len \<noteq> 0 then buf[0 := 0] else buf)"

function hex_decode_loop :: "u8 \<Rightarrow> bool \<Rightarrow> bytes \<Rightarrow> nat \<Rightarrow> bytes \<Rightarrow> nat \<Rightarrow> (bytes \<times> nat) result" where
  "hex_decode_loop separator optional encoded count out len =
     (if encoded = [] then Inr (out, count)
      else if count \<noteq> 0 \<and> separator \<noteq> 0 \<and> chd encoded \<noteq> separator \<and> \<not> optional then Inl EINVAL
      else
        let encoded = (if count \<noteq> 0 \<and> separator \<noteq> 0 \<and> chd encoded = separator then tl encoded else encoded);
            sixteens = digit_value (char_to_uint (chd encoded));
            units = digit_value (char_to_uint (chd (tl encoded)))
        in if sixteens \<ge> 16 then Inl EINVAL
           else if units \<ge> 16 then Inl EINVAL
           else hex_decode_loop separator optional (tl (tl encoded)) (count + 1)
                  (if count < len then out[count := ucast ((push_bit 4 sixteens) OR units)] else out) len)"
  by pat_completeness auto
termination
  by (relation "measure (\<lambda>(s, opt, e, c, b, l). length e)") auto

declare hex_decode_loop.simps [simp del]

definition hex_decode :: "u8 \<Rightarrow> bytes \<Rightarrow> bytes \<Rightarrow> nat \<Rightarrow> (bytes \<times> nat) result" where
  "hex_decode separator encoded buf len =
     hex_decode_loop (separator AND NOT HEX_DECODE_OPTIONAL) (separator AND HEX_DECODE_OPTIONAL \<noteq> 0)
       encoded 0 buf len"

definition base16_encode :: "bytes \<Rightarrow> bytes \<Rightarrow> nat \<Rightarrow> (bytes \<times> nat) option" where
  "base16_encode raw buf len = hex_encode 0 raw buf len"

definition base16_decode :: "bytes \<Rightarrow> bytes \<Rightarrow> nat \<Rightarrow> (bytes \<times> nat) result" where
  "base16_decode encoded buf len = hex_decode 0 encoded buf len"

section \<open>Base64\<close>

definition base64 :: bytes where
  "base64 = str ''ABCDEFGHIJKLMNOPQRSTUVWXYZabcdefghijklmnopqrstuvwxyz0123456789+/''"

definition base64_encoded_len :: "nat \<Rightarrow> nat" where
  "base64_encoded_len raw_len = (raw_len + 3 - 1) div 3 * 4"

definition base64_decoded_max_len :: "bytes \<Rightarrow> nat" where
  "base64_decoded_max_len encoded = (length encoded + 4 - 1) div 4 * 3"

text \<open>A store that the code guards with the length of the buffer.\<close>

definition put :: "nat \<Rightarrow> nat \<Rightarrow> u8 \<Rightarrow> bytes \<Rightarrow> bytes" where
  "put len i c buf = (if i < len then buf[i := c] else buf)"

definition base64_sextet :: "bytes \<Rightarrow> nat \<Rightarrow> nat" where
  "base64_sextet raw pos =
     (let byte = pos div 8;
          shift = pos mod 8;
          tmp = push_bit shift (ucast (raw ! byte) :: u32);
          tmp = (if byte + 1 < length raw then tmp OR ucast (drop_bit (8 - shift) (raw ! (byte + 1))) else tmp)
      in unat (drop_bit 2 tmp AND 0x3f))"

text \<open>The position is a 32-bit count of bits, compared with a 64-bit length.\<close>

partial_function (option) base64_encode_loop ::
  "bytes \<Rightarrow> u32 \<Rightarrow> nat \<Rightarrow> nat \<Rightarrow> bytes \<Rightarrow> (bytes \<times> u32 \<times> nat) option" where
  "base64_encode_loop raw pos used len buf =
     (if unat pos < 8 * length raw then
        base64_encode_loop raw (pos + 6) (used + 1) len
          (put len used (base64 ! base64_sextet raw (unat pos)) buf)
      else Some (buf, pos, used))"

partial_function (option) base64_pad_loop :: "u32 \<Rightarrow> nat \<Rightarrow> nat \<Rightarrow> bytes \<Rightarrow> (bytes \<times> nat) option" where
  "base64_pad_loop pos used len buf =
     (if pos mod 8 = 0 then Some (buf, used)
      else base64_pad_loop (pos + 6) (used + 1) len (put len used 0x3d buf))"

definition base64_encode :: "bytes \<Rightarrow> bytes \<Rightarrow> nat \<Rightarrow> (bytes \<times> nat) option" where
  "base64_encode raw buf len =
     (case base64_encode_loop raw 0 0 len buf of None \<Rightarrow> None | Some (buf, pos, used) \<Rightarrow>
        (case base64_pad_loop pos used len buf of
           None \<Rightarrow> None
         | Some (buf, used) \<Rightarrow>
             (let buf = put len used 0 buf;
                  buf = (if len \<noteq> 0 then buf[len - 1 := 0] else buf)
              in Some (buf, used))))"

text \<open>
  The position of a character in the alphabet, and the loop over the string: \<open>pos\<close> is the
  32-bit bit count, from which each pad character takes two.
\<close>

definition base64_index :: "u8 \<Rightarrow> nat option" where
  "base64_index c = map_option (\<lambda>s. length base64 - length s) (strchr base64 (uint c))"

definition or_at :: "nat \<Rightarrow> nat \<Rightarrow> u32 \<Rightarrow> bytes \<Rightarrow> bytes" where
  "or_at len i v out = (if i < len then out[i := ucast (ucast (out ! i) OR v)] else out)"

fun base64_decode_loop :: "bytes \<Rightarrow> u32 \<Rightarrow> nat \<Rightarrow> bytes \<Rightarrow> nat \<Rightarrow> (bytes \<times> u32) result" where
  "base64_decode_loop [] pos pad_count out len = Inr (out, pos)"
| "base64_decode_loop (c # cs) pos pad_count out len =
     (if isspace (uint c) then base64_decode_loop cs pos pad_count out len
      else if c = 0x3d then
        (if pad_count \<ge> 2 then Inl EINVAL
         else base64_decode_loop cs (pos - 2) (pad_count + 1) out len)
      else if pad_count \<noteq> 0 then Inl EINVAL
      else
        (case base64_index c of
           None \<Rightarrow> Inl EINVAL
         | Some i \<Rightarrow>
             (let in_bits = push_bit 2 (of_nat i) :: u32;
                  shift = unat (pos mod 8);
                  offset = unat (pos div 8);
                  out = or_at len offset (drop_bit shift in_bits) out;
                  out = or_at len (offset + 1) (push_bit (8 - shift) in_bits) out
              in base64_decode_loop cs (pos + 6) pad_count out len)))"

definition base64_decode :: "bytes \<Rightarrow> bytes \<Rightarrow> nat \<Rightarrow> (bytes \<times> nat) result" where
  "base64_decode encoded buf len =
     (case base64_decode_loop encoded 0 0 (replicate len 0 @ drop len buf) len of
        Inl e \<Rightarrow> Inl e
      | Inr (out, pos) \<Rightarrow> if pos mod 8 \<noteq> 0 then Inl EINVAL else Inr (out, unat (pos div 8)))"

section \<open>Hexadecimal round trip\<close>

definition hex2 :: "u8 \<Rightarrow> bytes" where
  "hex2 b = [digit_char (unat b div 16), digit_char (unat b mod 16)]"

text \<open>The string for some data, as the loop extends what it has printed so far.\<close>

fun hex_string :: "bytes \<Rightarrow> bytes \<Rightarrow> bytes \<Rightarrow> bytes" where
  "hex_string delimiter sofar [] = sofar"
| "hex_string delimiter sofar (b # bs) =
     hex_string delimiter (sofar @ (if sofar \<noteq> [] then delimiter else []) @ hex2 b) bs"

lemma vcprintf_hex2:
  "vcprintf (str ''%s%02x'') [Str_arg (Some d), Int_arg (ucast b)] = Some (d @ hex2 b)" for b :: u8
proof -
  let ?n = "ucast (ucast b :: u32) :: u64"
  have "unat ?n = unat b" by (simp add: unat_ucast_up)
  then have h: "hex_digits 0x20 ?n [] = map digit_char (digits 16 (unat b))"
    by (simp only: hex_digits_lower append_Nil2)
  define x where "x = unat b"
  have "x < 256" using unsigned_less [of b] by (simp add: x_def)
  have "pad_left 2 0x30 (map digit_char (digits 16 x)) = [digit_char (x div 16), digit_char (x mod 16)]"
  proof (cases "x < 16")
    case True
    then have "digits 16 x = [x]" by (subst digits.simps) simp
    with True show ?thesis by (simp add: pad_left_def digit_char_def)
  next
    case False
    then have "digits 16 x = digits 16 (x div 16) @ [x mod 16]" by (subst digits.simps) simp
    moreover have "digits 16 (x div 16) = [x div 16]" using \<open>x < 256\<close> by (subst digits.simps) simp
    ultimately show ?thesis by (simp add: pad_left_def)
  qed
  then have "pad_left 2 0x30 (hex_digits 0x20 ?n []) = hex2 b" by (simp only: h hex2_def x_def)
  then have "format_hex ?n 2 (ZPAD OR 0x20) = Some (hex2 b)"
    by (simp add: format_hex_def ALT_FORM_def LCASE_def ZPAD_def fits_scratch_def Let_def hex2_def)
  then show ?thesis
    by (simp add: vcprintf.simps str_def parse_spec_def INT_LEN_def LONG_LEN_def char_to_uint_def convert.simps
        type_sizes_def Let_def)
qed

text \<open>Printing more at the end of what is printed extends the output.\<close>

lemma ssnprintf_extends:
  assumes "len \<le> length buf" and "vcprintf fmt args = Some out"
  shows "ssnprintf_at (length sofar) (printed len sofar buf) (int len - int (length sofar)) fmt args
    = Some (printed len (sofar @ out) buf, length out)"
proof (cases "length sofar < len")
  case True
  let ?b = "printed len sofar buf"
  have b: "take (length sofar) ?b = sofar" "drop (length sofar) ?b = 0 # drop (Suc (length sofar)) buf"
    using True by (simp_all add: printed_def Let_def min_absorb1)
  have "len - length sofar \<le> length (drop (length sofar) ?b)" using assms(1) True by (simp add: b)
  from vsnprintf_printed [OF this assms(2)]
  have "ssnprintf_at (length sofar) ?b (int len - int (length sofar)) fmt args =
      Some (sofar @ printed (len - length sofar) out (0 # drop (Suc (length sofar)) buf), length out)"
    using True by (simp add: ssnprintf_at_def vssnprintf_def b nat_diff_distrib)
  also have "sofar @ printed (len - length sofar) out (0 # drop (Suc (length sofar)) buf) = printed len (sofar @ out) buf"
    using True by (auto simp: printed_def Let_def min_def drop_Cons' add.commute)
  finally show ?thesis .
next
  case False
  then have "nat (if int len - int (length sofar) < 0 then 0 else int len - int (length sofar)) = 0" by simp
  moreover have "printed len (sofar @ out) buf = printed len sofar buf" using False by (auto simp: printed_def Let_def min_def)
  ultimately show ?thesis
    using vsnprintf_printed [of 0 _ fmt args out] assms(2)
    by (simp add: ssnprintf_at_def vssnprintf_def printed_def [of 0])
qed

lemma hex_encode_loop_printed:
  assumes "len \<le> length buf"
  shows "hex_encode_loop delimiter raw (length sofar) len (printed len sofar buf)
    = Some (printed len (hex_string delimiter sofar raw) buf, length (hex_string delimiter sofar raw))"
proof (induction raw arbitrary: sofar)
  case (Cons b bs)
  let ?x = "(if sofar \<noteq> [] then delimiter else []) @ hex2 b"
  have "ssnprintf_at (length sofar) (printed len sofar buf) (int len - int (length sofar)) (str ''%s%02x'')
      [Str_arg (Some (if length sofar \<noteq> 0 then delimiter else [])), Int_arg (ucast b)]
    = Some (printed len (sofar @ ?x) buf, length ?x)"
    using ssnprintf_extends [OF assms vcprintf_hex2] by simp
  then show ?case using Cons.IH [of "sofar @ ?x"] by simp
qed simp

lemma hex_encode_printed:
  assumes "len \<le> length buf"
  shows "hex_encode separator raw buf len =
    Some (printed len (hex_string (if separator = 0 then [] else [separator]) [] raw) buf,
          length (hex_string (if separator = 0 then [] else [separator]) [] raw))"
proof -
  have "(if len \<noteq> 0 then buf[0 := 0] else buf) = printed len [] buf"
    using assms by (cases buf) (auto simp: printed_def Let_def)
  then show ?thesis
    using hex_encode_loop_printed [OF assms, where sofar = "[]"] by (simp add: hex_encode_def)
qed

definition hex_tail :: "bytes \<Rightarrow> bytes \<Rightarrow> bytes" where
  "hex_tail delimiter bs = concat (map (\<lambda>b. delimiter @ hex2 b) bs)"

lemma hex_string_tail: "sofar \<noteq> [] \<Longrightarrow> hex_string d sofar bs = sofar @ hex_tail d bs"
  by (induction bs arbitrary: sofar) (auto simp: hex_tail_def hex2_def)

lemma hex_string_Cons: "hex_string d [] (b # bs) = hex2 b @ hex_tail d bs"
  by (simp add: hex_string_tail hex2_def)

lemma length_hex_string:
  "length (hex_string d [] raw) = 2 * length raw + length d * (length raw - 1)"
proof (cases raw)
  case (Cons b bs)
  have "length (hex_tail d bs) = (length d + 2) * length bs"
    by (induction bs) (auto simp: hex_tail_def hex2_def)
  then show ?thesis using Cons by (simp add: hex_string_Cons hex2_def del: hex_string.simps)
qed simp

lemma hex_digits_byte:
  "(ucast (push_bit 4 (of_nat (unat b div 16) :: u32) OR of_nat (unat b mod 16)) :: u8) = b"
proof -
  have "unat b < 256" using unsigned_less [of b] by simp
  then have "(of_nat (unat b div 16) :: u32) = drop_bit 4 (ucast b)"
    by (simp add: word_unat_eq_iff unat_of_nat unat_drop_bit unat_ucast_up)
  moreover have "(of_nat (unat b mod 16) :: u32) = take_bit 4 (ucast b)"
    by (simp add: word_unat_eq_iff unat_of_nat unat_take_bit unat_ucast_up)
  ultimately show ?thesis by (auto intro!: bit_eqI simp: bit_simps)
qed

lemma hex_digit_below: "x < 16 \<Longrightarrow> \<not> (16 :: u32) \<le> digit_value (char_to_uint (digit_char x))"
  by (simp add: digit_value_char word_le_nat_alt unat_of_nat)

lemma hex_decode_step:
  assumes "d = (if count \<noteq> 0 \<and> sep \<noteq> 0 then [sep] else [])"
  shows "hex_decode_loop sep opt (d @ hex2 b @ rest) count out len =
    hex_decode_loop sep opt rest (Suc count) (printf_sputc len count b out) len"
proof -
  have "unat b < 16 * 16" using unsigned_less [of b] by simp
  then have x: "unat b div 16 < 16" "unat b mod 16 < 16" by (simp_all add: less_mult_imp_div_less)
  then have v: "digit_value (char_to_uint (digit_char (unat b div 16))) = of_nat (unat b div 16)"
    "digit_value (char_to_uint (digit_char (unat b mod 16))) = of_nat (unat b mod 16)"
    by (simp_all add: digit_value_char)
  note below = hex_digit_below [OF x(1)] hex_digit_below [OF x(2)]
  have enc: "(if count \<noteq> 0 \<and> sep \<noteq> 0 \<and> chd (d @ hex2 b @ rest) = sep then tl (d @ hex2 b @ rest)
      else d @ hex2 b @ rest) = hex2 b @ rest"
    "\<not> (count \<noteq> 0 \<and> sep \<noteq> 0 \<and> chd (d @ hex2 b @ rest) \<noteq> sep \<and> \<not> opt)"
    "d @ hex2 b @ rest \<noteq> []"
    using assms by (auto simp: hex2_def)
  have "hex_decode_loop sep opt (d @ hex2 b @ rest) count out len =
      hex_decode_loop sep opt rest (Suc count) (if count < len
        then out[count := ucast (push_bit 4 (of_nat (unat b div 16) :: u32) OR of_nat (unat b mod 16))] else out) len"
    unfolding hex_decode_loop.simps [of sep opt "d @ hex2 b @ rest"] if_not_P [OF enc(3)] if_not_P [OF enc(2)]
      Let_def enc(1)
    using below by (simp add: hex2_def v [symmetric])
  then show ?thesis by (simp only: hex_digits_byte printf_sputc_def)
qed

lemma hex_decode_tail:
  "count \<noteq> 0 \<Longrightarrow> hex_decode_loop sep opt (hex_tail (if sep = 0 then [] else [sep]) bs) count out len =
    Inr (cputchars len bs count out)"
proof (induction bs arbitrary: count out)
  case Nil
  then show ?case by (simp add: hex_tail_def hex_decode_loop.simps)
next
  case (Cons b bs)
  have "hex_tail (if sep = 0 then [] else [sep]) (b # bs) =
      (if count \<noteq> 0 \<and> sep \<noteq> 0 then [sep] else []) @ hex2 b @ hex_tail (if sep = 0 then [] else [sep]) bs"
    using Cons.prems by (simp add: hex_tail_def)
  then show ?case using Cons.IH [of "Suc count"] by (simp add: hex_decode_step)
qed

lemma hex_decode_string:
  "hex_decode_loop sep opt (hex_string (if sep = 0 then [] else [sep]) [] raw) 0 out len = Inr (cputchars len raw 0 out)"
proof (cases raw)
  case Nil
  then show ?thesis by (simp add: hex_decode_loop.simps)
next
  case (Cons b bs)
  then show ?thesis
    using hex_decode_step [of "[]" 0 sep opt b "hex_tail (if sep = 0 then [] else [sep]) bs"]
      hex_decode_tail [of "Suc 0" sep opt bs]
    by (simp add: hex_string_Cons del: hex_string.simps)
qed

lemma cputchars_all:
  assumes "length s \<le> sz" and "sz \<le> length buf"
  shows "cputchars sz s 0 buf = (s @ drop (length s) buf, length s)"
proof -
  have "fst (cputchars sz s 0 buf) = s @ drop (length s) buf"
    using assms by (intro nth_equalityI) (auto simp: cputchars_length cputchars_nth nth_append)
  then show ?thesis using cputchars_count [of sz s 0 buf] by (metis add_0 prod.collapse)
qed



end
