(* ===== verification/Base64.thy ===== *)
theory Base64
  imports Codec
begin

text \<open>
  Correctness of the Base64 codec. Data is seen as a stream of bits, most significant bit of
  each byte first; a character stands for six bits of the stream, and the decoder ORs six bits
  at a time into a zeroed buffer.
\<close>

section \<open>The stream of bits\<close>

definition stream_bit :: "bytes \<Rightarrow> nat \<Rightarrow> bool" where
  "stream_bit bs t \<longleftrightarrow> t div 8 < length bs \<and> bit (bs ! (t div 8)) (7 - t mod 8)"

lemma stream_bit_at: "r < 8 \<Longrightarrow> stream_bit bs (8 * i + r) \<longleftrightarrow> i < length bs \<and> bit (bs ! i) (7 - r)"
  by (simp add: stream_bit_def)

lemma stream_bit_eqI:
  assumes "length xs = length ys" and "\<And>t. t < 8 * length xs \<Longrightarrow> stream_bit xs t = stream_bit ys t"
  shows "xs = ys"
proof (rule nth_equalityI)
  fix i assume i: "i < length xs"
  show "xs ! i = ys ! i"
  proof (rule bit_word_eqI)
    fix b assume "b < LENGTH(8)"
    then have b: "b < 8" by simp
    then have "stream_bit xs (8 * i + (7 - b)) = stream_bit ys (8 * i + (7 - b))"
      using i by (intro assms(2)) simp
    then show "bit (xs ! i) b = bit (ys ! i) b" 
      using i b assms(1) stream_bit_at [of "7 - b" xs i] stream_bit_at [of "7 - b" ys i] by simp
  qed
qed (rule assms(1))

lemma take6: "w AND 0x3f = take_bit 6 w" for w :: u32
  using mask_and [of w 6] by simp

text \<open>A character of the encoding: six consecutive bits.\<close>

lemma base64_sextet_bit:
  assumes "pos < 8 * length raw"
  shows "bit (base64_sextet raw pos) j \<longleftrightarrow> j < 6 \<and> stream_bit raw (pos + 5 - j)"
proof (cases "j < 6")
  case True
  define byte sh where "byte = pos div 8" and "sh = pos mod 8"
  have pos: "pos = 8 * byte + sh" "sh < 8" "byte < length raw" using assms by (auto simp: byte_def sh_def)
  let ?r0 = "raw ! byte" and ?r1 = "raw ! (byte + 1)"
  have "bit (base64_sextet raw pos) j \<longleftrightarrow> (sh \<le> j + 2 \<and> bit ?r0 (j + 2 - sh))
      \<or> (byte + 1 < length raw \<and> bit ?r1 (8 - sh + (j + 2)))"
    using True by (auto simp: base64_sextet_def Let_def take6 bit_simps byte_def [symmetric] sh_def [symmetric])
  also have "\<dots> \<longleftrightarrow> stream_bit raw (pos + 5 - j)"
  proof (cases "sh \<le> j + 2")
    case le: True
    have "pos + 5 - j = 8 * byte + (7 - (j + 2 - sh))" using le True pos by simp
    then have "stream_bit raw (pos + 5 - j) = bit ?r0 (7 - (7 - (j + 2 - sh)))"
      using stream_bit_at [of "7 - (j + 2 - sh)" raw byte] pos by simp
    moreover have "7 - (7 - (j + 2 - sh)) = j + 2 - sh" using True by simp
    moreover have "\<not> bit ?r1 (8 - sh + (j + 2))" using le pos bit_imp_le_length [of ?r1 "8 - sh + (j + 2)"] by auto
    ultimately show ?thesis using le by simp
  next
    case False
    have "pos + 5 - j = 8 * (byte + 1) + (sh - j - 3)" using False True pos by simp
    then have "stream_bit raw (pos + 5 - j) = (byte + 1 < length raw \<and> bit ?r1 (7 - (sh - j - 3)))"
      using stream_bit_at [of "sh - j - 3" raw "byte + 1"] pos by simp
    moreover have "7 - (sh - j - 3) = 8 - sh + (j + 2)" using False pos by simp
    ultimately show ?thesis using False by simp
  qed
  finally show ?thesis using True by simp
next
  case False
  then have "\<not> bit (base64_sextet raw pos) j" by (auto simp: base64_sextet_def Let_def take6 bit_simps)
  with False show ?thesis by simp
qed

lemma base64_sextet_less: "base64_sextet raw pos < 64"
proof -
  have "unat (w AND 0x3f) < 64" for w :: u32
    using unat_take_bit [of 6 w] by (simp add: take6)
  then show ?thesis by (simp add: base64_sextet_def Let_def)
qed

lemma strchr_nth: "distinct xs \<Longrightarrow> i < length xs \<Longrightarrow> strchr xs (uint (xs ! i)) = Some (drop i xs)"
proof (induction xs arbitrary: i)
  case (Cons x xs)
  then show ?case by (cases i) (auto simp flip: word_uint_eq_iff)
qed simp

lemma base64_alphabet:
  "length base64 = 64" "distinct base64" "\<forall>c \<in> set base64. \<not> isspace (uint c) \<and> c \<noteq> 0x3d"
proof -
  show "length base64 = 64" by code_simp
  show "distinct base64" by (simp add: base64_def str_def)
  show "\<forall>c \<in> set base64. \<not> isspace (uint c) \<and> c \<noteq> 0x3d" by (simp add: base64_def str_def isspace_def)
qed

lemma base64_char:
  assumes "s < 64"
  shows "base64_index (base64 ! s) = Some s" "\<not> isspace (uint (base64 ! s))" "base64 ! s \<noteq> 0x3d"
  using assms base64_alphabet(3) by (simp_all add: base64_index_def strchr_nth base64_alphabet(1,2))

section \<open>The encoder\<close>

definition sextets :: "bytes \<Rightarrow> nat" where
  "sextets raw = (8 * length raw + 5) div 6"

definition pads :: "bytes \<Rightarrow> nat" where
  "pads raw = (2 * length raw) mod 3"

definition encoded_from :: "bytes \<Rightarrow> nat \<Rightarrow> bytes" where
  "encoded_from raw i = map (\<lambda>i. base64 ! base64_sextet raw (6 * i)) [i..<sextets raw]"

definition base64_string :: "bytes \<Rightarrow> bytes" where
  "base64_string raw = encoded_from raw 0 @ replicate (pads raw) 0x3d"

lemma sextets_cases:
  obtains q where "length raw = 3 * q" "sextets raw = 4 * q" "pads raw = 0" "base64_encoded_len (length raw) = 4 * q"
  | q where "length raw = 3 * q + 1" "sextets raw = 4 * q + 2" "pads raw = 2" "base64_encoded_len (length raw) = 4 * q + 4"
  | q where "length raw = 3 * q + 2" "sextets raw = 4 * q + 3" "pads raw = 1" "base64_encoded_len (length raw) = 4 * q + 4"
proof -
  define q where "q = length raw div 3"
  consider "length raw = 3 * q" | "length raw = 3 * q + 1" | "length raw = 3 * q + 2"
    using div_mult_mod_eq [of "length raw" 3] mod_less_divisor [of 3 "length raw"] unfolding q_def by linarith
  then show thesis
  proof cases
    case 1
    moreover have "(8 * (3 * q) + 5) div 6 = 4 * q" "2 * (3 * q) mod 3 = 0" "(3 * q + 3 - 1) div 3 * 4 = 4 * q"
      by presburger+
    ultimately show thesis using that(1) unfolding sextets_def pads_def base64_encoded_len_def by metis
  next
    case 2
    moreover have "(8 * (3 * q + 1) + 5) div 6 = 4 * q + 2" "2 * (3 * q + 1) mod 3 = 2"
      "(3 * q + 1 + 3 - 1) div 3 * 4 = 4 * q + 4" by presburger+
    ultimately show thesis using that(2) unfolding sextets_def pads_def base64_encoded_len_def by metis
  next
    case 3
    moreover have "(8 * (3 * q + 2) + 5) div 6 = 4 * q + 3" "2 * (3 * q + 2) mod 3 = 1"
      "(3 * q + 2 + 3 - 1) div 3 * 4 = 4 * q + 4" by presburger+
    ultimately show thesis using that(3) unfolding sextets_def pads_def base64_encoded_len_def by metis
  qed
qed

lemma sextets_pads: "6 * sextets raw = 8 * length raw + 2 * pads raw" "pads raw \<le> 2"
  "pads raw = 2 \<and> sextets raw mod 4 = 2 \<or> pads raw = 1 \<and> sextets raw mod 4 = 3 \<or> pads raw = 0 \<and> sextets raw mod 4 = 0"
  "sextets raw + pads raw = base64_encoded_len (length raw)"
  by (cases rule: sextets_cases [of raw]; simp; presburger?)+

lemma put_sputc: "put = printf_sputc"
  by (rule ext)+ (simp add: put_def printf_sputc_def)

lemma cputchars_append:
  "cputchars sz (s @ t) i buf = (case cputchars sz s i buf of (buf, i) \<Rightarrow> cputchars sz t i buf)"
  by (induction s arbitrary: i buf) auto

lemma encoded_from_step: "i < sextets raw \<Longrightarrow>
    encoded_from raw i = base64 ! base64_sextet raw (6 * i) # encoded_from raw (Suc i)"
  by (simp add: encoded_from_def upt_conv_Cons)

text \<open>The bit count after a number of characters.\<close>

definition bitpos :: "nat \<Rightarrow> u32" where
  "bitpos i = of_nat (6 * i)"

lemma bitpos_simps: "bitpos 0 = 0" "bitpos i + 6 = bitpos (Suc i)"
  by (simp_all add: bitpos_def algebra_simps)

lemma unat_bitpos: "6 * i < 2 ^ 32 \<Longrightarrow> unat (bitpos i) = 6 * i"
  unfolding bitpos_def unat_of_nat by simp

lemma word_mod_8: "w mod 8 = 0 \<longleftrightarrow> unat w mod 8 = 0" for w :: u32
  by (simp add: word_unat_eq_iff unat_mod del: mod_eq_0_iff_dvd)

lemma bitpos_bound: "8 * length raw < 2 ^ 31 \<Longrightarrow> i \<le> sextets raw + pads raw \<Longrightarrow> unat (bitpos i) = 6 * i"
  using sextets_pads(1,2) [of raw] by (intro unat_bitpos) simp

lemma base64_encode_loop_eq:
  assumes "8 * length raw < 2 ^ 31" and "i \<le> sextets raw"
  shows "base64_encode_loop raw (bitpos i) i len buf =
    Some (fst (cputchars len (encoded_from raw i) i buf), bitpos (sextets raw), sextets raw)"
  using assms(2)
proof (induction "sextets raw - i" arbitrary: i buf)
  case 0
  then have "i = sextets raw" by simp
  moreover have "\<not> 6 * sextets raw < 8 * length raw" using sextets_pads(1) [of raw] by simp
  ultimately show ?case
    using bitpos_bound [OF assms(1), of "sextets raw"]
    by (subst base64_encode_loop.simps) (simp add: encoded_from_def)
next
  case (Suc x)
  then have i: "i < sextets raw" by simp
  then have "6 * i < 8 * length raw" unfolding sextets_def by linarith
  then show ?case
    using Suc.hyps(1) [of "Suc i" "put len i (base64 ! base64_sextet raw (6 * i)) buf"] Suc.hyps(2) i
      bitpos_bound [OF assms(1), of i]
    by (subst base64_encode_loop.simps) (simp add: encoded_from_step put_sputc bitpos_simps)
qed

lemma pad_positions:
  assumes "i < pads raw"
  shows "6 * (sextets raw + i) mod 8 \<noteq> 0"
proof -
  have "(sextets raw + i) mod 4 \<noteq> 0"
    using sextets_pads(3) [of raw] assms by presburger
  then show ?thesis by presburger
qed

lemma base64_pad_loop_eq:
  assumes "8 * length raw < 2 ^ 31" and "i \<le> pads raw"
  shows "base64_pad_loop (bitpos (sextets raw + i)) (sextets raw + i) len buf =
    Some (cputchars len (replicate (pads raw - i) 0x3d) (sextets raw + i) buf)"
  using assms(2)
proof (induction "pads raw - i" arbitrary: i buf)
  case 0
  have "6 * (sextets raw + pads raw) mod 8 = 0" using sextets_pads(1) [of raw] by presburger
  then show ?case
    using 0 bitpos_bound [OF assms(1), of "sextets raw + i"]
    by (subst base64_pad_loop.simps) (simp add: word_mod_8 del: mod_eq_0_iff_dvd)
next
  case (Suc x)
  then have i: "i < pads raw" by simp
  then have r: "replicate (pads raw - i) (0x3d :: u8) = 0x3d # replicate (pads raw - Suc i) 0x3d"
    by (metis Suc_diff_Suc replicate_Suc)
  have nz: "bitpos (sextets raw + i) mod 8 \<noteq> 0"
    using pad_positions [OF i] bitpos_bound [OF assms(1), of "sextets raw + i"] i by (simp only: word_mod_8) simp
  then show ?case
    using Suc.hyps(1) [of "Suc i" "put len (sextets raw + i) 0x3d buf"] Suc.hyps(2) i
    by (subst base64_pad_loop.simps) (simp add: r put_sputc bitpos_simps)
qed

lemma length_encoded: "length (encoded_from raw 0) = sextets raw"
  "length (base64_string raw) = base64_encoded_len (length raw)"
proof -
  show 1: "length (encoded_from raw 0) = sextets raw" by (simp add: encoded_from_def)
  show "length (base64_string raw) = base64_encoded_len (length raw)"
    using sextets_pads(4) [of raw] by (simp add: base64_string_def 1)
qed

lemma base64_encode_eq:
  assumes "len \<le> length buf" and "8 * length raw < 2 ^ 31" and "length (base64_string raw) < len"
  obtains rest where "base64_encode raw buf len = Some (base64_string raw @ 0 # rest, length (base64_string raw))"
    "length (base64_string raw @ 0 # rest) = length buf"
proof -
  let ?s = "base64_string raw" and ?n = "length (base64_string raw)"
  have c: "cputchars len ?s 0 buf = (?s @ drop ?n buf, ?n)" using assms(1,3) by (intro cputchars_all) simp_all
  have loop: "base64_encode_loop raw 0 0 len buf =
      Some (fst (cputchars len (encoded_from raw 0) 0 buf), bitpos (sextets raw), sextets raw)"
    using base64_encode_loop_eq [OF assms(2), of 0] by (simp add: bitpos_simps)
  obtain b where b: "cputchars len (encoded_from raw 0) 0 buf = (b, sextets raw)"
    using cputchars_count [of len "encoded_from raw 0" 0 buf] length_encoded(1) by (metis add_0 prod.collapse)
  then have "base64_pad_loop (bitpos (sextets raw)) (sextets raw) len b = Some (cputchars len ?s 0 buf)"
    using base64_pad_loop_eq [OF assms(2), of 0] by (simp add: base64_string_def cputchars_append)
  then have e: "base64_encode raw buf len = Some ((?s @ 0 # drop (Suc ?n) buf)[len - 1 := 0], ?n)"
    using loop b c assms(1,3) by (simp add: base64_encode_def Let_def put_def list_update_append
        Cons_nth_drop_Suc [symmetric])
  show thesis
  proof (cases "len - 1 = ?n")
    case True
    with e show thesis using that [of "drop (Suc ?n) buf"] assms(1,3) by (simp add: list_update_append)
  next
    case False
    then have "?n < len - 1" using assms(3) by linarith
    then obtain k where "len - 1 = ?n + Suc k" by (metis less_imp_Suc_add add_Suc_right)
    with e show thesis using that [of "(drop (Suc ?n) buf)[k := 0]"] assms(1,3) by (simp add: list_update_append)
  qed
qed

section \<open>The decoder\<close>

text \<open>Adding the six bits of one character at a position.\<close>

definition add_sextet :: "nat \<Rightarrow> nat \<Rightarrow> nat \<Rightarrow> bytes \<Rightarrow> bytes" where
  "add_sextet len i v out =
     or_at len (6 * i div 8 + 1) (push_bit (8 - 6 * i mod 8) (push_bit 2 (of_nat v)))
       (or_at len (6 * i div 8) (drop_bit (6 * i mod 8) (push_bit 2 (of_nat v))) out)"

lemma length_or_at [simp]: "length (or_at len i v out) = length out"
  by (simp add: or_at_def)

lemma or_at_bit:
  assumes "len \<le> length out" and "B < len" and "r < 8"
  shows "bit (or_at len i v out ! B) r \<longleftrightarrow> bit (out ! B) r \<or> B = i \<and> bit v r"
  using assms by (auto simp: or_at_def nth_list_update bit_simps)

lemma sextet_word_bit: "v < 64 \<Longrightarrow> bit (push_bit 2 (of_nat v) :: u32) r \<longleftrightarrow> 2 \<le> r \<and> r < 8 \<and> bit v (r - 2)"
proof -
  assume v: "v < 64"
  have "v = take_bit 6 v" using v by (simp add: take_bit_nat_eq_self)
  then have "bit v (r - 2) \<longleftrightarrow> r - 2 < 6 \<and> bit v (r - 2)" by (metis bit_take_bit_iff)
  then show "bit (push_bit 2 (of_nat v) :: u32) r \<longleftrightarrow> 2 \<le> r \<and> r < 8 \<and> bit v (r - 2)"
    by (auto simp: bit_simps)
qed

lemma add_sextet_bit:
  assumes "len \<le> length out" and "t < 8 * len" and "v < 64"
  shows "stream_bit (add_sextet len i v out) t \<longleftrightarrow> stream_bit out t \<or> (6 * i \<le> t \<and> t < 6 * i + 6 \<and> bit v (6 * i + 5 - t))"
proof -
  define B r off sh where d: "B = t div 8" "r = 7 - t mod 8" "off = 6 * i div 8" "sh = 6 * i mod 8"
  have t: "t = 8 * B + (7 - r)" "r < 8" "B < len" using assms(2) by (auto simp: d)
  have i: "6 * i = 8 * off + sh" "sh < 8" unfolding d by (simp_all only: mult_div_mod_eq mod_less_divisor zero_less_numeral)
  have "bit (add_sextet len i v out ! B) r \<longleftrightarrow> bit (out ! B) r
      \<or> B = off \<and> bit (drop_bit sh (push_bit 2 (of_nat v) :: u32)) r
      \<or> B = off + 1 \<and> bit (push_bit (8 - sh) (push_bit 2 (of_nat v) :: u32)) r"
    using t assms(1) unfolding add_sextet_def d(3,4) [symmetric] by (auto simp: or_at_bit)
  also have "bit (drop_bit sh (push_bit 2 (of_nat v) :: u32)) r \<longleftrightarrow> 2 \<le> sh + r \<and> sh + r < 8 \<and> bit v (sh + r - 2)"
    by (simp only: bit_drop_bit_eq o_apply sextet_word_bit [OF assms(3)])
  also have "bit (push_bit (8 - sh) (push_bit 2 (of_nat v) :: u32)) r \<longleftrightarrow>
      8 - sh \<le> r \<and> 2 \<le> r - (8 - sh) \<and> r - (8 - sh) < 8 \<and> bit v (r - (8 - sh) - 2)"
    using t(2) by (simp only: bit_push_bit_iff sextet_word_bit [OF assms(3)]) (auto simp: bit_simps)
  finally have "bit (add_sextet len i v out ! B) r \<longleftrightarrow> bit (out ! B) r
      \<or> B = off \<and> 2 \<le> sh + r \<and> sh + r < 8 \<and> bit v (sh + r - 2)
      \<or> B = off + 1 \<and> 8 - sh \<le> r \<and> 2 \<le> r - (8 - sh) \<and> r - (8 - sh) < 8 \<and> bit v (r - (8 - sh) - 2)" .
  moreover have "stream_bit out t = bit (out ! B) r" "stream_bit (add_sextet len i v out) t = bit (add_sextet len i v out ! B) r"
    using t(3) assms(1) by (auto simp: stream_bit_def d add_sextet_def)
  moreover have "(B = off \<and> 2 \<le> sh + r \<and> sh + r < 8 \<and> bit v (sh + r - 2)
      \<or> B = off + 1 \<and> 8 - sh \<le> r \<and> 2 \<le> r - (8 - sh) \<and> r - (8 - sh) < 8 \<and> bit v (r - (8 - sh) - 2))
      \<longleftrightarrow> (6 * i \<le> t \<and> t < 6 * i + 6 \<and> bit v (6 * i + 5 - t))"
  proof -
    consider "B = off" | "B = off + 1" | "B < off" | "off + 1 < B" by linarith
    then show ?thesis
    proof cases
      case 1
      then have "6 * i \<le> t \<longleftrightarrow> sh + r < 8" "t < 6 * i + 6 \<longleftrightarrow> 2 \<le> sh + r" "6 * i + 5 - t = sh + r - 2"
        using t i by auto
      with 1 show ?thesis by auto
    next
      case 2
      then have "6 * i \<le> t" "t < 6 * i + 6 \<longleftrightarrow> 10 \<le> sh + r" "6 * i + 5 - t = sh + r - 10"
        using t i by auto
      moreover have "8 - sh \<le> r \<and> 2 \<le> r - (8 - sh) \<and> r - (8 - sh) < 8 \<longleftrightarrow> 10 \<le> sh + r"
        "r - (8 - sh) - 2 = sh + r - 10" using t i by auto
      ultimately show ?thesis using 2 by auto
    qed (use t i in auto)
  qed
  ultimately show ?thesis by blast
qed

text \<open>The output buffer once the first characters of the encoding of some data are decoded.\<close>

definition decoded :: "bytes \<Rightarrow> nat \<Rightarrow> bytes \<Rightarrow> nat \<Rightarrow> bytes \<Rightarrow> bool" where
  "decoded raw len rest i out \<longleftrightarrow> length out = len + length rest \<and> drop len out = rest
     \<and> (\<forall>t < 8 * len. stream_bit out t \<longleftrightarrow> t < 6 * i \<and> stream_bit raw t)"

lemma stream_bit_bound: "stream_bit raw t \<Longrightarrow> t < 8 * length raw"
  by (auto simp: stream_bit_def)

lemma decoded_0: "decoded raw len rest 0 (replicate len 0 @ rest)"
  by (auto simp: decoded_def stream_bit_def nth_append)

lemma decoded_Suc:
  assumes "decoded raw len rest i out" and "6 * i < 8 * length raw"
  shows "decoded raw len rest (Suc i) (add_sextet len i (base64_sextet raw (6 * i)) out)"
proof -
  let ?v = "base64_sextet raw (6 * i)"
  have len: "length out = len + length rest" "drop len out = rest" using assms(1) by (auto simp: decoded_def)
  have "stream_bit (add_sextet len i ?v out) t \<longleftrightarrow> t < 6 * Suc i \<and> stream_bit raw t" if t: "t < 8 * len" for t
  proof -
    have "bit ?v (6 * i + 5 - t) \<longleftrightarrow> stream_bit raw t" if "6 * i \<le> t" "t < 6 * i + 6"
      using that by (simp add: base64_sextet_bit [OF assms(2)]) arith
    moreover have "stream_bit out t \<longleftrightarrow> t < 6 * i \<and> stream_bit raw t" using assms(1) t by (simp add: decoded_def)
    ultimately show ?thesis using add_sextet_bit [OF _ t base64_sextet_less, of out i] len(1) by auto
  qed
  moreover have "drop len (add_sextet len i ?v out) = rest" using len(2) by (simp add: add_sextet_def or_at_def)
  ultimately show ?thesis using len(1) by (simp add: decoded_def add_sextet_def)
qed

lemma decoded_all:
  assumes "decoded raw len rest (sextets raw) out" and "length raw \<le> len"
  shows "out = raw @ replicate (len - length raw) 0 @ rest"
proof -
  have d: "length out = len + length rest" "drop len out = rest"
    "\<And>t. t < 8 * len \<Longrightarrow> stream_bit out t \<longleftrightarrow> t < 6 * sextets raw \<and> stream_bit raw t"
    using assms(1) by (auto simp: decoded_def)
  have "take len out = raw @ replicate (len - length raw) 0"
  proof (rule stream_bit_eqI)
    fix t assume "t < 8 * length (take len out)"
    then have t: "t < 8 * len" "t div 8 < len" using d(1) by auto
    have "stream_bit (take len out) t = stream_bit out t" using t d(1) by (simp add: stream_bit_def)
    also have "\<dots> = stream_bit raw t"
      using d(3) [OF t(1)] stream_bit_bound [of raw t] sextets_pads(1) [of raw] by linarith
    also have "\<dots> = stream_bit (raw @ replicate (len - length raw) 0) t"
      using t(2) by (auto simp: stream_bit_def nth_append)
    finally show "stream_bit (take len out) t = stream_bit (raw @ replicate (len - length raw) 0) t" .
  qed (use d assms(2) in simp)
  with d(2) show ?thesis by (metis append_assoc append_take_drop_id)
qed

lemma base64_decode_loop_eq:
  assumes "8 * length raw < 2 ^ 31" and "i \<le> sextets raw" and "decoded raw len rest i out"
  obtains out' where "base64_decode_loop (encoded_from raw i @ cs) (bitpos i) 0 out len =
      base64_decode_loop cs (bitpos (sextets raw)) 0 out' len" "decoded raw len rest (sextets raw) out'"
  using assms(2,3)
proof (induction "sextets raw - i" arbitrary: i out thesis)
  case 0
  then show ?case by (simp add: encoded_from_def)
next
  case (Suc x)
  then have i: "i < sextets raw" by simp
  then have "6 * i < 8 * length raw" unfolding sextets_def by linarith
  note dec = decoded_Suc [OF Suc.prems(3) this]
  have "unat (bitpos i) = 6 * i" using bitpos_bound [OF assms(1), of i] i by simp
  then have "unat (bitpos i mod 8) = 6 * i mod 8" "unat (bitpos i div 8) = 6 * i div 8"
    by (simp_all add: unat_mod unat_div)
  then have "base64_decode_loop (encoded_from raw i @ cs) (bitpos i) 0 out len =
      base64_decode_loop (encoded_from raw (Suc i) @ cs) (bitpos (Suc i)) 0 (add_sextet len i (base64_sextet raw (6 * i)) out) len"
    using base64_char [OF base64_sextet_less, of raw "6 * i"]
    by (simp add: encoded_from_step [OF i] Let_def add_sextet_def bitpos_simps)
  with Suc.hyps(1) [OF _ Suc.prems(1) _ dec] Suc.hyps(2) i show ?case by simp
qed

lemma base64_decode_pads:
  "n \<le> 2 \<Longrightarrow> base64_decode_loop (replicate n 0x3d) pos 0 out len = Inr (out, pos - of_nat (2 * n))"
proof -
  assume "n \<le> 2"
  then consider "n = 0" | "n = 1" | "n = Suc 1" by linarith
  then show ?thesis by cases (simp_all add: isspace_def)
qed

lemma base64_decode_string:
  assumes "8 * length raw < 2 ^ 31" and "length raw \<le> m" and "m \<le> length out"
  shows "base64_decode (base64_string raw) out m = Inr (raw @ replicate (m - length raw) 0 @ drop m out, length raw)"
proof -
  obtain out' where o: "base64_decode_loop (encoded_from raw 0 @ replicate (pads raw) 0x3d) (bitpos 0) 0
      (replicate m 0 @ drop m out) m = base64_decode_loop (replicate (pads raw) 0x3d) (bitpos (sextets raw)) 0 out' m"
    "decoded raw m (drop m out) (sextets raw) out'"
    using base64_decode_loop_eq [OF assms(1) le0 decoded_0] by blast
  have "bitpos (sextets raw) - of_nat (2 * pads raw) = of_nat (8 * length raw)"
    unfolding bitpos_def sextets_pads(1) by simp
  then have l: "base64_decode_loop (base64_string raw) 0 0 (replicate m 0 @ drop m out) m =
      Inr (raw @ replicate (m - length raw) 0 @ drop m out, of_nat (8 * length raw))"
    using o(1) decoded_all [OF o(2) assms(2)] base64_decode_pads [OF sextets_pads(2)]
    by (simp only: base64_string_def bitpos_simps)
  have u: "unat (of_nat (8 * length raw) :: u32) = 8 * length raw"
    using assms(1) by (simp only: unat_of_nat) simp
  then have "(of_nat (8 * length raw) :: u32) mod 8 = 0" by (simp only: word_mod_8) simp
  moreover have "unat ((of_nat (8 * length raw) :: u32) div 8) = length raw" by (simp only: unat_div u) simp
  ultimately show ?thesis using l by (simp only: base64_decode_def) simp
qed

text \<open>
  Claim C36. Base64 round trip: for any data of less than 256 MB and an output buffer with room
  for the encoded length plus a NUL, base64_encode() terminates, returns exactly
  base64_encoded_len() and leaves a NUL after that many characters; base64_decode() of the string
  it wrote, into any buffer at least as long as the data, succeeds, returns the length of the
  data, restores the data byte for byte, zeroes the rest of its buffer and touches nothing
  beyond it.
\<close>

theorem base64_roundtrip:
  assumes "len \<le> length buf" and "base64_encoded_len (length raw) < len" and "8 * length raw < 2 ^ 31"
    and "length raw \<le> m" and "m \<le> length out"
  shows "\<exists>buf' n. base64_encode raw buf len = Some (buf', n) \<and> n = base64_encoded_len (length raw)
    \<and> length buf' = length buf \<and> buf' ! n = 0
    \<and> base64_decode (take n buf') out m = Inr (raw @ replicate (m - length raw) 0 @ drop m out, length raw)"
proof -
  obtain rest where "base64_encode raw buf len = Some (base64_string raw @ 0 # rest, length (base64_string raw))"
    "length (base64_string raw @ 0 # rest) = length buf"
    using base64_encode_eq [OF assms(1,3)] assms(2) length_encoded(2) [of raw] by metis
  then show ?thesis
    using base64_decode_string [OF assms(3-5)] length_encoded(2) [of raw]
    by (intro exI [of _ "base64_string raw @ 0 # rest"] exI [of _ "length (base64_string raw)"])
      (simp add: nth_append)
qed

theorem base64_roundtrip_witness:
  "\<exists>buf' n. base64_encode (str ''iPXE'') (replicate 12 7) 12 = Some (buf', n) \<and> n = 8
    \<and> base64_decode (take n buf') (replicate 6 9) 5 = Inr (str ''iPXE'' @ [0, 9], 4)"
proof -
  have l: "length (str ''iPXE'') = 4" "base64_encoded_len 4 = 8" by (simp_all add: str_def base64_encoded_len_def)
  note r = base64_roundtrip [of 12 "replicate 12 7" "str ''iPXE''" 5 "replicate 6 9", unfolded l, simplified]
  have "drop 5 (replicate 6 9) = [9 :: u8]" by code_simp
  with r show ?thesis by (elim ex_forward) auto
qed

end
