(* ===== verification/Utf8.thy ===== *)
theory Utf8
  imports Prelude
begin

text \<open>
  The UTF-8 decoder of core/utf8.c: an accumulator that is fed one byte at a time and returns
  zero until a character is complete. The lemmas compare it with the encoding of a character as
  a leading byte and continuation bytes of six bits each.
\<close>

section \<open>The accumulator\<close>

definition UTF8_MAX_LEN :: nat where "UTF8_MAX_LEN = 4"
definition UTF8_MIN_TWO :: u32 where "UTF8_MIN_TWO = 0x80"
definition UTF8_MIN_THREE :: u32 where "UTF8_MIN_THREE = 0x800"
definition UTF8_MIN_FOUR :: u32 where "UTF8_MIN_FOUR = 0x10000"
definition UTF8_HIGH_BIT :: u8 where "UTF8_HIGH_BIT = 0x80"
definition UTF8_CONTINUATION_BITS :: nat where "UTF8_CONTINUATION_BITS = 6"
definition UTF8_CONTINUATION_MASK :: u8 where
  "UTF8_CONTINUATION_MASK = push_bit UTF8_CONTINUATION_BITS 1 - 1"
definition UTF8_CONTINUATION :: u8 where "UTF8_CONTINUATION = 0x80"
definition UTF8_INVALID :: u32 where "UTF8_INVALID = 0xfffd"

definition UTF8_IS_CONTINUATION :: "u8 \<Rightarrow> bool" where
  "UTF8_IS_CONTINUATION byte \<longleftrightarrow> byte AND NOT UTF8_CONTINUATION_MASK = UTF8_CONTINUATION"

definition UTF8_IS_ASCII :: "u8 \<Rightarrow> bool" where
  "UTF8_IS_ASCII byte \<longleftrightarrow> byte AND UTF8_HIGH_BIT = 0"

lemmas utf8_consts = UTF8_MAX_LEN_def UTF8_MIN_TWO_def UTF8_MIN_THREE_def UTF8_MIN_FOUR_def
  UTF8_HIGH_BIT_def UTF8_CONTINUATION_BITS_def UTF8_CONTINUATION_MASK_def UTF8_CONTINUATION_def
  UTF8_IS_CONTINUATION_def UTF8_IS_ASCII_def

record utf8_accumulator =
  character :: u32
  remaining :: u32
  min_legal :: u32

text \<open>Counting the leading one bits of the first byte of a sequence.\<close>

lemma shift_out_less: "bit w 7 \<Longrightarrow> card (Collect (bit (push_bit 1 w))) < card (Collect (bit w))" for w :: u8
proof -
  assume "bit w 7"
  have fin: "finite (Collect (bit w))" by (rule finite_subset [of _ "{..<8}"]) (auto dest: bit_imp_le_length)
  have "Collect (bit (push_bit 1 w)) \<subseteq> Suc ` (Collect (bit w) - {7})"
  proof
    fix i assume "i \<in> Collect (bit (push_bit 1 w))"
    then have "1 \<le> i" "i < 8" "bit w (i - 1)" by (simp_all only: mem_Collect_eq bit_push_bit_iff) auto
    then show "i \<in> Suc ` (Collect (bit w) - {7})" by (intro image_eqI [of _ _ "i - 1"]) auto
  qed
  then have "card (Collect (bit (push_bit 1 w))) \<le> card (Collect (bit w) - {7})"
    using fin by (metis card_image card_mono finite_Diff finite_imageI inj_Suc)
  also have "\<dots> < card (Collect (bit w))" using fin \<open>bit w 7\<close> by (intro card_Diff1_less) auto
  finally show ?thesis .
qed

function utf8_count :: "u8 \<Rightarrow> nat \<Rightarrow> u8 \<times> nat" where
  "utf8_count tmp len = (if tmp AND UTF8_HIGH_BIT \<noteq> 0 then utf8_count (push_bit 1 tmp) (len + 1) else (tmp, len))"
  by pat_completeness auto
termination
proof (relation "measure (\<lambda>(tmp, len). card (Collect (bit tmp)))")
  fix tmp :: u8 and len :: nat
  assume "tmp AND UTF8_HIGH_BIT \<noteq> 0"
  then obtain i where "bit (tmp AND UTF8_HIGH_BIT) i" by (auto simp: bit_eq_iff)
  moreover have "bit UTF8_HIGH_BIT i \<Longrightarrow> i = 7"
    using bit_exp_iff [of 7 i, where 'a = u8] by (simp add: UTF8_HIGH_BIT_def)
  ultimately have "bit tmp 7" by (auto simp: bit_and_iff)
  then show "((push_bit 1 tmp, len + 1), tmp, len) \<in> measure (\<lambda>(tmp, len). card (Collect (bit tmp)))"
    using shift_out_less [of tmp] by simp
qed simp

declare utf8_count.simps [simp del]

text \<open>The table \<open>min\<close> indexed by the number of continuation bytes less one.\<close>

definition utf8_min :: "u32 list" where
  "utf8_min = [UTF8_MIN_TWO, UTF8_MIN_THREE, UTF8_MIN_FOUR]"

definition utf8_accumulate :: "utf8_accumulator \<Rightarrow> u8 \<Rightarrow> utf8_accumulator \<times> u32" where
  "utf8_accumulate u byte =
     (if UTF8_IS_CONTINUATION byte then
        (if remaining u = 0 then (u, UTF8_INVALID)
         else
           let u = u\<lparr>character := push_bit UTF8_CONTINUATION_BITS (character u)
                       OR ucast (byte AND UTF8_CONTINUATION_MASK)\<rparr>;
               u = u\<lparr>remaining := remaining u - 1\<rparr>
           in if remaining u \<noteq> 0 then (u, 0)
              else if character u < min_legal u then (u, UTF8_INVALID)
              else (u, character u))
      else
        let u = u\<lparr>remaining := 0\<rparr>
        in if \<not> UTF8_IS_ASCII byte then
             (case utf8_count byte 0 of (tmp, len) \<Rightarrow>
                if len > UTF8_MAX_LEN then (u, UTF8_INVALID)
                else (\<lparr>character = ucast (drop_bit len tmp), remaining = of_nat (len - 1),
                       min_legal = utf8_min ! (len - 2)\<rparr>, 0))
           else (u, ucast byte))"

text \<open>Feeding a sequence of bytes: the results that are not zero, in order.\<close>

fun utf8_feed :: "utf8_accumulator \<Rightarrow> bytes \<Rightarrow> utf8_accumulator \<times> u32 list" where
  "utf8_feed u [] = (u, [])"
| "utf8_feed u (b # bs) =
     (case utf8_accumulate u b of (u, c) \<Rightarrow>
      case utf8_feed u bs of (u, cs) \<Rightarrow> (u, if c = 0 then cs else c # cs))"

section \<open>The encoding\<close>

text \<open>The continuation bytes of the low bits of a number, and its encoding in a number of bytes.\<close>

fun continuation :: "nat \<Rightarrow> nat \<Rightarrow> bytes" where
  "continuation 0 c = []"
| "continuation (Suc k) c = continuation k (c div 64) @ [0x80 + of_nat (c mod 64)]"

definition utf8_sequence :: "nat \<Rightarrow> nat \<Rightarrow> bytes" where
  "utf8_sequence n c =
     (if n = 1 then [of_nat c]
      else (of_nat (256 - 2 ^ (8 - n)) + of_nat (c div 64 ^ (n - 1))) # continuation (n - 1) c)"

definition utf8_capacity :: "nat \<Rightarrow> nat" where
  "utf8_capacity n = (if n = 1 then 2 ^ 7 else 2 ^ (5 * n + 1))"

definition utf8_length :: "nat \<Rightarrow> nat" where
  "utf8_length c = (if c < 0x80 then 1 else if c < 0x800 then 2 else if c < 0x10000 then 3 else 4)"

definition utf8_encode :: "nat \<Rightarrow> bytes" where
  "utf8_encode c = utf8_sequence (utf8_length c) c"

section \<open>Decoding an encoding\<close>

lemma accumulate_bits:
  assumes "unat w < 2 ^ 26" and "y < 64"
  shows "push_bit 6 w OR ucast ((0x80 + of_nat y :: u8) AND UTF8_CONTINUATION_MASK) = 64 * w + (of_nat y :: u32)"
proof -
  have "(0x80 + of_nat y :: u8) AND UTF8_CONTINUATION_MASK = of_nat y"
  proof -
    have "\<forall>y \<in> set [0..<64]. (0x80 + of_nat y :: u8) AND UTF8_CONTINUATION_MASK = of_nat y" by code_simp
    with assms(2) show ?thesis by simp
  qed
  moreover have "ucast (of_nat y :: u8) = (of_nat y :: u32)"
    using assms(2) by (intro word_unat_eq_iff [THEN iffD2]) (simp add: unat_ucast_up unat_of_nat)
  moreover have "push_bit 6 w OR of_nat y = push_bit 6 w + of_nat y"
  proof (rule disjunctive_add_eq_or [symmetric])
    have "(of_nat y :: u32) = take_bit 6 (of_nat y)"
      using assms(2) by (intro word_unat_eq_iff [THEN iffD2]) (simp add: unat_take_bit unat_of_nat)
    moreover have "push_bit 6 w AND take_bit 6 v = 0" for v :: u32
      by (rule bit_eqI) (simp add: bit_and_iff bit_push_bit_iff bit_take_bit_iff)
    ultimately show "push_bit 6 w AND of_nat y = 0" by metis
  qed
  ultimately show ?thesis by (simp add: push_bit_eq_mult mult.commute)
qed

lemma continuation_byte: "y < 64 \<Longrightarrow> UTF8_IS_CONTINUATION (0x80 + of_nat y)"
proof -
  assume "y < 64"
  moreover have "\<forall>y \<in> set [0..<64]. UTF8_IS_CONTINUATION (0x80 + of_nat y)" by code_simp
  ultimately show ?thesis by simp
qed

lemma accumulate_continuation:
  assumes "X < 2 ^ 26" and "y < 64" and "r < 8"
  shows "utf8_accumulate (u\<lparr>character := of_nat X, remaining := of_nat (Suc (Suc r))\<rparr>) (0x80 + of_nat y) =
      (u\<lparr>character := of_nat (64 * X + y), remaining := of_nat (Suc r)\<rparr>, 0)"
    (is ?more)
    and "utf8_accumulate (u\<lparr>character := of_nat X, remaining := 1\<rparr>) (0x80 + of_nat y) =
      (u\<lparr>character := of_nat (64 * X + y), remaining := 0\<rparr>,
       if of_nat (64 * X + y) < min_legal u then UTF8_INVALID else of_nat (64 * X + y))" (is ?last)
proof -
  have "unat (of_nat X :: u32) < 2 ^ 26" using assms(1) by (simp add: unat_of_nat)
  note bits = accumulate_bits [OF this assms(2)]
  have nz: "of_nat (Suc (Suc r)) \<noteq> (0 :: u32)" "of_nat (Suc r) \<noteq> (0 :: u32)"
    using assms(3) word_of_nat_eq_0_iff [where 'a = 32] by (auto simp del: of_nat_Suc dest!: dvd_imp_le)
  have dec: "of_nat (Suc (Suc r)) - 1 = (of_nat (Suc r) :: u32)" by simp
  show ?more
    using nz by (simp only: utf8_accumulate_def continuation_byte [OF assms(2)] Let_def UTF8_CONTINUATION_BITS_def
        utf8_accumulator.simps dec) (simp add: bits)
  show ?last
    by (simp only: utf8_accumulate_def continuation_byte [OF assms(2)] Let_def UTF8_CONTINUATION_BITS_def
        utf8_accumulator.simps) (simp add: bits)
qed

lemma utf8_feed_append:
  "utf8_feed u (a @ b) = (case utf8_feed u a of (u, cs) \<Rightarrow> case utf8_feed u b of (u, ds) \<Rightarrow> (u, cs @ ds))"
  by (induction a arbitrary: u) (auto split: prod.splits)

lemma feed_partial:
  assumes "X * 64 ^ j + c mod 64 ^ j < 2 ^ 26" and "j + r < 8"
  shows "utf8_feed (u\<lparr>character := of_nat X, remaining := of_nat (Suc (j + r))\<rparr>) (continuation j c) =
    (u\<lparr>character := of_nat (X * 64 ^ j + c mod 64 ^ j), remaining := of_nat (Suc r)\<rparr>, [])"
  using assms
proof (induction j arbitrary: c r)
  case 0
  then show ?case by simp
next
  case (Suc j)
  let ?Y = "X * 64 ^ j + c div 64 mod 64 ^ j"
  have v: "64 * ?Y + c mod 64 = X * 64 ^ Suc j + c mod 64 ^ Suc j"
    by (simp add: mod_mult2_eq algebra_simps)
  moreover have "?Y \<le> 64 * ?Y + c mod 64" by simp
  ultimately have Y: "?Y < 2 ^ 26" using Suc.prems(1) by (simp only:)
  have "utf8_feed (u\<lparr>character := of_nat X, remaining := of_nat (Suc (j + Suc r))\<rparr>) (continuation j (c div 64)) =
    (u\<lparr>character := of_nat ?Y, remaining := of_nat (Suc (Suc r))\<rparr>, [])"
    using Suc.IH [of "c div 64" "Suc r"] Y Suc.prems(2) by simp
  moreover have "utf8_accumulate (u\<lparr>character := of_nat ?Y, remaining := of_nat (Suc (Suc r))\<rparr>) (0x80 + of_nat (c mod 64)) =
      (u\<lparr>character := of_nat (64 * ?Y + c mod 64), remaining := of_nat (Suc r)\<rparr>, 0)"
    using Y Suc.prems(2) by (intro accumulate_continuation(1)) auto
  ultimately show ?case
    by (simp only: v continuation.simps utf8_feed_append add_Suc_shift utf8_feed.simps prod.case) simp
qed

lemma lead_byte:
  assumes "n \<in> {2, 3, 4}" and "v < 2 ^ (7 - n)"
  shows "utf8_accumulate u (of_nat (256 - 2 ^ (8 - n)) + of_nat v) =
    (\<lparr>character = of_nat v, remaining = of_nat (n - 1), min_legal = utf8_min ! (n - 2)\<rparr>, 0)"
proof -
  let ?b = "\<lambda>n v. of_nat (256 - 2 ^ (8 - n)) + of_nat v :: u8"
  have "\<forall>n \<in> set [2, 3, 4]. \<forall>v \<in> set [0..<2 ^ (7 - n)]. \<not> UTF8_IS_CONTINUATION (?b n v) \<and> \<not> UTF8_IS_ASCII (?b n v)
      \<and> snd (utf8_count (?b n v) 0) = n \<and> ucast (drop_bit n (fst (utf8_count (?b n v) 0))) = (of_nat v :: u32)"
    by code_simp
  moreover have "n \<in> set [2, 3, 4]" "v \<in> set [0..<2 ^ (7 - n)]" using assms by simp_all
  ultimately have "\<not> UTF8_IS_CONTINUATION (?b n v) \<and> \<not> UTF8_IS_ASCII (?b n v)
      \<and> snd (utf8_count (?b n v) 0) = n \<and> ucast (drop_bit n (fst (utf8_count (?b n v) 0))) = (of_nat v :: u32)"
    by blast
  moreover have "n \<le> 4" using assms(1) by auto
  ultimately show ?thesis
    by (simp only: utf8_accumulate_def Let_def UTF8_MAX_LEN_def case_prod_unfold) simp
qed

text \<open>A sequence of two to four bytes, whether or not it is the shortest for its character.\<close>

lemma feed_sequence:
  assumes n: "n \<in> {2, 3, 4}" and c: "c < utf8_capacity n"
  obtains u' where "utf8_feed u (utf8_sequence n c) =
      (u', [if (of_nat c :: u32) < utf8_min ! (n - 2) then UTF8_INVALID else of_nat c])"
proof -
  obtain k where k: "n = Suc (Suc k)" "k < 3" using n by auto
  define X where "X = c div 64 ^ Suc k"
  have cap: "c < 2 ^ (6 - Suc k) * 64 ^ Suc k" "c < 2 ^ 26"
    using c n k(1) by (auto simp: utf8_capacity_def)
  then have X: "X < 2 ^ (7 - n)" unfolding X_def k(1) by (simp add: less_mult_imp_div_less)
  let ?u = "\<lparr>character = of_nat X, remaining = of_nat (Suc k), min_legal = utf8_min ! k\<rparr>"
  have lead: "utf8_accumulate u (of_nat (256 - 2 ^ (8 - n)) + of_nat X) = (?u, 0)"
    using lead_byte [OF n X] by (simp add: k(1))
  let ?Y = "X * 64 ^ k + c div 64 mod 64 ^ k"
  have Y: "?Y = c div 64"
    unfolding X_def by (simp only: power_Suc div_mult2_eq div_mult_mod_eq)
  have part: "utf8_feed ?u (continuation k (c div 64)) = (?u\<lparr>character := of_nat (c div 64), remaining := 1\<rparr>, [])"
    using feed_partial [of X k "c div 64" 0 ?u] Y cap(2) k(2) by simp
  have "utf8_accumulate (?u\<lparr>character := of_nat (c div 64), remaining := 1\<rparr>) (0x80 + of_nat (c mod 64)) =
      (?u\<lparr>character := of_nat (64 * (c div 64) + c mod 64), remaining := 0\<rparr>,
       if of_nat (64 * (c div 64) + c mod 64) < min_legal ?u then UTF8_INVALID else of_nat (64 * (c div 64) + c mod 64))"
    using cap(2) by (intro accumulate_continuation(2) [of _ _ 0]) auto
  then have last: "utf8_accumulate (?u\<lparr>character := of_nat (c div 64), remaining := 1\<rparr>) (0x80 + of_nat (c mod 64)) =
      (?u\<lparr>character := of_nat c, remaining := 0\<rparr>, if of_nat c < utf8_min ! k then UTF8_INVALID else of_nat c)"
    by (simp only: mult_div_mod_eq utf8_accumulator.simps)
  have nz: "(if (of_nat c :: u32) < utf8_min ! k then UTF8_INVALID else of_nat c) \<noteq> 0"
  proof -
    have "k \<in> set [0, 1, 2]" using k(2) by auto
    moreover have "\<forall>k \<in> set [0, 1, 2]. 0 < utf8_min ! k" by code_simp
    ultimately have "0 < utf8_min ! k" by blast
    moreover have "UTF8_INVALID \<noteq> 0" by (simp add: UTF8_INVALID_def)
    ultimately show ?thesis by (metis)
  qed
  have "utf8_sequence n c = (of_nat (256 - 2 ^ (8 - n)) + of_nat X) # continuation k (c div 64) @ [0x80 + of_nat (c mod 64)]"
    by (simp add: utf8_sequence_def k(1) X_def)
  with lead part last nz show thesis
    by (intro that) (simp add: utf8_feed_append k(1))
qed

lemma feed_ascii:
  assumes "0 < c" and "c < 0x80"
  shows "utf8_feed u [of_nat c] = (u\<lparr>remaining := 0\<rparr>, [of_nat c])"
proof -
  have "\<forall>c \<in> set [1..<128]. \<not> UTF8_IS_CONTINUATION (of_nat c) \<and> UTF8_IS_ASCII (of_nat c)
      \<and> ucast (of_nat c :: u8) = (of_nat c :: u32) \<and> (of_nat c :: u32) \<noteq> 0" by code_simp
  moreover have "c \<in> set [1..<128]" using assms by simp
  ultimately have "\<not> UTF8_IS_CONTINUATION (of_nat c) \<and> UTF8_IS_ASCII (of_nat c)
      \<and> ucast (of_nat c :: u8) = (of_nat c :: u32) \<and> (of_nat c :: u32) \<noteq> 0" by blast
  then show ?thesis by (simp add: utf8_accumulate_def)
qed

lemma utf8_min_le:
  assumes "c < 2 ^ 31" and "k < 3"
  shows "(of_nat c :: u32) < utf8_min ! k \<longleftrightarrow> c < [0x80, 0x800, 0x10000] ! k"
proof -
  have "unat (of_nat c :: u32) = c" using assms(1) by (simp add: unat_of_nat)
  then show ?thesis using assms(2)
    by (auto simp: word_less_nat_alt utf8_min_def utf8_consts less_Suc_eq numeral_3_eq_3)
qed

lemma feed_encode:
  assumes "0 < c" and "c \<le> 0x10FFFF"
  obtains u' where "utf8_feed u (utf8_encode c) = (u', [of_nat c])"
proof (cases "c < 0x80")
  case True
  with feed_ascii [OF assms(1)] that show thesis
    by (auto simp: utf8_encode_def utf8_length_def utf8_sequence_def)
next
  case False
  let ?n = "utf8_length c"
  have n: "?n \<in> {2, 3, 4}" "c < utf8_capacity ?n" "\<not> c < [0x80, 0x800, 0x10000] ! (?n - 2)"
    using False assms(2) by (auto simp: utf8_length_def utf8_capacity_def)
  then have "\<not> (of_nat c :: u32) < utf8_min ! (?n - 2)"
    using utf8_min_le [of c "?n - 2"] assms(2) by auto
  moreover obtain u' where "utf8_feed u (utf8_sequence ?n c) =
      (u', [if (of_nat c :: u32) < utf8_min ! (?n - 2) then UTF8_INVALID else of_nat c])"
    by (rule feed_sequence [OF n(1,2)])
  ultimately show thesis using that unfolding utf8_encode_def by simp
qed

lemma feed_encodings:
  "\<forall>c \<in> set cs. 0 < c \<and> c \<le> 0x10FFFF \<Longrightarrow> snd (utf8_feed u (concat (map utf8_encode cs))) = map of_nat cs"
proof (induction cs arbitrary: u)
  case (Cons c cs)
  then obtain u' where "utf8_feed u (utf8_encode c) = (u', [of_nat c])" using feed_encode [of c u] by auto
  with Cons show ?case by (simp add: utf8_feed_append case_prod_unfold)
qed simp



end
