(* ===== verification/ByteOrder.thy ===== *)
theory ByteOrder
  imports Prelude
begin

text \<open>
  Byte order (include/byteswap.h) and words in the little-endian memory of x86\_64: loading a
  word from bytes and the bytes of a word that is stored.
\<close>

section \<open>Swapping\<close>

definition bswap_16 :: "u16 \<Rightarrow> u16" where
  "bswap_16 value = push_bit 8 (value AND 0x00ff) OR drop_bit 8 (value AND 0xff00)"

definition bswap_32 :: "u32 \<Rightarrow> u32" where
  "bswap_32 value =
     push_bit 24 (value AND 0x000000ff) OR push_bit 8 (value AND 0x0000ff00)
     OR drop_bit 8 (value AND 0x00ff0000) OR drop_bit 24 (value AND 0xff000000)"

definition bswap_64 :: "u64 \<Rightarrow> u64" where
  "bswap_64 value =
     push_bit 56 (value AND 0x00000000000000ff) OR push_bit 40 (value AND 0x000000000000ff00)
     OR push_bit 24 (value AND 0x0000000000ff0000) OR push_bit 8 (value AND 0x00000000ff000000)
     OR drop_bit 8 (value AND 0x000000ff00000000) OR drop_bit 24 (value AND 0x0000ff0000000000)
     OR drop_bit 40 (value AND 0x00ff000000000000) OR drop_bit 56 (value AND 0xff00000000000000)"

definition be16_to_cpu :: "u16 \<Rightarrow> u16" where "be16_to_cpu = bswap_16"
definition le16_to_cpu :: "u16 \<Rightarrow> u16" where "le16_to_cpu value = value"
definition be32_to_cpu :: "u32 \<Rightarrow> u32" where "be32_to_cpu = bswap_32"
definition cpu_to_be32 :: "u32 \<Rightarrow> u32" where "cpu_to_be32 = bswap_32"
definition le32_to_cpu :: "u32 \<Rightarrow> u32" where "le32_to_cpu value = value"
definition cpu_to_le32 :: "u32 \<Rightarrow> u32" where "cpu_to_le32 value = value"
definition be64_to_cpu :: "u64 \<Rightarrow> u64" where "be64_to_cpu = bswap_64"
definition cpu_to_be64 :: "u64 \<Rightarrow> u64" where "cpu_to_be64 = bswap_64"
definition cpu_to_le64 :: "u64 \<Rightarrow> u64" where "cpu_to_le64 value = value"

definition htonl :: "u32 \<Rightarrow> u32" where "htonl = bswap_32"
definition htons :: "u16 \<Rightarrow> u16" where "htons = bswap_16"
definition ntohl :: "u32 \<Rightarrow> u32" where "ntohl = bswap_32"
definition ntohs :: "u16 \<Rightarrow> u16" where "ntohs = bswap_16"

section \<open>Memory\<close>

definition load_u16 :: "bytes \<Rightarrow> u16" where
  "load_u16 data = ucast (data ! 0) + push_bit 8 (ucast (data ! 1))"

definition load_u32 :: "bytes \<Rightarrow> u32" where
  "load_u32 d = ucast (d ! 0) OR push_bit 8 (ucast (d ! 1)) OR push_bit 16 (ucast (d ! 2)) OR push_bit 24 (ucast (d ! 3))"

definition load_qword :: "bytes \<Rightarrow> u64" where
  "load_qword d =
     ucast (d ! 0) OR push_bit 8 (ucast (d ! 1)) OR push_bit 16 (ucast (d ! 2)) OR push_bit 24 (ucast (d ! 3))
     OR push_bit 32 (ucast (d ! 4)) OR push_bit 40 (ucast (d ! 5)) OR push_bit 48 (ucast (d ! 6)) OR push_bit 56 (ucast (d ! 7))"

definition bytes_u16 :: "u16 \<Rightarrow> bytes" where
  "bytes_u16 w = [ucast w, ucast (drop_bit 8 w)]"

definition bytes_u32 :: "u32 \<Rightarrow> bytes" where
  "bytes_u32 w = [ucast w, ucast (drop_bit 8 w), ucast (drop_bit 16 w), ucast (drop_bit 24 w)]"

definition bytes_u64 :: "u64 \<Rightarrow> bytes" where
  "bytes_u64 w = map (\<lambda>i. ucast (drop_bit (8 * i) w)) [0..<8]"

lemma length_bytes [simp]: "length (bytes_u16 w) = 2" "length (bytes_u32 v) = 4" "length (bytes_u64 x) = 8"
  by (simp_all add: bytes_u16_def bytes_u32_def bytes_u64_def)

lemma load_u32_bytes [simp]: "load_u32 (bytes_u32 w @ x) = w"
proof (rule bit_word_eqI)
  fix n assume "n < LENGTH(32)"
  then consider "n < 8" | "8 \<le> n" "n < 16" | "16 \<le> n" "n < 24" | "24 \<le> n" "n < 32" by fastforce
  then show "bit (load_u32 (bytes_u32 w @ x)) n = bit w n"
    unfolding load_u32_def bytes_u32_def by cases (auto simp: bit_simps)
qed

lemma ntohs_htons: "ntohs (htons w) = w"
proof (rule bit_word_eqI)
  fix n assume "n < LENGTH(16)"
  then consider "n < 8" | "8 \<le> n" "n < 16" by fastforce
  moreover have m: "(0x00ff :: u16) = mask 8" "(0xff00 :: u16) = push_bit 8 (mask 8)" by (simp_all add: mask_eq_exp_minus_1)
  ultimately show "bit (ntohs (htons w)) n = bit w n"
    unfolding ntohs_def htons_def bswap_16_def m by cases (auto simp: bit_simps)
qed

lemma bswap_32_twice: "bswap_32 (bswap_32 w) = w"
proof (rule bit_word_eqI)
  fix n assume "n < LENGTH(32)"
  then consider "n < 8" | "8 \<le> n" "n < 16" | "16 \<le> n" "n < 24" | "24 \<le> n" "n < 32" by fastforce
  moreover have m: "(0x000000ff :: u32) = mask 8" "(0x0000ff00 :: u32) = push_bit 8 (mask 8)"
    "(0x00ff0000 :: u32) = push_bit 16 (mask 8)" "(0xff000000 :: u32) = push_bit 24 (mask 8)"
    by (simp_all add: mask_eq_exp_minus_1)
  ultimately show "bit (bswap_32 (bswap_32 w)) n = bit w n"
    unfolding bswap_32_def m by cases (auto simp: bit_simps)
qed

lemma byte_masks:
  "(0x00000000000000ff :: u64) = mask 8" "(0x000000000000ff00 :: u64) = push_bit 8 (mask 8)"
  "(0x0000000000ff0000 :: u64) = push_bit 16 (mask 8)" "(0x00000000ff000000 :: u64) = push_bit 24 (mask 8)"
  "(0x000000ff00000000 :: u64) = push_bit 32 (mask 8)" "(0x0000ff0000000000 :: u64) = push_bit 40 (mask 8)"
  "(0x00ff000000000000 :: u64) = push_bit 48 (mask 8)" "(0xff00000000000000 :: u64) = push_bit 56 (mask 8)"
  "(0x000000ff :: u32) = mask 8" "(0x0000ff00 :: u32) = push_bit 8 (mask 8)"
  "(0x00ff0000 :: u32) = push_bit 16 (mask 8)" "(0xff000000 :: u32) = push_bit 24 (mask 8)"
  by (simp_all add: mask_eq_exp_minus_1)

text \<open>Bytes in big-endian order.\<close>

lemma bytes_bswap_32: "bytes_u32 (bswap_32 w) = rev (bytes_u32 w)"
  unfolding bytes_u32_def bswap_32_def byte_masks by (auto intro!: bit_word_eqI simp: bit_simps)

lemma bytes_bswap_64: "bytes_u64 (bswap_64 w) = rev (bytes_u64 w)"
proof -
  have k: "ucast (drop_bit k (bswap_64 w)) = (ucast (drop_bit (56 - k) w) :: u8)" if "k \<in> {0, 8, 16, 24, 32, 40, 48, 56}" for k
  proof (rule bit_word_eqI)
    fix n assume "n < LENGTH(8)"
    then have n: "n < 8" by simp
    from that n show "bit (ucast (drop_bit k (bswap_64 w)) :: u8) n = bit (ucast (drop_bit (56 - k) w) :: u8) n"
      unfolding bswap_64_def byte_masks by (elim insertE; simp add: bit_simps)
  qed
  show ?thesis using k [of 0] by (simp add: bytes_u64_def upt_rec k)
qed

lemma load_qword_bytes: "load_qword (bytes_u64 w @ x) = w"
proof (rule bit_word_eqI)
  fix n assume n: "n < LENGTH(64)"
  have t: "bit (push_bit k (ucast (ucast (drop_bit k w) :: u8)) :: u64) n \<longleftrightarrow> k \<le> n \<and> n < k + 8 \<and> bit w n" for k
    using n by (auto simp: bit_simps)
  have b: "bytes_u64 w @ x = ucast (drop_bit 0 w) # ucast (drop_bit 8 w) # ucast (drop_bit 16 w) # ucast (drop_bit 24 w)
      # ucast (drop_bit 32 w) # ucast (drop_bit 40 w) # ucast (drop_bit 48 w) # ucast (drop_bit 56 w) # x"
    by (simp add: bytes_u64_def upt_rec)
  have "load_qword (bytes_u64 w @ x) = push_bit 0 (ucast (ucast (drop_bit 0 w) :: u8))
      OR push_bit 8 (ucast (ucast (drop_bit 8 w) :: u8)) OR push_bit 16 (ucast (ucast (drop_bit 16 w) :: u8))
      OR push_bit 24 (ucast (ucast (drop_bit 24 w) :: u8)) OR push_bit 32 (ucast (ucast (drop_bit 32 w) :: u8))
      OR push_bit 40 (ucast (ucast (drop_bit 40 w) :: u8)) OR push_bit 48 (ucast (ucast (drop_bit 48 w) :: u8))
      OR push_bit 56 (ucast (ucast (drop_bit 56 w) :: u8))"
    unfolding b load_qword_def by (simp add: nth_Cons_numeral)
  then have "bit (load_qword (bytes_u64 w @ x)) n \<longleftrightarrow> bit w n \<and> n < 64"
    by (simp only: bit_or_iff t) linarith
  with n show "bit (load_qword (bytes_u64 w @ x)) n = bit w n" by simp
qed

lemma bswap_64_twice: "bswap_64 (bswap_64 w) = w"
  using bytes_bswap_64 [of "bswap_64 w"] bytes_bswap_64 [of w] load_qword_bytes [of _ "[]"] by (metis rev_rev_ident append_Nil2)

text \<open>Big-endian loads.\<close>

definition load_be32 :: "bytes \<Rightarrow> u32" where
  "load_be32 d = load_u32 (rev (take 4 d))"

definition load_be64 :: "bytes \<Rightarrow> u64" where
  "load_be64 d = load_qword (rev (take 8 d))"

lemma bytes_load_u32: "bytes_u32 (load_u32 [a, b, c, d]) = [a, b, c, d]"
proof -
  have "ucast (drop_bit k (load_u32 [a, b, c, d])) = ([a, b, c, d] ! (k div 8))" if "k \<in> {0, 8, 16, 24}" for k
  proof (rule bit_word_eqI)
    fix n assume "n < LENGTH(8)"
    then have n: "n < 8" by simp
    from that n show "bit (ucast (drop_bit k (load_u32 [a, b, c, d])) :: u8) n = bit ([a, b, c, d] ! (k div 8)) n"
      unfolding load_u32_def by (elim insertE; auto simp: bit_simps nth_Cons_numeral dest: bit_imp_le_length)
  qed
  note k = this
  show ?thesis using k [of 0] by (simp add: bytes_u32_def k)
qed

lemma bytes_load_qword: "bytes_u64 (load_qword [a, b, c, d, e, f, g, h]) = [a, b, c, d, e, f, g, h]"
proof -
  have "ucast (drop_bit k (load_qword [a, b, c, d, e, f, g, h])) = ([a, b, c, d, e, f, g, h] ! (k div 8))"
    if "k \<in> {0, 8, 16, 24, 32, 40, 48, 56}" for k
  proof (rule bit_word_eqI)
    fix n assume "n < LENGTH(8)"
    then have n: "n < 8" by simp
    have no: "\<not> bit x m" if "8 \<le> m" for x :: u8 and m using that by (auto dest: bit_imp_le_length)
    from that n show "bit (ucast (drop_bit k (load_qword [a, b, c, d, e, f, g, h])) :: u8) n = bit ([a, b, c, d, e, f, g, h] ! (k div 8)) n"
      unfolding load_qword_def by (elim insertE; simp add: bit_simps nth_Cons_numeral no)
  qed
  note k = this
  show ?thesis using k [of 0] by (simp add: bytes_u64_def upt_rec k)
qed

lemma bswap_load_u32:
  assumes "4 \<le> length d"
  shows "bswap_32 (load_u32 d) = load_be32 d"
proof -
  obtain a b c e x where d: "d = a # b # c # e # x"
    using assms by (auto simp: numeral_eq_Suc Suc_le_length_iff)
  have "load_u32 d = load_u32 [a, b, c, e]" by (simp add: d load_u32_def)
  moreover have "bytes_u32 (bswap_32 (load_u32 [a, b, c, e])) = [e, c, b, a]"
    by (simp add: bytes_bswap_32 bytes_load_u32)
  then have "bswap_32 (load_u32 [a, b, c, e]) = load_u32 [e, c, b, a]"
    using load_u32_bytes [of "bswap_32 (load_u32 [a, b, c, e])" "[]"] by simp
  ultimately show ?thesis by (simp add: load_be32_def d)
qed

lemma bswap_load_qword:
  assumes "8 \<le> length d"
  shows "bswap_64 (load_qword d) = load_be64 d"
proof -
  obtain a b c e f g h i where t: "take 8 d = [a, b, c, e, f, g, h, i]"
  proof -
    have "\<exists>a b c e f g h i. xs = [a, b, c, e, f, g, h, i]" if "length xs = 8" for xs :: bytes
      using that by (auto simp: numeral_eq_Suc length_Suc_conv)
    from this [of "take 8 d"] assms that show thesis by auto
  qed
  have "load_qword d = load_qword (take 8 d)" using assms by (simp add: load_qword_def)
  moreover have "bytes_u64 (bswap_64 (load_qword (take 8 d))) = rev (take 8 d)"
    by (simp add: t bytes_bswap_64 bytes_load_qword)
  then have "bswap_64 (load_qword (take 8 d)) = load_qword (rev (take 8 d))"
    using load_qword_bytes [of "bswap_64 (load_qword (take 8 d))" "[]"] by simp
  ultimately show ?thesis by (simp add: load_be64_def)
qed

end
