(* ===== verification/Checksum.thy ===== *)
theory Checksum
  imports ByteOrder
begin

text \<open>
  The TCP/IP checksum: the byte-wise reference routine of net/tcpip.c, and the x86\_64 routine of
  arch/x86/core/x86\_tcpip.c, whose inline assembly adds native words with the carry flag. The
  lemmas relate both to the one's complement sum of the data as 16-bit words, and to each other.
\<close>

section \<open>The reference routine\<close>

definition TCPIP_POSITIVE_ZERO_CSUM :: u16 where "TCPIP_POSITIVE_ZERO_CSUM = 0x0000"
definition TCPIP_NEGATIVE_ZERO_CSUM :: u16 where "TCPIP_NEGATIVE_ZERO_CSUM = 0xffff"
definition TCPIP_EMPTY_CSUM :: u16 where "TCPIP_EMPTY_CSUM = TCPIP_POSITIVE_ZERO_CSUM"

text \<open>The flag tells whether the index of the next byte is odd.\<close>

fun chksum_loop :: "bool \<Rightarrow> u32 \<Rightarrow> bytes \<Rightarrow> u32" where
  "chksum_loop is_odd cksum [] = cksum"
| "chksum_loop is_odd cksum (b # data) =
     (let value = ucast (if is_odd then be16_to_cpu (ucast b) else le16_to_cpu (ucast b));
          cksum = cksum + value;
          cksum = (if cksum > 0xffff then cksum - 0xffff else cksum)
      in chksum_loop (\<not> is_odd) cksum data)"

definition generic_tcpip_continue_chksum :: "u16 \<Rightarrow> bytes \<Rightarrow> u16" where
  "generic_tcpip_continue_chksum partial data =
     ucast (NOT (chksum_loop False (NOT (ucast partial) AND 0xffff) data))"

section \<open>The x86 routine\<close>

text \<open>
  Add with carry on a register of any width: the new value and the carry flag. The instructions
  that follow leave the flag alone unless they are additions themselves (\<open>lods\<close>, \<open>loop\<close>, \<open>mov\<close>,
  \<open>push\<close>, \<open>pop\<close> and jumps do not touch it).
\<close>

definition adc :: "'a::len word \<Rightarrow> 'a word \<times> bool \<Rightarrow> 'a word \<times> bool" where
  "adc v st = (let t = unat (fst st) + unat v + of_bool (snd st) in (of_nat t, 2 ^ LENGTH('a) \<le> t))"

text \<open>An operation on the low 16 bits of the 64-bit accumulator.\<close>

definition on_w0 :: "(u16 \<times> bool \<Rightarrow> u16 \<times> bool) \<Rightarrow> u64 \<times> bool \<Rightarrow> u64 \<times> bool" where
  "on_w0 f st = (case f (ucast (fst st), snd st) of
     (w, cf) \<Rightarrow> (push_bit 16 (drop_bit 16 (fst st)) + ucast w, cf))"

fun load_u64 :: "nat \<Rightarrow> bytes \<Rightarrow> u64" where
  "load_u64 0 data = 0"
| "load_u64 (Suc n) data = ucast (hd data) + push_bit 8 (load_u64 n (tl data))"

text \<open>A counted loop of \<open>lodsw; adcw\<close> and one of \<open>lodsq; adcq\<close>.\<close>

fun adcw_loop :: "nat \<Rightarrow> bytes \<Rightarrow> u64 \<times> bool \<Rightarrow> bytes \<times> u64 \<times> bool" where
  "adcw_loop 0 data st = (data, st)"
| "adcw_loop (Suc n) data st = adcw_loop n (drop 2 data) (on_w0 (adc (load_u16 data)) st)"

fun adcq_loop :: "nat \<Rightarrow> bytes \<Rightarrow> u64 \<times> bool \<Rightarrow> bytes \<times> u64 \<times> bool" where
  "adcq_loop 0 data st = (data, st)"
| "adcq_loop (Suc n) data st = adcq_loop n (drop 8 data) (adc (load_u64 8 data) st)"

text \<open>The unrolled loop: every further iteration runs all sixteen steps.\<close>

fun unrolled_loop :: "nat \<Rightarrow> bytes \<Rightarrow> u64 \<times> bool \<Rightarrow> bytes \<times> u64 \<times> bool" where
  "unrolled_loop 0 data st = (data, st)"
| "unrolled_loop (Suc n) data st = (case adcq_loop 16 data st of (data, st) \<Rightarrow> unrolled_loop n data st)"

text \<open>The final byte: \<open>adcb\<close> into the low byte, then the carry into the second byte.\<close>

definition adcb_final :: "u8 \<Rightarrow> u16 \<times> bool \<Rightarrow> u16 \<times> bool" where
  "adcb_final b st =
     (case adc b (ucast (fst st), snd st) of (l, cf) \<Rightarrow>
      case adc 0 (ucast (drop_bit 8 (fst st)), cf) of (h, cf) \<Rightarrow>
        (push_bit 8 (ucast (h :: u8)) + ucast (l :: u8), cf))"

text \<open>Fold down to 16 bits: the words of the accumulator are pushed and popped one by one.\<close>

definition fold_sum :: "u64 \<times> bool \<Rightarrow> u16" where
  "fold_sum st =
     (let sum = fst st;
          w0 = (ucast sum :: u16, snd st);
          w0 = adc (ucast (drop_bit 16 sum)) w0;
          w0 = adc (ucast (drop_bit 32 sum)) w0;
          w0 = adc (ucast (drop_bit 48 sum)) w0;
          w0 = adc 0 w0;
          w0 = adc 0 w0
      in fst w0)"

definition initial_word_count :: "u64 \<Rightarrow> nat \<Rightarrow> nat" where
  "initial_word_count addr len = (if len \<ge> 8 then unat (drop_bit 1 ((- addr) AND (8 - 1))) else 0)"

text \<open>The arguments are the address of the data, which decides the alignment, and its contents.\<close>

definition tcpip_continue_chksum :: "u16 \<Rightarrow> u64 \<Rightarrow> bytes \<Rightarrow> u16" where
  "tcpip_continue_chksum partial addr data =
     (let sum = NOT (ucast partial) AND 0xffff :: u64;
          initial = initial_word_count addr (length data);
          len = length data - initial * 2;
          loop_count = len div (8 * 16);
          loop_partial_count = len mod (8 * 16) div 8;
          final_word_count = len mod 8 div 2;
          final_byte = len mod 2
      in case adcw_loop initial data (sum, False) of (data, st) \<Rightarrow>
         case adcq_loop loop_partial_count data st of (data, st) \<Rightarrow>
         case unrolled_loop loop_count data st of (data, st) \<Rightarrow>
         case adcw_loop final_word_count data st of (data, st) \<Rightarrow>
           let st = (if final_byte = 1 then on_w0 (adcb_final (hd data)) st else st)
           in NOT (fold_sum st))"

definition tcpip_chksum :: "u64 \<Rightarrow> bytes \<Rightarrow> u16" where
  "tcpip_chksum addr data = tcpip_continue_chksum TCPIP_EMPTY_CSUM addr data"

section \<open>One's complement sums\<close>

text \<open>The sum of the data as little-endian 16-bit words, an odd last byte being padded.\<close>

fun word_sum :: "bytes \<Rightarrow> nat" where
  "word_sum [] = 0"
| "word_sum [b] = unat b"
| "word_sum (b # c # data) = unat b + 256 * unat c + word_sum data"

text \<open>
  Reduction modulo \<open>2 ^ 16 - 1\<close> in which only the sum zero is represented by zero: a total that is
  a nonzero multiple of the modulus is represented by \<open>0xffff\<close>.
\<close>

definition ones_complement :: "nat \<Rightarrow> nat" where
  "ones_complement n = (if n = 0 then 0 else (n - 1) mod 65535 + 1)"

text \<open>A value that represents a total.\<close>

definition represents :: "nat \<Rightarrow> nat \<Rightarrow> bool" where
  "represents v n \<longleftrightarrow> v mod 65535 = n mod 65535 \<and> (v = 0 \<longleftrightarrow> n = 0)"

lemma represents_add:
  assumes "represents v n" and "v' + k * 65535 = v + w" and "v' = 0 \<Longrightarrow> k = 0"
  shows "represents v' (n + w)"
proof -
  have "v' mod 65535 = (v + w) mod 65535" unfolding assms(2) [symmetric] by simp
  also have "\<dots> = (v mod 65535 + w) mod 65535" by (rule mod_add_left_eq [symmetric])
  also have "\<dots> = (n mod 65535 + w) mod 65535" using assms(1) unfolding represents_def by simp
  also have "\<dots> = (n + w) mod 65535" by (rule mod_add_left_eq)
  finally have "v' mod 65535 = (n + w) mod 65535" .
  moreover have "v' = 0 \<longleftrightarrow> n + w = 0"
    using assms unfolding represents_def by auto
  ultimately show ?thesis by (simp add: represents_def)
qed

lemma represents_unique:
  assumes "represents v n" and "v < 65536"
  shows "v = ones_complement n"
proof (cases "n = 0")
  case True
  with assms show ?thesis by (simp add: represents_def ones_complement_def)
next
  case False
  then obtain m u where mu: "n = Suc m" "v = Suc u" using assms(1) unfolding represents_def by (metis not0_implies_Suc)
  have "u mod 65535 = m mod 65535"
    using assms(1) unfolding represents_def mu mod_Suc by (auto split: if_splits)
  with assms(2) mu show ?thesis by (simp add: ones_complement_def)
qed

section \<open>The carry flag\<close>

lemma unat_ucast_mod: "unat (ucast w :: 'b::len word) = unat w mod 2 ^ LENGTH('b)" for w :: "'a::len word"
  by (simp add: unsigned_ucast_eq take_bit_eq_mod)

lemma mod_carry: "t < 2 * M \<Longrightarrow> t mod M + of_bool (M \<le> t) * M = t" for t M :: nat
  by (cases "M \<le> t") (simp_all add: le_mod_geq)

lemma adc_value:
  assumes "adc v (a, cf) = (r, cf')"
  shows "unat r + of_bool cf' * 2 ^ LENGTH('a) = unat (a :: 'a::len word) + unat v + of_bool cf"
proof -
  let ?t = "unat a + unat v + of_bool cf"
  have r: "r = of_nat ?t" "cf' = (2 ^ LENGTH('a) \<le> ?t)" using assms by (simp_all add: adc_def Let_def)
  have "unat a < 2 ^ LENGTH('a)" "unat v < 2 ^ LENGTH('a)" "of_bool cf \<le> (1 :: nat)"
    by (simp_all only: unsigned_less of_bool_less_eq_one)
  then have "?t < 2 * 2 ^ LENGTH('a)" by linarith
  then show ?thesis unfolding r unat_of_nat by (rule mod_carry)
qed

lemma unat_shift_add:
  assumes "unat h * 2 ^ k < 2 ^ LENGTH('a)" and "unat l < 2 ^ k" and "k < LENGTH('a)"
  shows "unat (push_bit k h + l) = 2 ^ k * unat h + unat (l :: 'a::len word)"
proof -
  have p: "unat (push_bit k h) = 2 ^ k * unat h"
    using assms(1) by (simp add: push_bit_eq_mult unat_word_ariths mult.commute unat_pow2 [OF assms(3)])
  have "2 ^ k * unat h + unat l < 2 ^ LENGTH('a)"
  proof -
    have "2 ^ LENGTH('a) = 2 ^ k * (2 ^ (LENGTH('a) - k) :: nat)" using assms(3) by (simp flip: power_add)
    moreover from this have "unat h < 2 ^ (LENGTH('a) - k)" using assms(1) by (simp add: mult.commute)
    then have "2 ^ k * (unat h + 1) \<le> 2 ^ k * 2 ^ (LENGTH('a) - k)" by (intro mult_le_mono2) simp
    ultimately show ?thesis using assms(2) by simp
  qed
  then show ?thesis using p by (subst unat_add_no_wrap) simp_all
qed

lemma unat_set_w0:
  fixes s :: u64
  shows "unat (push_bit 16 (drop_bit 16 s) + ucast (w :: u16)) = 65536 * (unat s div 65536) + unat w"
proof -
  have "unat w < 65536" using unsigned_less [of w] by simp
  then show ?thesis
    using unat_shift_add [of "drop_bit 16 s" 16 "ucast w"] unat_u64_less [of s]
    by (simp add: unat_drop_bit unat_ucast_up)
qed

lemma on_w0_value:
  assumes "\<And>w cf r cf'. f (w, cf) = (r, cf') \<Longrightarrow> unat r + of_bool cf' * 65536 = unat w + v + of_bool cf"
    and "on_w0 f (s, cf) = (s', cf')"
  shows "unat s' + of_bool cf' * 65536 = unat s + v + of_bool cf"
proof -
  obtain r where f: "f (ucast s, cf) = (r, cf')" and s': "s' = push_bit 16 (drop_bit 16 s) + ucast r"
    using assms(2) by (auto simp: on_w0_def split: prod.splits)
  have "unat (ucast s :: u16) = unat s mod 65536" by (simp add: unat_ucast_mod)
  then show ?thesis
    using assms(1) [OF f] unat_set_w0 [of s r] mult_div_mod_eq [of 65536 "unat s"] unfolding s' by linarith
qed

lemma adcb_final_value:
  assumes "adcb_final b (w, cf) = (r, cf')"
  shows "unat r + of_bool cf' * 65536 = unat w + unat b + of_bool cf"
proof -
  obtain l c h where l: "adc b (ucast w, cf) = (l, c)" and h: "adc 0 (ucast (drop_bit 8 w), c) = (h, cf')"
    and r: "r = push_bit 8 (ucast (h :: u8)) + ucast (l :: u8)"
    using assms by (auto simp: adcb_final_def split: prod.splits)
  have "unat l < 256" "unat h < 256" using unsigned_less [of l] unsigned_less [of h] by simp_all
  then have "unat r = 256 * unat h + unat l"
    unfolding r using unat_shift_add [of "ucast h :: u16" 8 "ucast l"] by (simp add: unat_ucast_up)
  moreover have "unat (ucast w :: u8) = unat w mod 256" by (simp add: unat_ucast_mod)
  moreover have "unat (ucast (drop_bit 8 w) :: u8) = unat w div 256"
  proof -
    have "unat w < 65536" using unsigned_less [of w] by simp
    then show ?thesis by (simp add: unat_ucast_mod unat_drop_bit div_less_iff_less_mult)
  qed
  ultimately show ?thesis
    using adc_value [OF l, simplified] adc_value [OF h, simplified] mult_div_mod_eq [of 256 "unat w"] by linarith
qed

section \<open>The totals of the loops\<close>

definition totals :: "u64 \<times> bool \<Rightarrow> nat \<Rightarrow> bool" where
  "totals st n \<longleftrightarrow> represents (unat (fst st) + of_bool (snd st)) n"

lemma totals_step:
  assumes "totals (s, cf) n" and "unat s' + of_bool cf' * (1 + m * 65535) = unat s + v + of_bool cf"
  shows "totals (s', cf') (n + v)"
proof -
  have "represents (unat s' + of_bool cf') (n + v)"
  proof (rule represents_add [where k = "of_bool cf' * m"])
    show "represents (unat s + of_bool cf) n" using assms(1) by (simp add: totals_def)
    show "unat s' + of_bool cf' + of_bool cf' * m * 65535 = unat s + of_bool cf + v"
      using assms(2) by (cases cf') simp_all
  qed simp
  then show ?thesis by (simp add: totals_def)
qed

lemma totals_adcw: "totals st n \<Longrightarrow> totals (on_w0 (adc w) st) (n + unat w)"
proof -
  assume t: "totals st n"
  obtain s cf s' cf' where st: "st = (s, cf)" "on_w0 (adc w) st = (s', cf')" by (metis surj_pair)
  have "unat s' + of_bool cf' * 65536 = unat s + unat w + of_bool cf"
    by (rule on_w0_value [OF _ st(2) [unfolded st(1)]]) (use adc_value [where 'a = 16] in simp)
  then show ?thesis using totals_step [of s cf n s' cf' 1 "unat w"] t st by simp
qed

lemma totals_adcb: "totals st n \<Longrightarrow> totals (on_w0 (adcb_final b) st) (n + unat b)"
proof -
  assume t: "totals st n"
  obtain s cf s' cf' where st: "st = (s, cf)" "on_w0 (adcb_final b) st = (s', cf')" by (metis surj_pair)
  have "unat s' + of_bool cf' * 65536 = unat s + unat b + of_bool cf"
    by (rule on_w0_value [OF adcb_final_value st(2) [unfolded st(1)]])
  then show ?thesis using totals_step [of s cf n s' cf' 1 "unat b"] t st by simp
qed

lemma totals_adcq: "totals st n \<Longrightarrow> totals (adc w st) (n + unat w)"
proof -
  assume t: "totals st n"
  obtain s cf s' cf' where st: "st = (s, cf)" "adc w st = (s', cf')" by (metis surj_pair)
  have "unat s' + of_bool cf' * (1 + 281479271743489 * 65535) = unat s + unat w + of_bool cf"
    using adc_value [OF st(2) [unfolded st(1)]] by simp
  from totals_step [OF t [unfolded st(1)] this] st(2) show ?thesis by simp
qed

fun bytes_value :: "bytes \<Rightarrow> nat" where
  "bytes_value [] = 0"
| "bytes_value (b # bs) = unat b + 256 * bytes_value bs"

lemma bytes_value_less: "bytes_value bs < 256 ^ length bs"
proof (induction bs)
  case (Cons b bs)
  have "unat b < 256" using unsigned_less [of b] by simp
  with Cons show ?case by simp
qed simp

lemma load_u64_value: "n \<le> 8 \<Longrightarrow> n \<le> length data \<Longrightarrow> unat (load_u64 n data) = bytes_value (take n data)"
proof (induction n arbitrary: data)
  case (Suc n)
  then obtain b bs where d: "data = b # bs" by (cases data) auto
  have v: "unat (load_u64 n bs) = bytes_value (take n bs)" using Suc d by simp
  have "256 ^ length (take n bs) \<le> (256 :: nat) ^ 7" by (rule power_increasing) (use Suc.prems in auto)
  then have "bytes_value (take n bs) < 256 ^ 7" using bytes_value_less [of "take n bs"] by linarith
  moreover have "unat b < 256" using unsigned_less [of b] by simp
  ultimately have "unat (push_bit 8 (load_u64 n bs) + ucast b) = 2 ^ 8 * unat (load_u64 n bs) + unat (ucast b :: u64)"
    using v by (intro unat_shift_add) (simp_all add: unat_ucast_up)
  then show ?case by (simp only: d load_u64.simps list.sel take_Suc_Cons bytes_value.simps v
        add.commute [of "ucast b"]) (simp add: unat_ucast_up)
qed simp

lemma bytes_value_word_sum:
  "bytes_value bs mod 65535 = word_sum bs mod 65535 \<and> (bytes_value bs = 0 \<longleftrightarrow> word_sum bs = 0)"
proof (induction bs rule: word_sum.induct)
  case (3 b c bs)
  have "bytes_value (b # c # bs) = unat b + 256 * unat c + bytes_value bs + bytes_value bs * 65535" by simp
  then have "bytes_value (b # c # bs) mod 65535 = (unat b + 256 * unat c + bytes_value bs) mod 65535"
    by (simp only: mod_mult_self1)
  also have "\<dots> = (unat b + 256 * unat c + word_sum bs) mod 65535" using 3 by (metis mod_add_right_eq)
  finally show ?case using 3 by simp
qed simp_all

lemma word_sum_append: "even (length a) \<Longrightarrow> word_sum (a @ b) = word_sum a + word_sum b"
  by (induction a rule: word_sum.induct) simp_all

lemma totals_mod:
  "totals st (n + v) \<Longrightarrow> v mod 65535 = w mod 65535 \<and> (v = 0 \<longleftrightarrow> w = 0) \<Longrightarrow> totals st (n + w)"
  unfolding totals_def represents_def by (metis add_is_0 mod_add_right_eq)

lemma load_u16_value: "2 \<le> length data \<Longrightarrow> unat (load_u16 data) = word_sum (take 2 data)"
proof -
  assume "2 \<le> length data"
  then obtain b c bs where d: "data = b # c # bs" by (metis Suc_le_length_iff numeral_2_eq_2)
  have "unat b < 256" "unat c < 256" using unsigned_less [of b] unsigned_less [of c] by simp_all
  then have "unat (push_bit 8 (ucast c) + ucast b :: u16) = 2 ^ 8 * unat (ucast c :: u16) + unat (ucast b :: u16)"
    by (intro unat_shift_add) (simp_all add: unat_ucast_up)
  then show ?thesis by (simp add: d load_u16_def unat_ucast_up add.commute)
qed

lemma adcw_loop_totals:
  assumes "totals st n" and "2 * k \<le> length data"
  obtains st' where "adcw_loop k data st = (drop (2 * k) data, st')" "totals st' (n + word_sum (take (2 * k) data))"
  using assms
proof (induction k arbitrary: data st n thesis)
  case 0
  then show ?case by simp
next
  case (Suc k)
  have "totals (on_w0 (adc (load_u16 data)) st) (n + word_sum (take 2 data))"
    using totals_adcw [OF Suc.prems(2), of "load_u16 data"] Suc.prems(3) by (simp add: load_u16_value)
  moreover have "2 * k \<le> length (drop 2 data)" using Suc.prems(3) by simp
  ultimately obtain st' where st': "adcw_loop k (drop 2 data) (on_w0 (adc (load_u16 data)) st) = (drop (2 * k) (drop 2 data), st')"
    "totals st' (n + word_sum (take 2 data) + word_sum (take (2 * k) (drop 2 data)))"
    using Suc.IH by blast
  have "take (2 * Suc k) data = take 2 data @ take (2 * k) (drop 2 data)" using take_add [of 2 "2 * k" data] by simp
  then have "word_sum (take (2 * Suc k) data) = word_sum (take 2 data) + word_sum (take (2 * k) (drop 2 data))"
    using Suc.prems(3) by (simp add: word_sum_append)
  then show ?case using Suc.prems(1) [of st'] st' by (simp add: add.assoc add.commute)
qed

lemma adcq_loop_totals:
  assumes "totals st n" and "8 * k \<le> length data"
  obtains st' where "adcq_loop k data st = (drop (8 * k) data, st')" "totals st' (n + word_sum (take (8 * k) data))"
  using assms
proof (induction k arbitrary: data st n thesis)
  case 0
  then show ?case by simp
next
  case (Suc k)
  have "totals (adc (load_u64 8 data) st) (n + bytes_value (take 8 data))"
    using totals_adcq [OF Suc.prems(2), of "load_u64 8 data"] load_u64_value [of 8 data] Suc.prems(3) by simp
  then have "totals (adc (load_u64 8 data) st) (n + word_sum (take 8 data))"
    by (rule totals_mod [OF _ bytes_value_word_sum])
  moreover have "8 * k \<le> length (drop 8 data)" using Suc.prems(3) by simp
  ultimately obtain st' where st': "adcq_loop k (drop 8 data) (adc (load_u64 8 data) st) = (drop (8 * k) (drop 8 data), st')"
    "totals st' (n + word_sum (take 8 data) + word_sum (take (8 * k) (drop 8 data)))"
    using Suc.IH by blast
  have "take (8 * Suc k) data = take 8 data @ take (8 * k) (drop 8 data)" using take_add [of 8 "8 * k" data] by simp
  then have "word_sum (take (8 * Suc k) data) = word_sum (take 8 data) + word_sum (take (8 * k) (drop 8 data))"
    using Suc.prems(3) by (simp add: word_sum_append)
  then show ?case using Suc.prems(1) [of st'] st' by (simp add: add.assoc add.commute)
qed

lemma unrolled_loop_adcq: "unrolled_loop k data st = adcq_loop (16 * k) data st"
proof -
  have app: "adcq_loop (i + j) data st = (case adcq_loop i data st of (data, st) \<Rightarrow> adcq_loop j data st)" for i j data st
    by (induction i arbitrary: data st) simp_all
  show ?thesis
  proof (induction k arbitrary: data st)
    case (Suc k)
    have "16 * Suc k = 16 + 16 * k" by simp
    then show ?case by (simp only: app unrolled_loop.simps case_prod_unfold Suc.IH)
  qed simp
qed

section \<open>Folding\<close>

lemma adc16_represents:
  assumes "represents (unat (fst st) + of_bool (snd st)) n"
  shows "represents (unat (fst (adc v st)) + of_bool (snd (adc v st))) (n + unat (v :: u16))"
proof -
  obtain a cf r cf' where st: "st = (a, cf)" "adc v st = (r, cf')" by (metis surj_pair)
  have "represents (unat r + of_bool cf') (n + unat v)"
  proof (rule represents_add [where k = "of_bool cf'"])
    show "represents (unat a + of_bool cf) n" using assms by (simp add: st)
    show "unat r + of_bool cf' + of_bool cf' * 65535 = unat a + of_bool cf + unat v"
      using adc_value [OF st(2) [unfolded st(1)], simplified] by linarith
  qed simp
  then show ?thesis by (simp only: st(2) fst_conv snd_conv)
qed

lemma adc_zero_twice: "snd (adc 0 (adc 0 st)) = False" for st :: "u16 \<times> bool"
proof -
  obtain a cf b c d e where st: "st = (a, cf)" "adc 0 st = (b, c)" "adc 0 (b, c) = (d, e)" by (metis surj_pair)
  have "unat a < 65536" "unat b < 65536" using unsigned_less [of a] unsigned_less [of b] by simp_all
  moreover have "unat b + of_bool c * 65536 = unat a + of_bool cf" "unat d + of_bool e * 65536 = unat b + of_bool c"
    using adc_value [OF st(2) [unfolded st(1)], simplified] adc_value [OF st(3), simplified] by linarith+
  ultimately have "\<not> e" by (cases c; cases cf; cases e) simp_all
  then show ?thesis by (simp add: st(2,3))
qed

lemma word_parts:
  fixes s :: u64
  defines "w \<equiv> \<lambda>i. unat (ucast (drop_bit (16 * i) s) :: u16)"
  shows "(w 0 + w 1 + w 2 + w 3 + c) mod 65535 = (unat s + c) mod 65535" and
    "w 0 + w 1 + w 2 + w 3 + c = 0 \<longleftrightarrow> unat s + c = 0"
proof -
  define q where "q = (\<lambda>i. unat s div 2 ^ (16 * i))"
  have w: "w i = q i mod 65536" for i by (simp add: w_def q_def unat_ucast_mod unat_drop_bit)
  have q: "q (Suc i) = q i div 65536" for i by (simp add: q_def power_add div_mult2_eq mult.commute)
  have "q 3 < 65536" using unat_u64_less [of s] by (simp add: q_def div_less_iff_less_mult)
  then have w3: "w 3 = q 3" by (simp add: w)
  have "q i = w i + 65536 * q (Suc i)" for i unfolding w q by simp
  from this [of 0] this [of 1] this [of 2] have eqs: "q 0 = w 0 + 65536 * q 1" "q 1 = w 1 + 65536 * q 2" "q 2 = w 2 + 65536 * q 3"
    by (simp_all add: numeral_2_eq_2 numeral_3_eq_3)
  have q0: "q 0 = unat s" by (simp add: q_def)
  have e: "unat s + c = w 0 + w 1 + w 2 + w 3 + c + (q 1 + q 2 + q 3) * 65535"
    by (simp add: eqs w3 flip: q0 del: One_nat_def)
  have z: "w 0 + w 1 + w 2 + w 3 = 0 \<longleftrightarrow> unat s = 0" using w3 eqs q0 by linarith
  show "(w 0 + w 1 + w 2 + w 3 + c) mod 65535 = (unat s + c) mod 65535" unfolding e by (simp only: mod_mult_self1)
  show "w 0 + w 1 + w 2 + w 3 + c = 0 \<longleftrightarrow> unat s + c = 0" using z by auto
qed

lemma fold_sum_represents:
  assumes "totals st n"
  shows "unat (fold_sum st) = ones_complement n"
proof -
  obtain s cf where st: "st = (s, cf)" by (metis surj_pair)
  define w where "w = (\<lambda>i. ucast (drop_bit (16 * i) s) :: u16)"
  define f where "f = adc 0 (adc 0 (adc (w 3) (adc (w 2) (adc (w 1) (w 0, cf)))))"
  have "represents (unat (w 0) + of_bool cf) (unat (w 0) + of_bool cf)" by (simp add: represents_def)
  then have "represents (unat (fst f) + of_bool (snd f))
      (unat (w 0) + of_bool cf + unat (w 1) + unat (w 2) + unat (w 3) + unat (0 :: u16) + unat (0 :: u16))"
    unfolding f_def by (intro adc16_represents) simp
  moreover have "\<not> snd f" unfolding f_def using adc_zero_twice by simp
  moreover have "unat (w 0) + of_bool cf + unat (w 1) + unat (w 2) + unat (w 3) + unat (0 :: u16) + unat (0 :: u16)
      = unat (w 0) + unat (w 1) + unat (w 2) + unat (w 3) + of_bool cf" by simp
  ultimately have "represents (unat (fst f)) (unat (w 0) + unat (w 1) + unat (w 2) + unat (w 3) + of_bool cf)"
    by (simp only: of_bool_eq add_0_right)
  then have "represents (unat (fst f)) n"
    using assms word_parts [of s "of_bool cf"] unfolding totals_def st w_def represents_def by simp
  moreover have "unat (fst f) < 65536" using unsigned_less [of "fst f"] by simp
  ultimately have "unat (fst f) = ones_complement n" by (rule represents_unique)
  moreover have "fold_sum st = fst f" by (simp add: fold_sum_def st f_def w_def Let_def)
  ultimately show ?thesis by simp
qed

section \<open>Both routines compute the one's complement sum\<close>

lemma chksum_step:
  fixes c v :: u32
  assumes "unat c < 65536" and "unat v < 65536" and "represents (unat c) n"
  defines "c' \<equiv> if c + v > 0xffff then c + v - 0xffff else c + v"
  shows "unat c' < 65536" "represents (unat c') (n + unat v)"
proof -
  have s: "unat (c + v) = unat c + unat v" using assms(1,2) by (intro unat_add_no_wrap) simp
  have g: "c + v > 0xffff \<longleftrightarrow> unat c + unat v > 65535" by (simp add: word_less_nat_alt s)
  have c': "unat c' + of_bool (unat c + unat v > 65535) * 65535 = unat c + unat v"
    unfolding c'_def g using s by (auto simp: unat_word_diff g word_le_nat_alt)
  then show "unat c' < 65536" using assms(1,2) by (cases "unat c + unat v > 65535") auto
  show "represents (unat c') (n + unat v)"
    by (rule represents_add [OF assms(3) c']) (use c' in \<open>auto split: if_splits\<close>)
qed

lemma unat_bswap_byte: "unat (bswap_16 (ucast b)) = 256 * unat b" for b :: u8
proof -
  have m: "(0x00ff :: u16) = mask 8" "(0xff00 :: u16) = push_bit 8 (mask 8)" by (simp_all add: mask_eq_exp_minus_1)
  have "bswap_16 (ucast b) = push_bit 8 (ucast b) + 0"
    unfolding bswap_16_def m by (rule bit_word_eqI) (auto simp: bit_simps dest: bit_imp_le_length)
  moreover have "unat (push_bit 8 (ucast b) + 0 :: u16) = 2 ^ 8 * unat (ucast b :: u16) + unat (0 :: u16)"
    using unat_u8_less [of b] by (intro unat_shift_add) (simp_all add: unat_ucast_up)
  ultimately show ?thesis by (simp add: unat_ucast_up)
qed

lemma chksum_loop_represents:
  assumes "unat c < 65536" and "represents (unat c) n"
  shows "unat (chksum_loop False c data) < 65536 \<and> represents (unat (chksum_loop False c data)) (n + word_sum data)"
  using assms
proof (induction data arbitrary: c n rule: word_sum.induct)
  case (2 b)
  then show ?case
    using chksum_step [of c "ucast (ucast b :: u16)" n] unat_u8_less [of b]
    by (simp add: le16_to_cpu_def unat_ucast_up Let_def)
next
  case (3 b d data)
  let ?v = "ucast (ucast b :: u16) :: u32" and ?w = "ucast (bswap_16 (ucast d)) :: u32"
  have v: "unat ?v = unat b" "unat ?v < 65536" and w: "unat ?w = 256 * unat d" "unat ?w < 65536"
    using unat_u8_less [of b] unat_u8_less [of d] by (simp_all add: unat_ucast_up unat_bswap_byte)
  define c1 where "c1 = (if c + ?v > 0xffff then c + ?v - 0xffff else c + ?v)"
  define c2 where "c2 = (if c1 + ?w > 0xffff then c1 + ?w - 0xffff else c1 + ?w)"
  note s1 = chksum_step [OF 3(2) v(2) 3(3), folded c1_def]
  note s2 = chksum_step [OF s1(1) w(2) s1(2), folded c2_def]
  have "chksum_loop False c (b # d # data) = chksum_loop False c2 data"
    by (simp only: chksum_loop.simps Let_def le16_to_cpu_def be16_to_cpu_def if_True if_False not_False_eq_True
        not_True_eq_False c1_def c2_def)
  then show ?case using 3(1) [OF s2] v(1) w(1) by (simp add: algebra_simps)
qed simp

definition ones_checksum :: "u16 \<Rightarrow> bytes \<Rightarrow> u16" where
  "ones_checksum partial data = NOT (of_nat (ones_complement (unat (NOT partial) + word_sum data)))"

lemma not_and_mask:
  "NOT (ucast p) AND 0xffff = (ucast (NOT p) :: u32)" "NOT (ucast p) AND 0xffff = (ucast (NOT p) :: u64)" for p :: u16
proof -
  have m: "(0xffff :: u32) = mask 16" "(0xffff :: u64) = mask 16" by (simp_all add: mask_eq_exp_minus_1)
  show "NOT (ucast p) AND 0xffff = (ucast (NOT p) :: u32)" "NOT (ucast p) AND 0xffff = (ucast (NOT p) :: u64)"
    unfolding m by (rule bit_word_eqI; auto simp: bit_simps)+
qed

lemma represents_refl: "represents n n"
  by (simp add: represents_def)

lemma generic_checksum: "generic_tcpip_continue_chksum partial data = ones_checksum partial data"
proof -
  let ?c = "chksum_loop False (ucast (NOT partial)) data"
  have "unat (ucast (NOT partial) :: u32) = unat (NOT partial)" "unat (NOT partial) < 65536"
    by (simp_all add: unat_ucast_up unat_u16_less)
  then have c: "unat ?c < 65536" "represents (unat ?c) (unat (NOT partial) + word_sum data)"
    using chksum_loop_represents [of "ucast (NOT partial)" "unat (NOT partial)" data] represents_refl by simp_all
  have "ucast (NOT ?c) = NOT (ucast ?c :: u16)" by (rule bit_word_eqI) (auto simp: bit_simps)
  moreover have "(ucast ?c :: u16) = of_nat (unat ?c)" by (simp add: word_unat_eq_iff unat_ucast_mod unat_of_nat)
  ultimately show ?thesis
    unfolding generic_tcpip_continue_chksum_def ones_checksum_def not_and_mask
    using represents_unique [OF c(2,1)] by simp
qed

lemma word_sum_split: "even k \<Longrightarrow> k \<le> length d \<Longrightarrow> word_sum d = word_sum (take k d) + word_sum (drop k d)"
  using word_sum_append [of "take k d" "drop k d"] by simp

lemma initial_word_count_le: "2 * initial_word_count addr len \<le> len"
proof -
  have "(7 :: u64) = 2 ^ 3 - 1" by simp
  then have "unat (drop_bit 1 ((- addr) AND (8 - 1))) = unat (- addr) mod 8 div 2"
    using mask_and [of "- addr" 3] by (simp add: unat_drop_bit unat_take_bit)
  then show ?thesis by (simp add: initial_word_count_def) linarith
qed

text \<open>The sum so far and the sum of the data left to read add up to a total.\<close>

definition progress :: "nat \<Rightarrow> bytes \<times> u64 \<times> bool \<Rightarrow> bool" where
  "progress T x \<longleftrightarrow> (\<exists>n. totals (snd x) n \<and> n + word_sum (fst x) = T)"

lemma adcw_loop_progress:
  assumes "progress T (d, st)" and "2 * k \<le> length d"
  shows "fst (adcw_loop k d st) = drop (2 * k) d" "progress T (adcw_loop k d st)"
proof -
  obtain n where n: "totals st n" "n + word_sum d = T" using assms(1) by (auto simp: progress_def)
  obtain st' where "adcw_loop k d st = (drop (2 * k) d, st')" "totals st' (n + word_sum (take (2 * k) d))"
    by (rule adcw_loop_totals [OF n(1) assms(2)])
  moreover have "n + word_sum (take (2 * k) d) + word_sum (drop (2 * k) d) = T"
    using n(2) word_sum_split [of "2 * k" d] assms(2) by simp
  ultimately show "fst (adcw_loop k d st) = drop (2 * k) d" "progress T (adcw_loop k d st)"
    by (auto simp: progress_def)
qed

lemma adcq_loop_progress:
  assumes "progress T (d, st)" and "8 * k \<le> length d"
  shows "fst (adcq_loop k d st) = drop (8 * k) d" "progress T (adcq_loop k d st)"
proof -
  obtain n where n: "totals st n" "n + word_sum d = T" using assms(1) by (auto simp: progress_def)
  obtain st' where "adcq_loop k d st = (drop (8 * k) d, st')" "totals st' (n + word_sum (take (8 * k) d))"
    by (rule adcq_loop_totals [OF n(1) assms(2)])
  moreover have "n + word_sum (take (8 * k) d) + word_sum (drop (8 * k) d) = T"
    using n(2) word_sum_split [of "8 * k" d] assms(2) by simp
  ultimately show "fst (adcq_loop k d st) = drop (8 * k) d" "progress T (adcq_loop k d st)"
    by (auto simp: progress_def)
qed

lemma final_byte_progress:
  assumes "progress T (d, st)" and "length d = k" and "k < 2"
  shows "totals (if k = 1 then on_w0 (adcb_final (hd d)) st else st) T"
proof -
  obtain n where n: "totals st n" "n + word_sum d = T" using assms(1) by (auto simp: progress_def)
  show ?thesis
  proof (cases "k = 1")
    case True
    then obtain b where "d = [b]" using assms(2) by (cases d) auto
    with n totals_adcb [OF n(1), of b] True show ?thesis by simp
  next
    case False
    then have "d = []" using assms(2,3) by (cases d) auto
    with False n show ?thesis by simp
  qed
qed

lemma x86_checksum: "tcpip_continue_chksum partial addr data = ones_checksum partial data"
proof -
  define i where "i = initial_word_count addr (length data)"
  define len where "len = length data - i * 2"
  define p u f where "p = len mod (8 * 16) div 8" and "u = len div (8 * 16)" and "f = len mod 8 div 2"
  define T where "T = unat (NOT partial) + word_sum data"
  have i: "2 * i \<le> length data" unfolding i_def by (rule initial_word_count_le)
  have len: "len = 8 * (16 * u) + 8 * p + 2 * f + len mod 2"
  proof -
    have "len mod (8 * 16) mod 8 = len mod 8" "len mod 8 mod 2 = len mod 2" by (simp_all add: mod_mod_cancel)
    then show ?thesis
      unfolding p_def u_def f_def using mult_div_mod_eq [of "8 * 16" len] mult_div_mod_eq [of 8 "len mod (8 * 16)"]
        mult_div_mod_eq [of 2 "len mod 8"] by linarith
  qed
  let ?s0 = "(NOT (ucast partial) AND 0xffff :: u64, False)"
  have "progress T (data, ?s0)"
    by (auto simp: progress_def totals_def not_and_mask unat_ucast_up represents_refl T_def intro!: exI [of _ "unat (NOT partial)"])
  note w1 = adcw_loop_progress [OF this i]
  obtain d1 s1 where 1: "adcw_loop i data ?s0 = (d1, s1)" by (metis surj_pair)
  have l1: "length d1 = len" using w1(1) 1 i by (simp add: len_def)
  note w2 = adcq_loop_progress [OF w1(2) [unfolded 1], of p]
  obtain d2 s2 where 2: "adcq_loop p d1 s1 = (d2, s2)" by (metis surj_pair)
  have l2: "length d2 = 8 * (16 * u) + 2 * f + len mod 2" using w2(1) 2 l1 len by simp
  note w3 = adcq_loop_progress [of T d2 s2 "16 * u"]
  obtain d3 s3 where 3: "unrolled_loop u d2 s2 = (d3, s3)" by (metis surj_pair)
  have p2: "progress T (d2, s2)" using w2(2) 2 l1 len by simp
  have l3: "length d3 = 2 * f + len mod 2" and p3: "progress T (d3, s3)"
    using w3 [OF p2] 3 l2 by (simp_all add: unrolled_loop_adcq)
  note w4 = adcw_loop_progress [OF p3, of f]
  obtain d4 s4 where 4: "adcw_loop f d3 s3 = (d4, s4)" by (metis surj_pair)
  have "length d4 = len mod 2" "progress T (d4, s4)" using w4 4 l3 by simp_all
  then have "totals (if len mod 2 = 1 then on_w0 (adcb_final (hd d4)) s4 else s4) T"
    by (intro final_byte_progress) simp_all
  from arg_cong [OF fold_sum_represents [OF this], of "of_nat :: nat \<Rightarrow> u16"]
  have "fold_sum (if len mod 2 = 1 then on_w0 (adcb_final (hd d4)) s4 else s4) = of_nat (ones_complement T)" by simp
  moreover have "tcpip_continue_chksum partial addr data =
      NOT (fold_sum (if len mod 2 = 1 then on_w0 (adcb_final (hd d4)) s4 else s4))"
    unfolding tcpip_continue_chksum_def Let_def
    by (simp only: i_def [symmetric] len_def [symmetric] p_def [symmetric] u_def [symmetric] f_def [symmetric] 1 2 3 4 prod.case)
  ultimately show ?thesis unfolding ones_checksum_def T_def by simp
qed

lemma ones_complement_eq: "0 < n \<Longrightarrow> n mod 65535 = 0 \<Longrightarrow> ones_complement n = 65535"
  using represents_unique [of 65535 n] by (simp add: represents_def)

lemma ones_complement_less: "ones_complement n < 65536"
proof -
  have "(n - 1) mod 65535 < 65535" by (rule mod_less_divisor) simp
  then show ?thesis by (simp add: ones_complement_def)
qed

lemma represents_ones_complement: "represents (ones_complement n) n"
proof (cases n)
  case (Suc m)
  have "Suc (m mod 65535) mod 65535 = Suc m mod 65535" by (rule mod_Suc_eq)
  with Suc show ?thesis by (simp add: represents_def ones_complement_def)
qed (simp add: represents_def ones_complement_def)

lemma unat_not_u16: "unat (NOT w) = 65535 - unat w" for w :: u16
proof -
  have "unat (- 1 :: u16) = 65535" by (simp add: unsigned_minus_1_eq_mask mask_eq_exp_minus_1)
  moreover have "NOT w = - 1 - w" by (simp add: not_eq_complement)
  ultimately show ?thesis by (simp add: unat_word_diff)
qed

text \<open>Data whose checksum field holds the checksum of the data with a zero field sums to zero.\<close>

lemma checksum_verifies:
  assumes "even (length a)" and c: "c = ones_checksum TCPIP_EMPTY_CSUM (a @ [0, 0] @ b)"
  shows "ones_checksum TCPIP_EMPTY_CSUM (a @ [ucast c, ucast (drop_bit 8 c)] @ b) = 0"
proof -
  define T where "T = 65535 + word_sum a + word_sum b"
  have e: "unat (NOT TCPIP_EMPTY_CSUM) = 65535" by (simp only: unat_not_u16 TCPIP_EMPTY_CSUM_def TCPIP_POSITIVE_ZERO_CSUM_def) simp
  have "unat (NOT TCPIP_EMPTY_CSUM) + word_sum (a @ [0, 0] @ b) = T"
    using assms(1) unfolding e by (simp add: word_sum_append T_def)
  then have "c = NOT (of_nat (ones_complement T))" using c unfolding ones_checksum_def by simp
  then have cv: "unat c = 65535 - ones_complement T"
    using ones_complement_less [of T] by (simp add: unat_not_u16 unat_of_nat)
  have cs: "unat (ucast c :: u8) + 256 * unat (ucast (drop_bit 8 c) :: u8) = unat c"
    using unat_u16_less [of c] by (simp add: unat_ucast_mod unat_drop_bit div_less_iff_less_mult)
  have "unat (NOT TCPIP_EMPTY_CSUM) + word_sum (a @ [ucast c, ucast (drop_bit 8 c)] @ b) = T + unat c"
    using assms(1) cs unfolding e by (simp add: word_sum_append T_def)
  moreover have "(T + unat c) mod 65535 = 0"
  proof -
    have "T mod 65535 = ones_complement T mod 65535" using represents_ones_complement [of T] by (simp add: represents_def)
    then have "(T + unat c) mod 65535 = (ones_complement T + unat c) mod 65535" by (metis mod_add_left_eq)
    also have "ones_complement T + unat c = 65535" using cv ones_complement_less [of T] by simp
    finally show ?thesis by simp
  qed
  ultimately show ?thesis
    unfolding ones_checksum_def using ones_complement_eq [of "T + unat c"] by (simp add: T_def)
qed


end
