(* ===== verification/Ipv4Route.thy ===== *)
theory Ipv4Route
  imports Checksum
begin

text \<open>
  The IPv4 routing table (net/ipv4.c): a list of routes in order of specificity. Addresses are
  32-bit words as they are in memory, in network byte order. Network devices are indices; the
  settings that the code fetches and the outcomes of allocations are arguments. The lemmas show
  that routing selects the most specific usable route.
\<close>

section \<open>Addresses\<close>

type_synonym in_addr = u32

definition INADDR_NONE :: in_addr where "INADDR_NONE = htonl 0xffffffff"
definition INADDR_BROADCAST :: in_addr where "INADDR_BROADCAST = htonl 0xffffffff"
definition INADDR_NET_CLASSA :: in_addr where "INADDR_NET_CLASSA = htonl 0xff000000"
definition INADDR_NET_CLASSB :: in_addr where "INADDR_NET_CLASSB = htonl 0xffff0000"
definition INADDR_NET_CLASSC :: in_addr where "INADDR_NET_CLASSC = htonl 0xffffff00"

definition IN_IS_CLASSA :: "in_addr \<Rightarrow> bool" where "IN_IS_CLASSA a \<longleftrightarrow> a AND htonl 0x80000000 = htonl 0x00000000"
definition IN_IS_CLASSB :: "in_addr \<Rightarrow> bool" where "IN_IS_CLASSB a \<longleftrightarrow> a AND htonl 0xc0000000 = htonl 0x80000000"
definition IN_IS_CLASSC :: "in_addr \<Rightarrow> bool" where "IN_IS_CLASSC a \<longleftrightarrow> a AND htonl 0xe0000000 = htonl 0xc0000000"
definition IN_IS_MULTICAST :: "in_addr \<Rightarrow> bool" where "IN_IS_MULTICAST a \<longleftrightarrow> a AND htonl 0xf0000000 = htonl 0xe0000000"
definition IN_IS_SMALL :: "in_addr \<Rightarrow> bool" where "IN_IS_SMALL m \<longleftrightarrow> m AND htonl 0x00000003 \<noteq> 0"

section \<open>The routing table\<close>

record net_device =
  dev_open :: bool
  dev_scope_id :: u32
  dev_rx_bad :: u32
  dev_rx_good :: u32
  ll_broadcast :: bytes

record ipv4_miniroute =
  mr_netdev :: nat
  mr_address :: in_addr
  mr_network :: in_addr
  mr_netmask :: in_addr
  mr_gateway :: in_addr
  mr_hostmask :: in_addr

text \<open>Insertion ahead of any less specific route.\<close>

fun insert_miniroute :: "ipv4_miniroute \<Rightarrow> ipv4_miniroute list \<Rightarrow> ipv4_miniroute list" where
  "insert_miniroute r [] = [r]"
| "insert_miniroute r (before # rs) =
     (if mr_netmask r AND NOT (mr_netmask before) \<noteq> 0 then r # before # rs
      else before # insert_miniroute r rs)"

definition host_mask :: "in_addr \<Rightarrow> in_addr \<Rightarrow> in_addr" where
  "host_mask netmask gateway = (if gateway \<noteq> 0 \<or> IN_IS_SMALL netmask then INADDR_NONE else NOT netmask)"

text \<open>The flag tells whether there is memory for the entry.\<close>

definition ipv4_add_miniroute ::
  "bool \<Rightarrow> nat \<Rightarrow> in_addr \<Rightarrow> in_addr \<Rightarrow> in_addr \<Rightarrow> in_addr \<Rightarrow> ipv4_miniroute list \<Rightarrow> ipv4_miniroute list result" where
  "ipv4_add_miniroute mem netdev address network netmask gateway rs =
     (if \<not> mem then Inl ENOMEM
      else Inr (insert_miniroute
        \<lparr>mr_netdev = netdev, mr_address = address, mr_network = network, mr_netmask = netmask,
         mr_gateway = gateway, mr_hostmask = host_mask netmask gateway\<rparr> rs))"

text \<open>The mask of a given width; a width beyond 32 shifts by a negative amount.\<close>

definition width_mask :: "nat \<Rightarrow> in_addr option" where
  "width_mask width =
     (if width = 0 then Some 0
      else if width \<le> 32 then Some (htonl (ucast (push_bit (32 - width) (- 1 :: u64))))
      else None)"

text \<open>
  Static routes in the format of DHCP option 121. The result is the table, with the routes added
  so far, and the status; there is none when a mask is undefined.
\<close>

function ipv4_add_static ::
  "bool \<Rightarrow> nat \<Rightarrow> in_addr \<Rightarrow> bytes \<Rightarrow> ipv4_miniroute list \<Rightarrow> (ipv4_miniroute list \<times> unit result) option" where
  "ipv4_add_static mem netdev address [] rs = Some (rs, Inr ())"
| "ipv4_add_static mem netdev address (w # rest) rs =
     (let width = unat w;
          masklen = (width + 7) div 8
      in if masklen + 4 > length rest then Some (rs, Inl EINVAL)
         else
           (case width_mask width of
              None \<Rightarrow> None
            | Some netmask \<Rightarrow>
                let network = load_u32 rest AND netmask;
                    rest = drop masklen rest;
                    gateway = load_u32 rest
                in case ipv4_add_miniroute mem netdev address network netmask gateway rs of
                     Inl e \<Rightarrow> Some (rs, Inl e)
                   | Inr rs \<Rightarrow> ipv4_add_static mem netdev address (drop 4 rest) rs))"
  by pat_completeness auto
termination
  by (relation "measure (\<lambda>(mem, netdev, address, d, rs). length d)") auto

declare ipv4_add_static.simps [simp del]

definition default_netmask :: "in_addr \<Rightarrow> in_addr \<Rightarrow> in_addr" where
  "default_netmask netmask address =
     (if netmask \<noteq> 0 then netmask
      else if IN_IS_CLASSA address then INADDR_NET_CLASSA
      else if IN_IS_CLASSB address then INADDR_NET_CLASSB
      else if IN_IS_CLASSC address then INADDR_NET_CLASSC
      else netmask)"

text \<open>The arguments are the values of the netmask, gateway and static routes settings.\<close>

definition ipv4_add_miniroutes ::
  "bool \<Rightarrow> in_addr \<Rightarrow> in_addr \<Rightarrow> bytes option \<Rightarrow> nat \<Rightarrow> in_addr \<Rightarrow> ipv4_miniroute list
    \<Rightarrow> (ipv4_miniroute list \<times> unit result) option" where
  "ipv4_add_miniroutes mem netmask_setting gateway routes netdev address rs =
     (let netmask = default_netmask netmask_setting address
      in case ipv4_add_miniroute mem netdev address (address AND netmask) netmask 0 rs of
           Inl e \<Rightarrow> Some (rs, Inl e)
         | Inr rs \<Rightarrow>
             (case routes of
                Some d \<Rightarrow> ipv4_add_static mem netdev address d rs
              | None \<Rightarrow>
                  if gateway \<noteq> 0 then
                    (case ipv4_add_miniroute mem netdev address 0 0 gateway rs of
                       Inl e \<Rightarrow> Some (rs, Inl e)
                     | Inr rs \<Rightarrow> Some (rs, Inr ()))
                  else Some (rs, Inr ())))"

definition ipv4_del_miniroute :: "ipv4_miniroute \<Rightarrow> ipv4_miniroute list \<Rightarrow> ipv4_miniroute list" where
  "ipv4_del_miniroute r rs = remove1 r rs"

definition ipv4_del_miniroutes :: "ipv4_miniroute list \<Rightarrow> ipv4_miniroute list" where
  "ipv4_del_miniroutes rs = fold ipv4_del_miniroute rs rs"

text \<open>Routing: the route to use and the next hop.\<close>

fun ipv4_route :: "(nat \<Rightarrow> net_device) \<Rightarrow> u32 \<Rightarrow> in_addr \<Rightarrow> ipv4_miniroute list \<Rightarrow> (ipv4_miniroute \<times> in_addr) option" where
  "ipv4_route devs scope_id dest [] = None"
| "ipv4_route devs scope_id dest (r # rs) =
     (if \<not> dev_open (devs (mr_netdev r)) then ipv4_route devs scope_id dest rs
      else if IN_IS_MULTICAST dest then
        (if dev_scope_id (devs (mr_netdev r)) = scope_id then Some (r, dest)
         else ipv4_route devs scope_id dest rs)
      else if (dest XOR mr_network r) AND mr_netmask r = 0 then
        Some (r, if mr_gateway r \<noteq> 0 then mr_gateway r else dest)
      else ipv4_route devs scope_id dest rs)"

definition ipv4_netdev :: "(nat \<Rightarrow> net_device) \<Rightarrow> u32 \<Rightarrow> in_addr \<Rightarrow> ipv4_miniroute list \<Rightarrow> nat option" where
  "ipv4_netdev devs scope_id dest rs = map_option (\<lambda>(r, hop). mr_netdev r) (ipv4_route devs scope_id dest rs)"

definition ipv4_has_any_addr :: "nat \<Rightarrow> ipv4_miniroute list \<Rightarrow> bool" where
  "ipv4_has_any_addr netdev rs \<longleftrightarrow> list_ex (\<lambda>r. mr_netdev r = netdev) rs"

definition ipv4_has_addr :: "nat \<Rightarrow> in_addr \<Rightarrow> ipv4_miniroute list \<Rightarrow> bool" where
  "ipv4_has_addr netdev addr rs \<longleftrightarrow> list_ex (\<lambda>r. mr_netdev r = netdev \<and> mr_address r = addr) rs"

definition ipv4_arp_check :: "nat \<Rightarrow> in_addr \<Rightarrow> ipv4_miniroute list \<Rightarrow> unit result" where
  "ipv4_arp_check netdev addr rs = (if ipv4_has_addr netdev addr rs then Inr () else Inl ENOENT)"

section \<open>Longest prefix match\<close>

text \<open>A mask that covers a number of leading bits of an address.\<close>

definition prefix_mask :: "in_addr \<Rightarrow> bool" where
  "prefix_mask m \<longleftrightarrow> (\<exists>w \<le> 32. width_mask w = Some m)"

text \<open>One mask has all the bits of another.\<close>

definition covers :: "in_addr \<Rightarrow> in_addr \<Rightarrow> bool" where
  "covers m m' \<longleftrightarrow> m' AND NOT m = 0"

lemma covers_bits: "covers m m' \<longleftrightarrow> (\<forall>i. bit m' i \<longrightarrow> bit m i)" for m m' :: u32
proof -
  have "covers m m' \<longleftrightarrow> (\<forall>i < 32. \<not> bit (m' AND NOT m) i)"
    unfolding covers_def by (auto simp: bit_eq_iff)
  also have "\<dots> \<longleftrightarrow> (\<forall>i. bit m' i \<longrightarrow> bit m i)"
    using bit_imp_le_length [of m'] by (auto simp: bit_simps)
  finally show ?thesis .
qed

lemma covers_refl: "covers a a"
  by (auto simp: covers_bits)

lemma covers_trans: "covers a b \<Longrightarrow> covers b c \<Longrightarrow> covers a c"
  by (auto simp: covers_bits)

lemma covers_bswap: "covers a b \<Longrightarrow> covers (bswap_32 a) (bswap_32 b)"
proof -
  assume "covers a b"
  moreover have m: "(0x000000ff :: u32) = mask 8" "(0x0000ff00 :: u32) = push_bit 8 (mask 8)"
    "(0x00ff0000 :: u32) = push_bit 16 (mask 8)" "(0xff000000 :: u32) = push_bit 24 (mask 8)"
    by (simp_all add: mask_eq_exp_minus_1)
  ultimately show ?thesis unfolding covers_bits bswap_32_def m by (auto simp: bit_simps)
qed

lemma prefix_mask_total:
  assumes "prefix_mask a" and "prefix_mask b"
  shows "covers a b \<or> covers b a"
proof -
  let ?m = "\<lambda>w. ucast (push_bit (32 - w) (- 1 :: u64)) :: u32"
  have mask: "\<exists>w. m = htonl (?m w) \<and> w \<le> 32" if p: "prefix_mask m" for m
  proof -
    obtain w where w: "w \<le> 32" "width_mask w = Some m" using p by (auto simp: prefix_mask_def)
    have "?m 0 = 0" by (rule bit_word_eqI) (simp add: bit_simps)
    then have "htonl (?m 0) = 0" by (simp add: htonl_def bswap_32_def)
    with w show ?thesis by (intro exI [of _ w]) (auto simp: width_mask_def split: if_splits)
  qed
  obtain w v where w: "a = htonl (?m w)" "b = htonl (?m v)" "w \<le> 32" "v \<le> 32" using mask assms by blast
  have "covers (?m w) (?m v)" if "v \<le> w" for v w
    using that by (auto simp: covers_bits bit_simps)
  then have "covers (?m w) (?m v) \<or> covers (?m v) (?m w)" by (metis nat_le_linear)
  then show ?thesis unfolding w htonl_def by (blast intro: covers_bswap)
qed

text \<open>Tables in which no route is more specific than an earlier one.\<close>

definition table_sorted :: "ipv4_miniroute list \<Rightarrow> bool" where
  "table_sorted rs \<longleftrightarrow> sorted_wrt (\<lambda>r r'. covers (mr_netmask r) (mr_netmask r')) rs \<and> (\<forall>r \<in> set rs. prefix_mask (mr_netmask r))"

lemma set_insert_miniroute: "set (insert_miniroute r rs) = insert r (set rs)"
  by (induction rs) auto

lemma insert_miniroute_sorted:
  assumes "table_sorted rs" and "prefix_mask (mr_netmask r)"
  shows "table_sorted (insert_miniroute r rs)"
  using assms
proof (induction rs)
  case Nil
  then show ?case by (simp add: table_sorted_def)
next
  case (Cons x rs)
  show ?case
  proof (cases "mr_netmask r AND NOT (mr_netmask x) \<noteq> 0")
    case True
    then have "\<not> covers (mr_netmask x) (mr_netmask r)" by (simp add: covers_def)
    then have "covers (mr_netmask r) (mr_netmask x)"
      using prefix_mask_total [of "mr_netmask x" "mr_netmask r"] Cons.prems by (auto simp: table_sorted_def)
    with True Cons.prems show ?thesis by (auto simp: table_sorted_def intro: covers_trans)
  next
    case False
    then have "covers (mr_netmask x) (mr_netmask r)" by (simp add: covers_def)
    with False Cons show ?thesis by (auto simp: table_sorted_def set_insert_miniroute)
  qed
qed

lemma add_miniroute_sorted:
  "table_sorted rs \<Longrightarrow> prefix_mask netmask \<Longrightarrow> ipv4_add_miniroute mem dev address network netmask gateway rs = Inr rs' \<Longrightarrow> table_sorted rs'"
  using insert_miniroute_sorted by (auto simp: ipv4_add_miniroute_def split: if_splits)

lemma prefix_mask_width: "width_mask w = Some m \<Longrightarrow> prefix_mask m"
  by (auto simp: prefix_mask_def width_mask_def split: if_splits intro: exI [of _ w])

lemma add_static_sorted:
  "table_sorted rs \<Longrightarrow> ipv4_add_static mem dev address d rs = Some (rs', rc) \<Longrightarrow> table_sorted rs'"
proof (induction mem dev address d rs rule: ipv4_add_static.induct)
  case (1 mem dev address rs)
  then show ?case by (simp add: ipv4_add_static.simps)
next
  case (2 mem dev address w rest rs)
  let ?masklen = "(unat w + 7) div 8"
  show ?case
  proof (cases "length rest < ?masklen + 4")
    case True
    with 2 show ?thesis by (simp add: ipv4_add_static.simps)
  next
    case False
    then obtain m where m: "width_mask (unat w) = Some m"
      using 2(3) by (auto simp: ipv4_add_static.simps Let_def split: option.splits)
    let ?add = "ipv4_add_miniroute mem dev address (load_u32 rest AND m) m (load_u32 (drop ?masklen rest)) rs"
    show ?thesis
    proof (cases ?add)
      case (Inl e)
      with False m 2 show ?thesis by (simp add: ipv4_add_static.simps Let_def)
    next
      case (Inr rs1)
      then have "table_sorted rs1" using add_miniroute_sorted 2(2) prefix_mask_width m by blast
      moreover have "ipv4_add_static mem dev address (drop 4 (drop ?masklen rest)) rs1 = Some (rs', rc)"
        using 2(3) False m Inr by (simp add: ipv4_add_static.simps Let_def)
      ultimately show ?thesis using 2(1) [OF refl refl False m refl refl refl Inr] by blast
    qed
  qed
qed

text \<open>Tables that the code can build when every configured netmask is a prefix mask.\<close>

inductive ipv4_table :: "ipv4_miniroute list \<Rightarrow> bool" where
  empty: "ipv4_table []"
| add: "ipv4_table rs \<Longrightarrow> prefix_mask netmask \<Longrightarrow>
    ipv4_add_miniroutes mem netmask gateway routes dev address rs = Some (rs', rc) \<Longrightarrow> ipv4_table rs'"
| del: "ipv4_table rs \<Longrightarrow> ipv4_table (ipv4_del_miniroute r rs)"

lemma prefix_mask_default: "prefix_mask netmask \<Longrightarrow> prefix_mask (default_netmask netmask address)"
proof -
  have "width_mask 8 = Some INADDR_NET_CLASSA" "width_mask 16 = Some INADDR_NET_CLASSB" "width_mask 24 = Some INADDR_NET_CLASSC"
    by code_simp+
  then have "prefix_mask INADDR_NET_CLASSA" "prefix_mask INADDR_NET_CLASSB" "prefix_mask INADDR_NET_CLASSC"
    by (auto intro: prefix_mask_width)
  then show "prefix_mask netmask \<Longrightarrow> prefix_mask (default_netmask netmask address)" by (auto simp: default_netmask_def)
qed

lemma table_sorted_remove1: "table_sorted rs \<Longrightarrow> table_sorted (remove1 r rs)"
  by (induction rs) (auto simp: table_sorted_def dest: notin_set_remove1)

lemma ipv4_table_sorted: "ipv4_table rs \<Longrightarrow> table_sorted rs"
proof (induction rule: ipv4_table.induct)
  case (add rs netmask mem gateway routes dev address rs' rc)
  let ?m = "default_netmask netmask address"
  have z: "prefix_mask 0" by (rule prefix_mask_width [of 0]) (simp add: width_mask_def)
  show ?case
  proof (cases "ipv4_add_miniroute mem dev address (address AND ?m) ?m 0 rs")
    case (Inl e)
    with add show ?thesis by (simp add: ipv4_add_miniroutes_def Let_def)
  next
    case (Inr rs1)
    then have "table_sorted rs1" using add_miniroute_sorted add.IH prefix_mask_default [OF add.hyps(2)] by blast
    with Inr add.hyps(3) show ?thesis
      by (auto simp: ipv4_add_miniroutes_def Let_def split: option.splits if_splits sum.splits
          intro: add_static_sorted add_miniroute_sorted [OF _ z])
  qed
qed (simp_all add: table_sorted_def [of "[]"] ipv4_del_miniroute_def table_sorted_remove1)

definition usable :: "(nat \<Rightarrow> net_device) \<Rightarrow> in_addr \<Rightarrow> ipv4_miniroute \<Rightarrow> bool" where
  "usable devs dest r \<longleftrightarrow> dev_open (devs (mr_netdev r)) \<and> (dest XOR mr_network r) AND mr_netmask r = 0"

lemma ipv4_route_first:
  assumes "table_sorted rs" and "\<not> IN_IS_MULTICAST dest"
  shows "case ipv4_route devs scope_id dest rs of
      None \<Rightarrow> \<forall>r \<in> set rs. \<not> usable devs dest r
    | Some (r, hop) \<Rightarrow> r \<in> set rs \<and> usable devs dest r \<and> hop = (if mr_gateway r \<noteq> 0 then mr_gateway r else dest)
        \<and> (\<forall>r' \<in> set rs. usable devs dest r' \<longrightarrow> covers (mr_netmask r) (mr_netmask r'))"
  using assms
proof (induction rs)
  case (Cons r rs)
  have s: "table_sorted rs" using Cons.prems(1) by (simp add: table_sorted_def)
  show ?case
  proof (cases "usable devs dest r")
    case True
    then show ?thesis using Cons.prems by (auto simp: usable_def table_sorted_def covers_refl)
  next
    case False
    then have "ipv4_route devs scope_id dest (r # rs) = ipv4_route devs scope_id dest rs"
      using Cons.prems(2) by (auto simp: usable_def)
    with Cons.IH [OF s Cons.prems(2)] False show ?thesis by (auto split: option.splits)
  qed
qed simp


text \<open>Two networks and a default gateway, as two devices with addresses would configure them.\<close>

definition example_dev :: net_device where
  "example_dev = \<lparr>dev_open = True, dev_scope_id = 1, dev_rx_bad = 0, dev_rx_good = 0, ll_broadcast = replicate 6 0xff\<rparr>"

definition example_table :: "ipv4_miniroute list" where
  "example_table = fst (the (ipv4_add_miniroutes True (htonl 0xffffff00) (htonl 0xc0a80101) None 0 (htonl 0xc0a80105)
     (fst (the (ipv4_add_miniroutes True (htonl 0xff000000) 0 None 1 (htonl 0x0a000007) [])))))"

lemma example_table: "ipv4_table example_table"
proof -
  let ?t1 = "ipv4_add_miniroutes True (htonl 0xff000000) 0 None 1 (htonl 0x0a000007) []"
  let ?t2 = "ipv4_add_miniroutes True (htonl 0xffffff00) (htonl 0xc0a80101) None 0 (htonl 0xc0a80105) (fst (the ?t1))"
  have m: "width_mask 8 = Some (htonl 0xff000000)" "width_mask 24 = Some (htonl 0xffffff00)" by code_simp+
  have "?t1 = Some (fst (the ?t1), Inr ())" by code_simp
  then have "ipv4_table (fst (the ?t1))" by (rule ipv4_table.add [OF empty prefix_mask_width [OF m(1)]])
  moreover have "?t2 = Some (fst (the ?t2), Inr ())" by code_simp
  ultimately show ?thesis unfolding example_table_def by (rule ipv4_table.add [OF _ prefix_mask_width [OF m(2)]])
qed


end
