(* ===== verification/IoBuf.thy ===== *)
theory IoBuf
  imports Prelude
begin

text \<open>
  I/O buffers (include/ipxe/iobuf.h, core/iobuf.c). A buffer is the bytes from its head to its
  end, cut at the start and at the end of the data. An operation that would move a pointer out
  of the buffer, which the code asserts it does not, gives no buffer.
\<close>

record io_buffer =
  iob_before :: bytes
  iob_data :: bytes
  iob_after :: bytes

definition iob_len :: "io_buffer \<Rightarrow> nat" where
  "iob_len b = length (iob_data b)"

definition iob_headroom :: "io_buffer \<Rightarrow> nat" where
  "iob_headroom b = length (iob_before b)"

definition iob_tailroom :: "io_buffer \<Rightarrow> nat" where
  "iob_tailroom b = length (iob_after b)"

definition iob_reserve :: "io_buffer \<Rightarrow> nat \<Rightarrow> io_buffer option" where
  "iob_reserve b len =
     (let rest = iob_data b @ iob_after b
      in if len \<le> iob_tailroom b then
           Some \<lparr>iob_before = iob_before b @ take len rest,
                 iob_data = take (iob_len b) (drop len rest),
                 iob_after = drop (len + iob_len b) rest\<rparr>
         else None)"

definition iob_push :: "io_buffer \<Rightarrow> nat \<Rightarrow> io_buffer option" where
  "iob_push b len =
     (let n = iob_headroom b - len
      in if len \<le> iob_headroom b then
           Some (b\<lparr>iob_before := take n (iob_before b), iob_data := drop n (iob_before b) @ iob_data b\<rparr>)
         else None)"

definition iob_pull :: "io_buffer \<Rightarrow> nat \<Rightarrow> io_buffer option" where
  "iob_pull b len =
     (if len \<le> iob_len b then
        Some (b\<lparr>iob_before := iob_before b @ take len (iob_data b), iob_data := drop len (iob_data b)\<rparr>)
      else None)"

definition iob_put :: "io_buffer \<Rightarrow> nat \<Rightarrow> io_buffer option" where
  "iob_put b len =
     (if len \<le> iob_tailroom b then
        Some (b\<lparr>iob_data := iob_data b @ take len (iob_after b), iob_after := drop len (iob_after b)\<rparr>)
      else None)"

definition iob_unput :: "io_buffer \<Rightarrow> nat \<Rightarrow> io_buffer option" where
  "iob_unput b len =
     (let n = iob_len b - len
      in if len \<le> iob_len b then
           Some (b\<lparr>iob_data := take n (iob_data b), iob_after := drop n (iob_data b) @ iob_after b\<rparr>)
         else None)"

definition iob_empty :: "io_buffer \<Rightarrow> io_buffer" where
  "iob_empty b = b\<lparr>iob_data := [], iob_after := iob_data b @ iob_after b\<rparr>"

definition iob_populate :: "bytes \<Rightarrow> nat \<Rightarrow> io_buffer" where
  "iob_populate area len = \<lparr>iob_before = [], iob_data = take len area, iob_after = drop len area\<rparr>"

text \<open>Copying into the space that was just added at the end, or at the start.\<close>

definition iob_append :: "io_buffer \<Rightarrow> bytes \<Rightarrow> io_buffer option" where
  "iob_append b bs =
     map_option (\<lambda>b'. b'\<lparr>iob_data := take (iob_len b) (iob_data b') @ bs\<rparr>) (iob_put b (length bs))"

definition iob_prepend :: "io_buffer \<Rightarrow> bytes \<Rightarrow> io_buffer option" where
  "iob_prepend b bs =
     map_option (\<lambda>b'. b'\<lparr>iob_data := bs @ drop (length bs) (iob_data b')\<rparr>) (iob_push b (length bs))"

definition iob_ensure_headroom :: "io_buffer \<Rightarrow> nat \<Rightarrow> unit result" where
  "iob_ensure_headroom b len = (if iob_headroom b \<ge> len then Inr () else Inl ENOBUFS)"

text \<open>
  The outcome of an allocation is an argument: a fresh buffer without data, or None when there
  is no memory. The buffers of a list that is concatenated are freed.
\<close>

definition fresh_iob :: "nat \<Rightarrow> io_buffer option \<Rightarrow> bool" where
  "fresh_iob len a \<longleftrightarrow> (\<forall>b. a = Some b \<longrightarrow> iob_before b = [] \<and> iob_data b = [] \<and> len \<le> iob_tailroom b)"

fun iob_append_all :: "io_buffer \<Rightarrow> io_buffer list \<Rightarrow> io_buffer option" where
  "iob_append_all b [] = Some b"
| "iob_append_all b (x # xs) = Option.bind (iob_append b (iob_data x)) (\<lambda>b. iob_append_all b xs)"

definition iob_concatenate :: "(nat \<Rightarrow> io_buffer option) \<Rightarrow> io_buffer list \<Rightarrow> io_buffer list \<times> io_buffer option" where
  "iob_concatenate alloc bs =
     (case bs of
        [b] \<Rightarrow> ([], Some b)
      | _ \<Rightarrow>
          (case alloc (sum_list (map iob_len bs)) of
             None \<Rightarrow> (bs, None)
           | Some c \<Rightarrow> ([], iob_append_all c bs)))"

definition iob_split :: "(nat \<Rightarrow> io_buffer option) \<Rightarrow> io_buffer \<Rightarrow> nat \<Rightarrow> io_buffer \<times> io_buffer option" where
  "iob_split alloc b len =
     (case alloc len of
        None \<Rightarrow> (b, None)
      | Some s \<Rightarrow>
          (case (iob_append s (take len (iob_data b)), iob_pull b len) of
             (Some s, Some b) \<Rightarrow> (b, Some s)
           | _ \<Rightarrow> (b, None)))"

section \<open>What the operations do to the data\<close>

lemma iob_append_eq:
  "iob_append b bs = (if length bs \<le> iob_tailroom b
     then Some (b\<lparr>iob_data := iob_data b @ bs, iob_after := drop (length bs) (iob_after b)\<rparr>) else None)"
  by (simp add: iob_append_def iob_put_def iob_len_def)

lemma iob_prepend_eq:
  "iob_prepend b bs = (if length bs \<le> iob_headroom b
     then Some (b\<lparr>iob_before := take (iob_headroom b - length bs) (iob_before b), iob_data := bs @ iob_data b\<rparr>) else None)"
  by (simp add: iob_prepend_def iob_push_def iob_headroom_def Let_def)

lemma iob_prepend_data: "iob_prepend b bs = Some b' \<Longrightarrow> iob_data b' = bs @ iob_data b"
  by (auto simp: iob_prepend_eq split: if_splits)

lemma iob_append_data: "iob_append b bs = Some b' \<Longrightarrow> iob_data b' = iob_data b @ bs"
  by (auto simp: iob_append_eq split: if_splits)

lemma iob_reserve_data: "iob_reserve b len = Some b' \<Longrightarrow> iob_data b = [] \<Longrightarrow> iob_data b' = []"
  by (auto simp: iob_reserve_def iob_len_def Let_def split: if_splits)

lemma iob_pull_prepend: "iob_prepend b bs = Some b' \<Longrightarrow> map_option iob_data (iob_pull b' (length bs)) = Some (iob_data b)"
  by (auto simp: iob_prepend_eq iob_pull_def iob_len_def split: if_splits)

lemma iob_append_all_data:
  "sum_list (map iob_len bs) \<le> iob_tailroom b \<Longrightarrow>
     map_option iob_data (iob_append_all b bs) = Some (iob_data b @ concat (map iob_data bs))"
proof (induction bs arbitrary: b)
  case (Cons x xs)
  let ?b = "b\<lparr>iob_data := iob_data b @ iob_data x, iob_after := drop (iob_len x) (iob_after b)\<rparr>"
  have "map_option iob_data (iob_append_all ?b xs) = Some (iob_data ?b @ concat (map iob_data xs))"
    using Cons.prems by (intro Cons.IH) (simp add: iob_tailroom_def)
  then show ?case using Cons.prems by (simp add: iob_append_eq iob_len_def)
qed simp

lemma iob_concatenate_data:
  assumes "fresh_iob (sum_list (map iob_len bs)) (alloc (sum_list (map iob_len bs)))"
  shows "case iob_concatenate alloc bs of
      (bs', None) \<Rightarrow> bs' = bs | (bs', Some b) \<Rightarrow> bs' = [] \<and> iob_data b = concat (map iob_data bs)"
proof (cases "\<exists>b. bs = [b]")
  case True
  then show ?thesis by (auto simp: iob_concatenate_def)
next
  case False
  then have e: "iob_concatenate alloc bs = (case alloc (sum_list (map iob_len bs)) of
      None \<Rightarrow> (bs, None) | Some c \<Rightarrow> ([], iob_append_all c bs))"
    by (auto simp: iob_concatenate_def split: list.splits)
  show ?thesis
  proof (cases "alloc (sum_list (map iob_len bs))")
    case (Some c)
    then have "map_option iob_data (iob_append_all c bs) = Some (concat (map iob_data bs))"
      using iob_append_all_data [of bs c] assms by (simp add: fresh_iob_def)
    then show ?thesis by (auto simp: e Some)
  qed (simp add: e)
qed

lemma iob_split_data:
  assumes "len \<le> iob_len b" and "fresh_iob len (alloc len)"
  shows "case iob_split alloc b len of
      (b', None) \<Rightarrow> b' = b | (b', Some s) \<Rightarrow> iob_data s @ iob_data b' = iob_data b \<and> iob_len s = len"
proof (cases "alloc len")
  case (Some s)
  then have s: "iob_data s = []" "len \<le> iob_tailroom s" using assms(2) by (simp_all add: fresh_iob_def)
  let ?t = "take len (iob_data b)"
  have "length ?t = len" using assms(1) by (simp add: iob_len_def)
  then have "iob_append s ?t = Some (s\<lparr>iob_data := ?t, iob_after := drop len (iob_after s)\<rparr>)"
    using s by (simp add: iob_append_eq)
  then show ?thesis using Some assms(1) by (simp add: iob_split_def iob_pull_def iob_len_def)
qed (simp add: iob_split_def)

end
