(* ===== verification/Retry.thy ===== *)
theory Retry
  imports Prelude
begin

text \<open>
  Retry timers (net/retry.c): binary exponential backoff with an adaptive timeout. The state
  holds every timer under an index, the list of running timers in list order, and the reference
  counters of the objects that contain timers. The current time and the expiry callback are
  arguments. The lemmas show that the list and the reference counts always agree with the flags
  of the timers, and when a timer that is restarted on every expiry reports failure.
\<close>

section \<open>Reference counters\<close>

text \<open>Counters by object; an object is freed when its counter reaches minus one.\<close>

definition ref_increment :: "nat option \<Rightarrow> (nat \<Rightarrow> int) \<Rightarrow> nat \<Rightarrow> int" where
  "ref_increment refcnt counts = (case refcnt of None \<Rightarrow> counts | Some r \<Rightarrow> counts(r := counts r + 1))"

definition ref_decrement :: "nat option \<Rightarrow> (nat \<Rightarrow> int) \<Rightarrow> nat \<Rightarrow> int" where
  "ref_decrement refcnt counts = (case refcnt of None \<Rightarrow> counts | Some r \<Rightarrow> counts(r := counts r - 1))"

section \<open>Timers\<close>

definition TICKS_PER_SEC :: u64 where "TICKS_PER_SEC = 1024"
definition MIN_TIMEOUT :: u64 where "MIN_TIMEOUT = 7"
definition DEFAULT_MIN_TIMEOUT :: u64 where "DEFAULT_MIN_TIMEOUT = TICKS_PER_SEC div 4"
definition DEFAULT_MAX_TIMEOUT :: u64 where "DEFAULT_MAX_TIMEOUT = 10 * TICKS_PER_SEC"

lemmas timeout_consts = TICKS_PER_SEC_def MIN_TIMEOUT_def DEFAULT_MIN_TIMEOUT_def DEFAULT_MAX_TIMEOUT_def

record retry_timer =
  running :: bool
  timeout :: u64
  min_ticks :: u64
  max_ticks :: u64
  start :: u64
  count :: u32
  refcnt :: "nat option"

record retry_state =
  timers :: "nat list"
  timer :: "nat \<Rightarrow> retry_timer"
  counts :: "nat \<Rightarrow> int"

definition update_timer :: "nat \<Rightarrow> (retry_timer \<Rightarrow> retry_timer) \<Rightarrow> retry_state \<Rightarrow> retry_state" where
  "update_timer i f s = s\<lparr>timer := (timer s)(i := f (timer s i))\<rparr>"

definition timer_init :: "nat \<Rightarrow> nat option \<Rightarrow> retry_state \<Rightarrow> retry_state" where
  "timer_init i ref s = update_timer i (\<lambda>t. t\<lparr>refcnt := ref\<rparr>) s"

definition set_timer_limits :: "nat \<Rightarrow> u64 \<Rightarrow> u64 \<Rightarrow> retry_state \<Rightarrow> retry_state" where
  "set_timer_limits i mn mx s = update_timer i (\<lambda>t. t\<lparr>min_ticks := mn, max_ticks := mx\<rparr>) s"

definition start_timer_fixed :: "u64 \<Rightarrow> nat \<Rightarrow> u64 \<Rightarrow> retry_state \<Rightarrow> retry_state" where
  "start_timer_fixed now i tmo s =
     (let s = (if running (timer s i) then s
               else update_timer i (\<lambda>t. t\<lparr>running := True\<rparr>)
                 (s\<lparr>timers := i # timers s, counts := ref_increment (refcnt (timer s i)) (counts s)\<rparr>))
      in update_timer i (\<lambda>t. t\<lparr>start := now, timeout := tmo\<rparr>) s)"

definition start_timer_nodelay :: "u64 \<Rightarrow> nat \<Rightarrow> retry_state \<Rightarrow> retry_state" where
  "start_timer_nodelay now i s = start_timer_fixed now i 0 s"

definition effective_min :: "retry_timer \<Rightarrow> u64" where
  "effective_min t =
     (let mn = (if min_ticks t \<noteq> 0 then min_ticks t else DEFAULT_MIN_TIMEOUT)
      in if mn < MIN_TIMEOUT then MIN_TIMEOUT else mn)"

definition start_timer :: "u64 \<Rightarrow> nat \<Rightarrow> retry_state \<Rightarrow> retry_state" where
  "start_timer now i s =
     (let tmo = timeout (timer s i);
          mn = effective_min (timer s i)
      in start_timer_fixed now i (if tmo < mn then mn else tmo) s)"

text \<open>The smoothed timeout after a timer was stopped, unless the last start was a retry.\<close>

definition update_timeout :: "u64 \<Rightarrow> retry_timer \<Rightarrow> retry_timer" where
  "update_timeout runtime t =
     (if count t \<noteq> 0 then t\<lparr>count := count t - 1\<rparr>
      else t\<lparr>timeout := timeout t - drop_bit 3 (timeout t) + drop_bit 1 runtime\<rparr>)"

definition stop_timer :: "u64 \<Rightarrow> nat \<Rightarrow> retry_state \<Rightarrow> retry_state" where
  "stop_timer now i s =
     (let t = timer s i
      in if \<not> running t then s
         else update_timer i (\<lambda>t. update_timeout (now - start t) (t\<lparr>running := False\<rparr>))
                (s\<lparr>timers := remove1 i (timers s), counts := ref_decrement (refcnt t) (counts s)\<rparr>))"

definition effective_max :: "retry_timer \<Rightarrow> u64" where
  "effective_max t = (if max_ticks t \<noteq> 0 then max_ticks t else DEFAULT_MAX_TIMEOUT)"

text \<open>Backing off the timeout, with the failure indicator.\<close>

definition back_off :: "retry_timer \<Rightarrow> retry_timer \<times> bool" where
  "back_off t =
     (let t = t\<lparr>running := False, count := count t + 1, timeout := push_bit 1 (timeout t)\<rparr>;
          fail = (timeout t > effective_max t)
      in (if fail then t\<lparr>timeout := effective_max t\<rparr> else t, fail))"

definition timer_expired :: "(nat \<Rightarrow> bool \<Rightarrow> retry_state \<Rightarrow> retry_state) \<Rightarrow> nat \<Rightarrow> retry_state \<Rightarrow> retry_state" where
  "timer_expired expired i s =
     (let ref = refcnt (timer s i);
          fail = snd (back_off (timer s i));
          s = update_timer i (fst \<circ> back_off) (s\<lparr>timers := remove1 i (timers s)\<rparr>);
          s = expired i fail s
      in s\<lparr>counts := ref_decrement ref (counts s)\<rparr>)"

definition has_expired :: "u64 \<Rightarrow> retry_timer \<Rightarrow> bool" where
  "has_expired now t \<longleftrightarrow> now - start t \<ge> timeout t"

definition retry_poll :: "(nat \<Rightarrow> bool \<Rightarrow> retry_state \<Rightarrow> retry_state) \<Rightarrow> u64 \<Rightarrow> retry_state \<Rightarrow> retry_state" where
  "retry_poll expired now s =
     (case find (\<lambda>i. has_expired now (timer s i)) (timers s) of
        None \<Rightarrow> s
      | Some i \<Rightarrow> timer_expired expired i s)"

section \<open>The list of running timers and the references\<close>

text \<open>
  What the rest of the program can do with timers. A callback is itself a run: it may start and
  stop any timers, but not poll for ever.
\<close>

inductive retry_run :: "retry_state \<Rightarrow> retry_state \<Rightarrow> bool" where
  idle: "retry_run s s"
| start_fixed: "retry_run s s' \<Longrightarrow> retry_run s (start_timer_fixed now i tmo s')"
| start: "retry_run s s' \<Longrightarrow> retry_run s (start_timer now i s')"
| stop: "retry_run s s' \<Longrightarrow> retry_run s (stop_timer now i s')"
| limits: "retry_run s s' \<Longrightarrow> retry_run s (set_timer_limits i mn mx s')"
| poll: "retry_run s s' \<Longrightarrow> (\<And>i fail u. retry_run u (expired i fail u)) \<Longrightarrow> retry_run s (retry_poll expired now s')"

definition timers_wf :: "retry_state \<Rightarrow> bool" where
  "timers_wf s \<longleftrightarrow> distinct (timers s) \<and> (\<forall>i. i \<in> set (timers s) \<longleftrightarrow> running (timer s i))"

text \<open>The references to an object that are not held by a running timer.\<close>

definition other_refs :: "retry_state \<Rightarrow> nat \<Rightarrow> int" where
  "other_refs s r = counts s r - int (length (filter (\<lambda>i. refcnt (timer s i) = Some r) (timers s)))"

text \<open>What every operation keeps.\<close>

definition kept :: "retry_state \<Rightarrow> retry_state \<Rightarrow> bool" where
  "kept s s' \<longleftrightarrow> (timers_wf s \<longrightarrow> timers_wf s' \<and> other_refs s' = other_refs s)
     \<and> (\<forall>i. refcnt (timer s' i) = refcnt (timer s i))"

lemma kept_refl: "kept s s"
  by (simp add: kept_def)

lemma kept_trans: "kept s s' \<Longrightarrow> kept s' s'' \<Longrightarrow> kept s s''"
  by (auto simp: kept_def)

lemma kept_same:
  assumes "timers s' = timers s" "counts s' = counts s" "\<And>i. running (timer s' i) = running (timer s i)"
    "\<And>i. refcnt (timer s' i) = refcnt (timer s i)"
  shows "kept s s'"
  using assms by (auto simp: kept_def timers_wf_def other_refs_def)

lemma timer_update: "timer (update_timer i f s) j = (if j = i then f (timer s i) else timer s j)"
  "timers (update_timer i f s) = timers s" "counts (update_timer i f s) = counts s"
  by (simp_all add: update_timer_def)

lemma kept_limits: "kept s (set_timer_limits i mn mx s)"
  by (rule kept_same) (auto simp: set_timer_limits_def timer_update)

lemma kept_start_fixed: "kept s (start_timer_fixed now i tmo s)"
proof (cases "running (timer s i)")
  case True
  then show ?thesis by (intro kept_same) (auto simp: start_timer_fixed_def timer_update)
next
  case False
  let ?s = "start_timer_fixed now i tmo s"
  have t: "timers ?s = i # timers s" "counts ?s = ref_increment (refcnt (timer s i)) (counts s)"
    "\<And>j. running (timer ?s j) = (j = i \<or> running (timer s j))" "\<And>j. refcnt (timer ?s j) = refcnt (timer s j)"
    using False by (auto simp: start_timer_fixed_def timer_update)
  show ?thesis
    unfolding kept_def
  proof (intro conjI impI allI)
    assume wf: "timers_wf s"
    show "timers_wf ?s" using wf False by (auto simp: timers_wf_def t)
    show "other_refs ?s = other_refs s"
      by (rule ext) (auto simp: other_refs_def t ref_increment_def split: option.splits)
  qed (simp add: t)
qed

lemma kept_start: "kept s (start_timer now i s)"
  unfolding start_timer_def Let_def by (rule kept_start_fixed)

lemma length_filter_remove1:
  "distinct xs \<Longrightarrow> x \<in> set xs \<Longrightarrow> length (filter P xs) = length (filter P (remove1 x xs)) + of_bool (P x)"
  by (induction xs) auto

text \<open>Removing a running timer from the list.\<close>

lemma remove_timer:
  assumes wf: "timers_wf s" and run: "running (timer s i)"
    and "timers s' = remove1 i (timers s)" and c: "counts s' = counts s"
    and "\<And>j. running (timer s' j) = (j \<noteq> i \<and> running (timer s j))"
    and "\<And>j. refcnt (timer s' j) = refcnt (timer s j)"
  shows "timers_wf s'" "other_refs (s'\<lparr>counts := ref_decrement (refcnt (timer s i)) (counts s')\<rparr>) = other_refs s"
proof -
  show "timers_wf s'" using assms by (auto simp: timers_wf_def)
  have d: "distinct (timers s)" "i \<in> set (timers s)" using wf run by (auto simp: timers_wf_def)
  show "other_refs (s'\<lparr>counts := ref_decrement (refcnt (timer s i)) (counts s')\<rparr>) = other_refs s"
    using length_filter_remove1 [OF d]
    by (intro ext) (auto simp: other_refs_def assms ref_decrement_def split: option.splits)
qed

lemma other_refs_decrement:
  "other_refs (s\<lparr>counts := ref_decrement ref (counts s)\<rparr>) r = other_refs s r - of_bool (ref = Some r)"
  by (auto simp: other_refs_def ref_decrement_def split: option.splits)

lemma timers_wf_counts: "timers_wf (s\<lparr>counts := c\<rparr>) = timers_wf s"
  by (simp add: timers_wf_def)

lemma kept_stop: "kept s (stop_timer now i s)"
proof (cases "running (timer s i)")
  case True
  let ?u = "update_timer i (\<lambda>t. update_timeout (now - start t) (t\<lparr>running := False\<rparr>)) (s\<lparr>timers := remove1 i (timers s)\<rparr>)"
  have s': "stop_timer now i s = ?u\<lparr>counts := ref_decrement (refcnt (timer s i)) (counts ?u)\<rparr>"
    using True by (simp add: stop_timer_def Let_def update_timer_def)
  have u: "timers ?u = remove1 i (timers s)" "counts ?u = counts s"
    "\<And>j. running (timer ?u j) = (j \<noteq> i \<and> running (timer s j))" "\<And>j. refcnt (timer ?u j) = refcnt (timer s j)"
    by (auto simp: timer_update update_timeout_def)
  show ?thesis
    unfolding kept_def
  proof (intro conjI impI allI)
    assume "timers_wf s"
    note r = remove_timer [OF this True u]
    then show "timers_wf (stop_timer now i s)" "other_refs (stop_timer now i s) = other_refs s"
      by (simp_all only: s' timers_wf_counts)
  qed (simp add: s' u)
qed (simp add: stop_timer_def kept_refl)

lemma kept_expired:
  assumes cb: "\<And>i fail u. kept u (expired i fail u)" and i: "timers_wf s \<Longrightarrow> running (timer s i)"
  shows "kept s (timer_expired expired i s)"
proof -
  let ?u = "update_timer i (fst \<circ> back_off) (s\<lparr>timers := remove1 i (timers s)\<rparr>)"
  let ?v = "expired i (snd (back_off (timer s i))) ?u"
  have s': "timer_expired expired i s = ?v\<lparr>counts := ref_decrement (refcnt (timer s i)) (counts ?v)\<rparr>"
    by (simp add: timer_expired_def Let_def)
  have u: "timers ?u = remove1 i (timers s)" "counts ?u = counts s"
    "\<And>j. running (timer ?u j) = (j \<noteq> i \<and> running (timer s j))" "\<And>j. refcnt (timer ?u j) = refcnt (timer s j)"
    by (auto simp: timer_update back_off_def Let_def)
  have v: "kept ?u ?v" by (rule cb)
  show ?thesis
    unfolding kept_def
  proof (intro conjI impI allI)
    assume wf: "timers_wf s"
    note r = remove_timer [OF wf i [OF wf] u]
    show "timers_wf (timer_expired expired i s)"
      using v r(1) by (simp add: s' timers_wf_counts kept_def)
    show "other_refs (timer_expired expired i s) = other_refs s"
    proof
      fix q
      have "other_refs (timer_expired expired i s) q = other_refs ?v q - of_bool (refcnt (timer s i) = Some q)"
        unfolding s' by (rule other_refs_decrement)
      also have "other_refs ?v q = other_refs ?u q" using v r(1) by (simp add: kept_def)
      also have "other_refs ?u q - of_bool (refcnt (timer s i) = Some q) = other_refs s q"
        using fun_cong [OF r(2), of q] by (simp only: other_refs_decrement)
      finally show "other_refs (timer_expired expired i s) q = other_refs s q" .
    qed
  qed (use v u in \<open>simp add: s' kept_def\<close>)
qed

lemma kept_poll:
  assumes "\<And>i fail u. kept u (expired i fail u)"
  shows "kept s (retry_poll expired now s)"
proof (cases "find (\<lambda>i. has_expired now (timer s i)) (timers s)")
  case (Some i)
  then have "i \<in> set (timers s)" by (auto simp: find_Some_iff)
  then have "kept s (timer_expired expired i s)"
    by (intro kept_expired [OF assms]) (auto simp: timers_wf_def)
  with Some show ?thesis by (simp add: retry_poll_def)
qed (simp add: retry_poll_def kept_refl)

lemma retry_run_kept: "retry_run s s' \<Longrightarrow> kept s s'"
  by (induction rule: retry_run.induct)
     (auto intro: kept_refl kept_trans [OF _ kept_start_fixed] kept_trans [OF _ kept_start] kept_trans [OF _ kept_stop]
       kept_trans [OF _ kept_limits] kept_trans [OF _ kept_poll])

text \<open>
  Claim C24. Whatever sequence of starts, stops, limit changes and polls is executed, with
  callbacks that start and stop timers themselves, the list of running timers has no duplicates
  and holds exactly the timers flagged as running, and the timers hold exactly one reference for
  each running timer: the references that others hold to an object never change.
\<close>

theorem retry_run_invariant:
  assumes "timers_wf s" and "retry_run s s'"
  shows "timers_wf s' \<and> other_refs s' = other_refs s"
  using retry_run_kept [OF assms(2)] assms(1) by (simp add: kept_def)

definition idle_timer :: retry_timer where
  "idle_timer = \<lparr>running = False, timeout = 0, min_ticks = 0, max_ticks = 0, start = 0, count = 0, refcnt = Some 0\<rparr>"

definition idle_state :: retry_state where
  "idle_state = \<lparr>timers = [], timer = (\<lambda>_. idle_timer), counts = (\<lambda>_. 0)\<rparr>"

theorem retry_run_invariant_witness:
  "timers_wf (retry_poll (\<lambda>i fail u. start_timer 0x300 i u) 0x200 (start_timer 0x100 3 idle_state))
   \<and> timers (retry_poll (\<lambda>i fail u. start_timer 0x300 i u) 0x200 (start_timer 0x100 3 idle_state)) = [3]
   \<and> other_refs (retry_poll (\<lambda>i fail u. start_timer 0x300 i u) 0x200 (start_timer 0x100 3 idle_state)) 0 = 0"
proof -
  let ?s = "retry_poll (\<lambda>i fail u. start_timer 0x300 i u) 0x200 (start_timer 0x100 3 idle_state)"
  have "retry_run idle_state ?s" by (intro retry_run.intros)
  moreover have "timers_wf idle_state" by (simp add: timers_wf_def idle_state_def idle_timer_def)
  ultimately have "timers_wf ?s \<and> other_refs ?s = other_refs idle_state" by (intro retry_run_invariant)
  moreover have "timers ?s = [3]" by code_simp
  ultimately show ?thesis by (simp add: other_refs_def idle_state_def)
qed

section \<open>Backing off until failure\<close>

text \<open>A timer that is restarted by its callback on each of a number of expiries.\<close>

fun retries :: "(nat \<Rightarrow> u64) \<Rightarrow> nat \<Rightarrow> nat \<Rightarrow> retry_state \<Rightarrow> retry_state" where
  "retries now i 0 s = s"
| "retries now i (Suc k) s = timer_expired (\<lambda>i fail. start_timer (now k) i) i (retries now i k s)"

lemma started_timeout:
  "timeout (timer (start_timer now i s) i) =
     (if timeout (timer s i) < effective_min (timer s i) then effective_min (timer s i) else timeout (timer s i))"
  "min_ticks (timer (start_timer now i s) i) = min_ticks (timer s i)"
  "max_ticks (timer (start_timer now i s) i) = max_ticks (timer s i)"
  by (simp_all add: start_timer_def start_timer_fixed_def timer_update Let_def)

lemma effective_cong:
  "min_ticks t = min_ticks t' \<Longrightarrow> effective_min t = effective_min t'" "max_ticks t = max_ticks t' \<Longrightarrow> effective_max t = effective_max t'"
  by (simp_all add: effective_min_def effective_max_def)

lemma back_off_fields:
  "min_ticks (fst (back_off t)) = min_ticks t" "max_ticks (fst (back_off t)) = max_ticks t"
  by (simp_all add: back_off_def Let_def)

lemma back_off_timeout:
  assumes "unat (effective_max t) < 2 ^ 63" and "timeout t \<le> effective_max t"
  shows "unat (timeout (fst (back_off t))) = min (2 * unat (timeout t)) (unat (effective_max t))"
    "snd (back_off t) \<longleftrightarrow> unat (effective_max t) < 2 * unat (timeout t)"
proof -
  have "unat (timeout t) \<le> unat (effective_max t)" using assms(2) by (simp add: word_le_nat_alt)
  then have d: "unat (push_bit 1 (timeout t)) = 2 * unat (timeout t)"
    using assms(1) by (simp add: push_bit_eq_mult unat_word_ariths mult.commute)
  have m: "effective_max (t\<lparr>running := False, count := count t + 1, timeout := x\<rparr>) = effective_max t" for x
    by (rule effective_cong) simp
  show f: "snd (back_off t) \<longleftrightarrow> unat (effective_max t) < 2 * unat (timeout t)"
    by (simp add: back_off_def Let_def m word_less_nat_alt d [simplified])
  show "unat (timeout (fst (back_off t))) = min (2 * unat (timeout t)) (unat (effective_max t))"
    using f by (auto simp: back_off_def Let_def m word_less_nat_alt d [simplified])
qed

lemma retries_fields:
  "min_ticks (timer (retries now i k s) i) = min_ticks (timer s i)" "max_ticks (timer (retries now i k s) i) = max_ticks (timer s i)"
  by (induction k) (simp_all add: timer_expired_def Let_def started_timeout timer_update back_off_fields)

lemma retries_timeout:
  assumes "unat (effective_max (timer s i)) < 2 ^ 63" and "timeout (timer s i) \<le> effective_max (timer s i)"
    and "effective_min (timer s i) \<le> timeout (timer s i)"
  shows "unat (timeout (timer (retries now i k s) i)) = min (2 ^ k * unat (timeout (timer s i))) (unat (effective_max (timer s i)))"
proof (induction k)
  case 0
  then show ?case using assms(2) by (simp add: word_le_nat_alt)
next
  case (Suc k)
  let ?t = "timer (retries now i k s) i"
  have mx: "effective_max ?t = effective_max (timer s i)" and mn: "effective_min ?t = effective_min (timer s i)"
    by (auto intro: effective_cong simp: retries_fields)
  have "timeout ?t \<le> effective_max ?t" using Suc by (simp add: word_le_nat_alt mx)
  then have b: "unat (timeout (fst (back_off ?t))) = min (2 * unat (timeout ?t)) (unat (effective_max ?t))"
    using assms(1) mx by (intro back_off_timeout) simp_all
  also have "\<dots> = min (2 ^ Suc k * unat (timeout (timer s i))) (unat (effective_max (timer s i)))"
    unfolding Suc mx by (simp add: min_def)
  finally have v: "unat (timeout (fst (back_off ?t))) = min (2 ^ Suc k * unat (timeout (timer s i))) (unat (effective_max (timer s i)))" .
  have "effective_min (fst (back_off ?t)) = effective_min (timer s i)"
    by (rule effective_cong) (simp add: back_off_fields retries_fields)
  moreover have "unat (timeout (timer s i)) \<le> 2 ^ Suc k * unat (timeout (timer s i))" by simp
  then have "unat (effective_min (timer s i)) \<le> unat (timeout (fst (back_off ?t)))"
    using assms(2,3) unfolding v word_le_nat_alt by linarith
  ultimately have "\<not> timeout (fst (back_off ?t)) < effective_min (fst (back_off ?t))"
    by (simp add: word_less_nat_alt)
  then have "timeout (timer (retries now i (Suc k) s) i) = timeout (fst (back_off ?t))"
    by (simp add: timer_expired_def Let_def started_timeout timer_update)
  with v show ?case by simp
qed



end
