(* ===== verification/Fragment.thy ===== *)
theory Fragment
  imports IoBuf Retry
begin

text \<open>
  Reassembly of fragmented packets (net/fragment.c). The methods that a network layer provides
  are a record of functions, the outcomes of the two allocations and the current time are
  arguments. The lemmas are proved once for any methods that satisfy the contract of the locale:
  the list of reassembly buffers refines a map from datagrams to partial packets.
\<close>

section \<open>Statistics\<close>

record ip_statistics =
  in_receives :: u64
  in_octets :: u64
  in_hdr_errors :: u64
  in_addr_errors :: u64
  in_unknown_protos :: u64
  in_truncated_pkts :: u64
  reasm_reqds :: u64
  reasm_oks :: u64
  reasm_fails :: u64
  in_delivers :: u64
  out_requests :: u64
  out_no_routes :: u64
  out_transmits :: u64
  out_octets :: u64
  in_mcast_pkts :: u64
  out_mcast_pkts :: u64
  in_bcast_pkts :: u64
  out_bcast_pkts :: u64

section \<open>Reassembly\<close>

definition FRAGMENT_TIMEOUT :: u64 where
  "FRAGMENT_TIMEOUT = TICKS_PER_SEC div 2"

text \<open>A reassembly buffer; its timer is the timer with the same index.\<close>

record fragment =
  frag_id :: nat
  frag_iobuf :: io_buffer
  frag_hdrlen :: nat

record fragment_methods =
  is_fragment :: "fragment \<Rightarrow> io_buffer \<Rightarrow> nat \<Rightarrow> bool"
  fragment_offset :: "io_buffer \<Rightarrow> nat \<Rightarrow> nat"
  more_fragments :: "io_buffer \<Rightarrow> nat \<Rightarrow> bool"

record fragment_reassembler =
  frag_list :: "fragment list"
  frag_timers :: retry_state
  frag_stats :: ip_statistics

definition fragment_expired :: "nat \<Rightarrow> fragment_reassembler \<Rightarrow> fragment_reassembler" where
  "fragment_expired i r =
     r\<lparr>frag_list := filter (\<lambda>f. frag_id f \<noteq> i) (frag_list r),
       frag_stats := (frag_stats r)\<lparr>reasm_fails := reasm_fails (frag_stats r) + 1\<rparr>\<rparr>"

definition fragment_find :: "fragment_methods \<Rightarrow> fragment_reassembler \<Rightarrow> io_buffer \<Rightarrow> nat \<Rightarrow> fragment option" where
  "fragment_find m r iobuf hdrlen = find (\<lambda>f. is_fragment m f iobuf hdrlen) (frag_list r)"

text \<open>The exit for dropped fragments.\<close>

definition fragment_drop :: "fragment_reassembler \<Rightarrow> fragment_reassembler" where
  "fragment_drop r = r\<lparr>frag_stats := (frag_stats r)\<lparr>reasm_fails := reasm_fails (frag_stats r) + 1\<rparr>\<rparr>"

text \<open>A timer in zeroed memory, initialised without a reference counter.\<close>

definition new_timer :: retry_timer where
  "new_timer = \<lparr>running = False, timeout = 0, min_ticks = 0, max_ticks = 0, start = 0, count = 0, refcnt = None\<rparr>"

definition fragment_create ::
  "u64 \<Rightarrow> nat \<Rightarrow> io_buffer \<Rightarrow> nat \<Rightarrow> fragment_reassembler \<Rightarrow> fragment_reassembler" where
  "fragment_create now i iobuf hdrlen r =
     r\<lparr>frag_list := \<lparr>frag_id = i, frag_iobuf = iobuf, frag_hdrlen = hdrlen\<rparr> # frag_list r,
       frag_timers := start_timer_fixed now i FRAGMENT_TIMEOUT
         (timer_init i None ((frag_timers r)\<lparr>timer := (timer (frag_timers r))(i := new_timer)\<rparr>))\<rparr>"

definition fragment_extend :: "io_buffer \<Rightarrow> io_buffer \<Rightarrow> io_buffer \<Rightarrow> io_buffer option" where
  "fragment_extend new_iobuf old iobuf =
     Option.bind (iob_reserve new_iobuf (iob_headroom old)) (\<lambda>b.
     Option.bind (iob_append b (iob_data old)) (\<lambda>b. iob_append b (iob_data iobuf)))"

definition fragment_reassemble ::
  "fragment_methods \<Rightarrow> u64 \<Rightarrow> nat option \<Rightarrow> (nat \<Rightarrow> io_buffer option) \<Rightarrow> io_buffer \<Rightarrow> nat
    \<Rightarrow> fragment_reassembler \<Rightarrow> (fragment_reassembler \<times> (io_buffer \<times> nat) option) option" where
  "fragment_reassemble m now new alloc iobuf hdrlen r =
     (let r = r\<lparr>frag_stats := (frag_stats r)\<lparr>reasm_reqds := reasm_reqds (frag_stats r) + 1\<rparr>\<rparr>;
          fragment = fragment_find m r iobuf hdrlen;
          offset = fragment_offset m iobuf hdrlen;
          expected_offset = (case fragment of
             Some f \<Rightarrow> iob_len (frag_iobuf f) - frag_hdrlen f | None \<Rightarrow> 0)
      in if offset \<noteq> expected_offset then Some (fragment_drop r, None)
         else
           (case fragment of
              None \<Rightarrow>
                (case new of
                   None \<Rightarrow> Some (fragment_drop r, None)
                 | Some i \<Rightarrow> Some (fragment_create now i iobuf hdrlen r, None))
            | Some f \<Rightarrow>
                let more_frags = more_fragments m iobuf hdrlen
                in Option.bind (iob_pull iobuf hdrlen) (\<lambda>iobuf.
                   case alloc (iob_headroom (frag_iobuf f) + iob_len (frag_iobuf f) + iob_len iobuf) of
                     None \<Rightarrow> Some (fragment_drop r, None)
                   | Some b \<Rightarrow>
                       Option.bind (fragment_extend b (frag_iobuf f) iobuf) (\<lambda>b.
                         let r = r\<lparr>frag_list := map (\<lambda>g. if frag_id g = frag_id f then g\<lparr>frag_iobuf := b\<rparr> else g) (frag_list r),
                                   frag_timers := stop_timer now (frag_id f) (frag_timers r)\<rparr>
                         in if \<not> more_frags then
                              Some (r\<lparr>frag_list := filter (\<lambda>g. frag_id g \<noteq> frag_id f) (frag_list r),
                                      frag_stats := (frag_stats r)\<lparr>reasm_oks := reasm_oks (frag_stats r) + 1\<rparr>\<rparr>,
                                    Some (b, frag_hdrlen f))
                            else Some (r\<lparr>frag_timers := start_timer_fixed now (frag_id f) FRAGMENT_TIMEOUT (frag_timers r)\<rparr>,
                                       None)))))"

section \<open>Specification\<close>

text \<open>
  A map from datagrams to the part of the packet assembled so far and the length of its header.
  The flags tell whether more fragments follow and whether there is memory.
\<close>

type_synonym 'k assembly = "'k \<rightharpoonup> bytes \<times> nat"

definition reassemble_spec ::
  "'k \<Rightarrow> nat \<Rightarrow> bool \<Rightarrow> bool \<Rightarrow> bytes \<Rightarrow> nat \<Rightarrow> 'k assembly \<Rightarrow> 'k assembly \<times> (bytes \<times> nat) option" where
  "reassemble_spec k offset mf ok pkt hdrlen m =
     (case m k of
        None \<Rightarrow> if offset = 0 \<and> ok then (m(k \<mapsto> (pkt, hdrlen)), None) else (m, None)
      | Some (b, bh) \<Rightarrow>
          if offset = length b - bh \<and> ok then
            (if mf then (m(k \<mapsto> (b @ drop hdrlen pkt, bh)), None)
             else (m(k := None), Some (b @ drop hdrlen pkt, bh)))
          else (m, None))"

text \<open>The map that a list of reassembly buffers stands for, and when it is well formed.\<close>

definition frag_key :: "(bytes \<Rightarrow> nat \<Rightarrow> 'k) \<Rightarrow> fragment \<Rightarrow> 'k" where
  "frag_key key f = key (iob_data (frag_iobuf f)) (frag_hdrlen f)"

definition assembly :: "(bytes \<Rightarrow> nat \<Rightarrow> 'k) \<Rightarrow> fragment list \<Rightarrow> 'k assembly" where
  "assembly key fs = map_of (map (\<lambda>f. (frag_key key f, (iob_data (frag_iobuf f), frag_hdrlen f))) fs)"

definition reassembler_wf :: "(bytes \<Rightarrow> nat \<Rightarrow> 'k) \<Rightarrow> (bytes \<Rightarrow> nat \<Rightarrow> bool) \<Rightarrow> fragment list \<Rightarrow> bool" where
  "reassembler_wf key valid fs \<longleftrightarrow> distinct (map frag_id fs) \<and> distinct (map (frag_key key) fs)
     \<and> (\<forall>f \<in> set fs. valid (iob_data (frag_iobuf f)) (frag_hdrlen f))"

lemma assembly_None: "assembly key fs k = None \<longleftrightarrow> k \<notin> frag_key key ` set fs"
  by (auto simp: assembly_def map_of_eq_None_iff image_image)

lemma assembly_Some:
  assumes "distinct (map (frag_key key) fs)" and "f \<in> set fs"
  shows "assembly key fs (frag_key key f) = Some (iob_data (frag_iobuf f), frag_hdrlen f)"
  using assms unfolding assembly_def by (intro map_of_is_SomeI) (auto simp: comp_def)

lemma assembly_delete:
  assumes "distinct (map frag_id fs)" and "distinct (map (frag_key key) fs)" and "f \<in> set fs"
  shows "assembly key (filter (\<lambda>g. frag_id g \<noteq> frag_id f) fs) = (assembly key fs)(frag_key key f := None)"
  using assms
proof (induction fs)
  case (Cons g gs)
  show ?case
  proof (cases "g = f")
    case True
    then have "filter (\<lambda>g. frag_id g \<noteq> frag_id f) gs = gs" using Cons.prems(1) by (intro filter_True) (auto simp: image_iff)
    moreover have "assembly key gs (frag_key key f) = None" using True Cons.prems(2) by (auto simp: assembly_None)
    ultimately show ?thesis using True by (auto simp: assembly_def)
  next
    case False
    then have f: "f \<in> set gs" "frag_id g \<noteq> frag_id f" "frag_key key g \<noteq> frag_key key f" using Cons.prems by auto
    then show ?thesis using Cons by (auto simp: assembly_def)
  qed
qed simp

lemma assembly_replace:
  assumes "distinct (map frag_id fs)" and "distinct (map (frag_key key) fs)" and "f \<in> set fs"
    and "frag_key key f' = frag_key key f"
  shows "assembly key (map (\<lambda>g. if frag_id g = frag_id f then f' else g) fs) =
    (assembly key fs)(frag_key key f \<mapsto> (iob_data (frag_iobuf f'), frag_hdrlen f'))"
  using assms
proof (induction fs)
  case (Cons g gs)
  show ?case
  proof (cases "g = f")
    case True
    then have "map (\<lambda>g. if frag_id g = frag_id f then f' else g) gs = gs" using Cons.prems(1) by (intro map_idI) (auto simp: image_iff)
    then show ?thesis using True Cons.prems(4) by (auto simp: assembly_def)
  next
    case False
    then have f: "f \<in> set gs" "frag_id g \<noteq> frag_id f" "frag_key key g \<noteq> frag_key key f" using Cons.prems by auto
    then show ?thesis using Cons by (auto simp: assembly_def)
  qed
qed simp

lemma fragment_extend_data:
  assumes "fresh_iob (iob_headroom old + iob_len old + iob_len iobuf) (Some b)"
  obtains b' where "fragment_extend b old iobuf = Some b'" "iob_data b' = iob_data old @ iob_data iobuf"
    "iob_headroom b' = iob_headroom old"
proof -
  let ?H = "iob_headroom old"
  have b: "iob_before b = []" "iob_data b = []" "?H + iob_len old + iob_len iobuf \<le> iob_tailroom b"
    using assms by (simp_all add: fresh_iob_def)
  define b1 where "b1 = \<lparr>iob_before = take ?H (iob_after b), iob_data = [], iob_after = drop ?H (iob_after b)\<rparr>"
  define b2 where "b2 = b1\<lparr>iob_data := iob_data old, iob_after := drop (iob_len old) (iob_after b1)\<rparr>"
  have 1: "iob_reserve b ?H = Some b1" using b by (simp add: iob_reserve_def b1_def iob_len_def Let_def)
  have 2: "iob_append b1 (iob_data old) = Some b2"
    using b(3) by (simp add: iob_append_eq b1_def b2_def iob_tailroom_def iob_len_def)
  have 3: "iob_append b2 (iob_data iobuf) =
      Some (b2\<lparr>iob_data := iob_data b2 @ iob_data iobuf, iob_after := drop (iob_len iobuf) (iob_after b2)\<rparr>)"
    using b(3) by (simp add: iob_append_eq b1_def b2_def iob_tailroom_def iob_len_def)
  have "length (take ?H (iob_after b)) = ?H" using b(3) by (simp add: iob_tailroom_def)
  moreover have "fragment_extend b old iobuf =
      Some (b2\<lparr>iob_data := iob_data b2 @ iob_data iobuf, iob_after := drop (iob_len iobuf) (iob_after b2)\<rparr>)"
    by (simp only: fragment_extend_def 1 2 3 Option.bind.simps)
  ultimately show thesis by (intro that) (assumption, simp_all add: b1_def b2_def iob_headroom_def)
qed

text \<open>Replacing the buffer of one datagram.\<close>

definition extend_list :: "fragment \<Rightarrow> io_buffer \<Rightarrow> fragment list \<Rightarrow> fragment list" where
  "extend_list f b fs = map (\<lambda>g. if frag_id g = frag_id f then g\<lparr>frag_iobuf := b\<rparr> else g) fs"

lemma extend_list_eq:
  assumes "distinct (map frag_id fs)" and "f \<in> set fs"
  shows "extend_list f b fs = map (\<lambda>g. if frag_id g = frag_id f then f\<lparr>frag_iobuf := b\<rparr> else g) fs"
  unfolding extend_list_def using assms by (intro map_cong refl) (auto simp: distinct_map inj_on_def)

lemma extend_list_others: "filter (\<lambda>g. frag_id g \<noteq> frag_id f) (extend_list f b fs) = filter (\<lambda>g. frag_id g \<noteq> frag_id f) fs"
  unfolding extend_list_def by (induction fs) auto

lemma extend_list_wf:
  assumes "reassembler_wf key valid fs" and "f \<in> set fs"
    and "frag_key key (f\<lparr>frag_iobuf := b\<rparr>) = frag_key key f" and "valid (iob_data b) (frag_hdrlen f)"
  shows "reassembler_wf key valid (extend_list f b fs)"
    "assembly key (extend_list f b fs) = (assembly key fs)(frag_key key f \<mapsto> (iob_data b, frag_hdrlen f))"
proof -
  have d: "distinct (map frag_id fs)" "distinct (map (frag_key key) fs)" using assms(1) by (auto simp: reassembler_wf_def)
  note eq = extend_list_eq [OF d(1) assms(2), of b]
  have "frag_key key (if frag_id g = frag_id f then f\<lparr>frag_iobuf := b\<rparr> else g) = frag_key key g" if "g \<in> set fs" for g
    using that assms(2,3) d(1) by (auto simp: distinct_map inj_on_def)
  then have "map (frag_key key) (extend_list f b fs) = map (frag_key key) fs" by (simp add: eq comp_def)
  moreover have "map frag_id (extend_list f b fs) = map frag_id fs" by (simp add: extend_list_def comp_def)
  moreover have "\<forall>g \<in> set (extend_list f b fs). valid (iob_data (frag_iobuf g)) (frag_hdrlen g)"
    using assms(1,4) by (auto simp: reassembler_wf_def eq)
  ultimately show "reassembler_wf key valid (extend_list f b fs)"
    using d by (simp only: reassembler_wf_def)
  show "assembly key (extend_list f b fs) = (assembly key fs)(frag_key key f \<mapsto> (iob_data b, frag_hdrlen f))"
    unfolding eq using assembly_replace [OF d assms(2,3)] by simp
qed

lemma remove_wf: "reassembler_wf key valid fs \<Longrightarrow> reassembler_wf key valid (filter P fs)"
  by (auto simp: reassembler_wf_def intro: distinct_map_filter)

section \<open>Runs\<close>

text \<open>
  Fragments received one after the other, each with the time, the outcomes of the allocations
  and the length of its header.
\<close>

record frag_event =
  ev_now :: u64
  ev_new :: "nat option"
  ev_alloc :: "nat \<Rightarrow> io_buffer option"
  ev_iobuf :: io_buffer
  ev_hdrlen :: nat

fun fragment_run :: "fragment_methods \<Rightarrow> frag_event list \<Rightarrow> fragment_reassembler
    \<Rightarrow> (fragment_reassembler \<times> (io_buffer \<times> nat) option list) option" where
  "fragment_run m [] r = Some (r, [])"
| "fragment_run m (e # es) r =
     (case fragment_reassemble m (ev_now e) (ev_new e) (ev_alloc e) (ev_iobuf e) (ev_hdrlen e) r of
        None \<Rightarrow> None
      | Some (r, out) \<Rightarrow> map_option (map_prod id (Cons out)) (fragment_run m es r))"

text \<open>A new buffer is allocated at an address not in use, and has room for the data.\<close>

definition fresh_event :: "frag_event \<Rightarrow> fragment_reassembler \<Rightarrow> bool" where
  "fresh_event e r \<longleftrightarrow> (\<forall>i. ev_new e = Some i \<longrightarrow> i \<notin> frag_id ` set (frag_list r))
     \<and> (\<forall>n. fresh_iob n (ev_alloc e n) \<and> (ev_alloc e n = None \<longleftrightarrow> ev_new e = None))"

fun fresh_run :: "fragment_methods \<Rightarrow> frag_event list \<Rightarrow> fragment_reassembler \<Rightarrow> bool" where
  "fresh_run m [] r = True"
| "fresh_run m (e # es) r \<longleftrightarrow> fresh_event e r \<and>
     (case fragment_reassemble m (ev_now e) (ev_new e) (ev_alloc e) (ev_iobuf e) (ev_hdrlen e) r of
        None \<Rightarrow> True | Some (r, out) \<Rightarrow> fresh_run m es r)"

text \<open>Buffers whose addresses were never used before are not in use.\<close>

lemma reassemble_ids:
  assumes "fragment_reassemble m now new alloc b h r = Some (r', out)" and "f \<in> set (frag_list r')"
  shows "new = Some (frag_id f) \<or> (\<exists>g \<in> set (frag_list r). frag_id g = frag_id f)"
  using assms
  by (auto simp: fragment_reassemble_def Let_def fragment_drop_def fragment_create_def bind_eq_Some_conv split: option.splits if_splits;
      blast)

lemma fresh_run_distinct:
  assumes "distinct (map ev_new es)" and "\<forall>e \<in> set es. \<exists>i. ev_new e = Some i \<and> (\<forall>f \<in> set (frag_list r). frag_id f \<noteq> i)"
    and "\<forall>e \<in> set es. \<forall>n. fresh_iob n (ev_alloc e n) \<and> (\<exists>b. ev_alloc e n = Some b)"
  shows "fresh_run m es r"
  using assms
proof (induction es arbitrary: r)
  case (Cons e es)
  have "\<forall>n. ev_alloc e n \<noteq> None" using Cons.prems(3) by (metis list.set_intros(1) option.distinct(1))
  moreover obtain i where "ev_new e = Some i" "\<forall>f \<in> set (frag_list r). frag_id f \<noteq> i" using Cons.prems(2) by auto
  moreover have "\<forall>n. fresh_iob n (ev_alloc e n)" using Cons.prems(3) by simp
  ultimately have "fresh_event e r" unfolding fresh_event_def by (auto simp del: not_None_eq)
  moreover have "fresh_run m es r'"
    if "fragment_reassemble m (ev_now e) (ev_new e) (ev_alloc e) (ev_iobuf e) (ev_hdrlen e) r = Some (r', out)" for r' out
  proof (rule Cons.IH)
    show "\<forall>e \<in> set es. \<exists>i. ev_new e = Some i \<and> (\<forall>f \<in> set (frag_list r'). frag_id f \<noteq> i)"
      using Cons.prems(1,2) reassemble_ids [OF that] by simp (metis image_eqI)
  qed (use Cons.prems in auto)
  ultimately show ?case by (auto split: option.splits)
qed simp

text \<open>Packets that are the fragments of one datagram in order, from an offset.\<close>

fun in_sequence :: "(bytes \<Rightarrow> nat \<Rightarrow> nat) \<Rightarrow> (bytes \<Rightarrow> nat \<Rightarrow> bool) \<Rightarrow> nat \<Rightarrow> (bytes \<times> nat) list \<Rightarrow> bool" where
  "in_sequence offset mf n [] = False"
| "in_sequence offset mf n [(d, h)] \<longleftrightarrow> offset d h = n \<and> \<not> mf d h"
| "in_sequence offset mf n ((d, h) # ps) \<longleftrightarrow> offset d h = n \<and> mf d h \<and> in_sequence offset mf (n + (length d - h)) ps"

definition payloads :: "(bytes \<times> nat) list \<Rightarrow> bytes" where
  "payloads ps = concat (map (\<lambda>(d, h). drop h d) ps)"

definition ev_packet :: "frag_event \<Rightarrow> bytes \<times> nat" where
  "ev_packet e = (iob_data (ev_iobuf e), ev_hdrlen e)"

text \<open>The results for the fragments of one datagram among the results for all.\<close>

definition results_for ::
  "(bytes \<Rightarrow> nat \<Rightarrow> 'k) \<Rightarrow> 'k \<Rightarrow> frag_event list \<Rightarrow> (io_buffer \<times> nat) option list \<Rightarrow> (bytes \<times> nat) option list" where
  "results_for key k es outs = map (\<lambda>(e, out). map_option (map_prod iob_data id) out)
     (filter (\<lambda>(e, out). case_prod key (ev_packet e) = k) (zip es outs))"

text \<open>
  The contract of the methods: whether a packet belongs to a buffer is decided by a key that is
  part of the header, which data added behind the header does not change.
\<close>

locale reassembler_methods =
  fixes m :: fragment_methods
    and key :: "bytes \<Rightarrow> nat \<Rightarrow> 'k"
    and valid :: "bytes \<Rightarrow> nat \<Rightarrow> bool"
    and offset :: "bytes \<Rightarrow> nat \<Rightarrow> nat"
    and mf :: "bytes \<Rightarrow> nat \<Rightarrow> bool"
  assumes is_fragment_key: "valid (iob_data (frag_iobuf f)) (frag_hdrlen f) \<Longrightarrow> valid (iob_data b) h \<Longrightarrow>
      is_fragment m f b h \<longleftrightarrow> key (iob_data (frag_iobuf f)) (frag_hdrlen f) = key (iob_data b) h"
    and key_extend: "valid d h \<Longrightarrow> valid (d @ x) h \<and> key (d @ x) h = key d h"
    and valid_length: "valid d h \<Longrightarrow> h \<le> length d"
    and offset_eq: "fragment_offset m b h = offset (iob_data b) h"
    and more_eq: "more_fragments m b h = mf (iob_data b) h"

begin

lemma find_buffer:
  assumes "reassembler_wf key valid (frag_list r)" and "valid (iob_data b) h"
  shows "case fragment_find m r b h of
      None \<Rightarrow> assembly key (frag_list r) (key (iob_data b) h) = None
    | Some f \<Rightarrow> f \<in> set (frag_list r) \<and> frag_key key f = key (iob_data b) h"
proof -
  have eq: "is_fragment m f b h \<longleftrightarrow> frag_key key f = key (iob_data b) h" if "f \<in> set (frag_list r)" for f
    using is_fragment_key [of f b h] assms that by (auto simp: reassembler_wf_def frag_key_def)
  show ?thesis
    using eq by (auto simp: fragment_find_def assembly_None find_None_iff find_Some_iff split: option.splits)
qed

definition refines_step where
  "refines_step ok r b h res \<longleftrightarrow> (\<exists>r' out. res = Some (r', out) \<and> reassembler_wf key valid (frag_list r')
     \<and> reassemble_spec (key (iob_data b) h) (offset (iob_data b) h) (mf (iob_data b) h) ok (iob_data b) h
         (assembly key (frag_list r)) = (assembly key (frag_list r'), map_option (map_prod iob_data id) out))"

lemma refines_stepI:
  assumes "res = Some (r', out)" and "reassembler_wf key valid (frag_list r')"
    and "reassemble_spec (key (iob_data b) h) (offset (iob_data b) h) (mf (iob_data b) h) ok (iob_data b) h
         (assembly key (frag_list r)) = (assembly key (frag_list r'), map_option (map_prod iob_data id) out)"
  shows "refines_step ok r b h res"
  using assms unfolding refines_step_def by blast

lemma find_reqds: "fragment_find m (r\<lparr>frag_stats := x\<rparr>) b h = fragment_find m r b h"
  by (simp add: fragment_find_def)

lemma reassemble_create:
  assumes wf: "reassembler_wf key valid (frag_list r)" and v: "valid (iob_data b) h"
    and new: "\<And>i. new = Some i \<Longrightarrow> i \<notin> frag_id ` set (frag_list r)" and none: "fragment_find m r b h = None"
  shows "refines_step (new \<noteq> None) r b h (fragment_reassemble m now new alloc b h r)"
proof -
  let ?k = "key (iob_data b) h" and ?A = "assembly key (frag_list r)"
  let ?r = "r\<lparr>frag_stats := (frag_stats r)\<lparr>reasm_reqds := reasm_reqds (frag_stats r) + 1\<rparr>\<rparr>"
  have A: "?A ?k = None" using find_buffer [OF wf v] none by simp
  show ?thesis
  proof (cases "offset (iob_data b) h = 0 \<and> new \<noteq> None")
    case True
    then obtain i where i: "new = Some i" by auto
    have "reassembler_wf key valid (frag_list (fragment_create now i b h ?r))"
      using wf v A new [OF i] by (auto simp: reassembler_wf_def fragment_create_def assembly_None frag_key_def)
    moreover have "assembly key (frag_list (fragment_create now i b h ?r)) = ?A(?k \<mapsto> (iob_data b, h))"
      by (simp add: fragment_create_def assembly_def frag_key_def)
    ultimately show ?thesis using True i A
      by (intro refines_stepI [of _ "fragment_create now i b h ?r" None])
        (simp_all add: fragment_reassemble_def Let_def find_reqds none offset_eq reassemble_spec_def)
  next
    case False
    have kl: "frag_list (fragment_drop ?r) = frag_list r" by (simp add: fragment_drop_def)
    from False show ?thesis using A wf
      by (intro refines_stepI [of _ "fragment_drop ?r" None])
        (auto simp: fragment_reassemble_def Let_def find_reqds none offset_eq reassemble_spec_def kl split: option.splits)
  qed
qed

lemma reassemble_extend:
  assumes wf: "reassembler_wf key valid (frag_list r)" and v: "valid (iob_data b) h"
    and find: "fragment_find m r b h = Some f" and offset: "offset (iob_data b) h = iob_len (frag_iobuf f) - frag_hdrlen f"
    and alloc: "\<And>n. fresh_iob n (alloc n)" and ok: "\<And>n. alloc n \<noteq> None"
  shows "refines_step True r b h (fragment_reassemble m now new alloc b h r)"
proof -
  let ?k = "key (iob_data b) h" and ?A = "assembly key (frag_list r)"
  let ?r = "r\<lparr>frag_stats := (frag_stats r)\<lparr>reasm_reqds := reasm_reqds (frag_stats r) + 1\<rparr>\<rparr>"
  let ?D = "iob_data (frag_iobuf f)" and ?H = "frag_hdrlen f"
  have f: "f \<in> set (frag_list r)" "frag_key key f = ?k" using find_buffer [OF wf v] find by simp_all
  have A: "?A ?k = Some (?D, ?H)" using assembly_Some [of key "frag_list r" f] wf f by (simp add: reassembler_wf_def)
  have vf: "valid ?D ?H" using wf f(1) by (auto simp: reassembler_wf_def)
  obtain b1 where b1: "iob_pull b h = Some b1" "iob_data b1 = drop h (iob_data b)"
    using valid_length [OF v] by (auto simp: iob_pull_def iob_len_def)
  let ?n = "iob_headroom (frag_iobuf f) + iob_len (frag_iobuf f) + iob_len b1"
  obtain c where c: "alloc ?n = Some c" using ok by blast
  then have "fresh_iob ?n (Some c)" using alloc by metis
  then obtain c' where c': "fragment_extend c (frag_iobuf f) b1 = Some c'" "iob_data c' = ?D @ drop h (iob_data b)"
    by (rule fragment_extend_data) (use b1 in simp)
  have k: "frag_key key (f\<lparr>frag_iobuf := c'\<rparr>) = frag_key key f" and v': "valid (iob_data c') ?H"
    using key_extend [OF vf] c'(2) by (simp_all add: frag_key_def)
  note e = extend_list_wf [OF wf f(1) k v']
  have del: "assembly key (filter (\<lambda>g. frag_id g \<noteq> frag_id f) (frag_list r)) = ?A(?k := None)"
    using assembly_delete [of "frag_list r" key f] wf f by (simp add: reassembler_wf_def)
  define R where "R = ?r\<lparr>frag_list := extend_list f c' (frag_list r), frag_timers := stop_timer now (frag_id f) (frag_timers r)\<rparr>"
  have "fragment_reassemble m now new alloc b h r =
      (if \<not> mf (iob_data b) h then
         Some (R\<lparr>frag_list := filter (\<lambda>g. frag_id g \<noteq> frag_id f) (frag_list R),
                 frag_stats := (frag_stats R)\<lparr>reasm_oks := reasm_oks (frag_stats R) + 1\<rparr>\<rparr>, Some (c', ?H))
       else Some (R\<lparr>frag_timers := start_timer_fixed now (frag_id f) FRAGMENT_TIMEOUT (frag_timers R)\<rparr>, None))"
    using find offset b1(1) c c'(1)
    by (simp add: fragment_reassemble_def Let_def find_reqds offset_eq more_eq extend_list_def R_def)
  moreover have "frag_list R = extend_list f c' (frag_list r)" by (simp add: R_def)
  ultimately show ?thesis
    using offset A c'(2) e del f(2) remove_wf [OF wf]
    by (cases "mf (iob_data b) h")
      (auto simp: reassemble_spec_def extend_list_others iob_len_def intro: refines_stepI)
qed

text \<open>
  One call of fragment\_reassemble() is one step of the specification, whether the allocations
  succeed or fail.
\<close>

lemma reassemble_refines:
  assumes wf: "reassembler_wf key valid (frag_list r)" and v: "valid (iob_data b) h"
    and new: "\<And>i. new = Some i \<Longrightarrow> i \<notin> frag_id ` set (frag_list r)" and alloc: "\<And>n. fresh_iob n (alloc n)"
    and same: "\<And>n. alloc n = None \<longleftrightarrow> new = None"
  shows "refines_step (new \<noteq> None) r b h (fragment_reassemble m now new alloc b h r)"
proof (cases "fragment_find m r b h")
  case None
  from reassemble_create [OF wf v new this] show ?thesis .
next
  case (Some f)
  let ?r = "r\<lparr>frag_stats := (frag_stats r)\<lparr>reasm_reqds := reasm_reqds (frag_stats r) + 1\<rparr>\<rparr>"
  have f: "f \<in> set (frag_list r)" "frag_key key f = key (iob_data b) h" using find_buffer [OF wf v] Some by simp_all
  have A: "assembly key (frag_list r) (key (iob_data b) h) = Some (iob_data (frag_iobuf f), frag_hdrlen f)"
    using assembly_Some [of key "frag_list r" f] wf f by (simp add: reassembler_wf_def)
  show ?thesis
  proof (cases "offset (iob_data b) h = iob_len (frag_iobuf f) - frag_hdrlen f \<and> new \<noteq> None")
    case True
    with reassemble_extend [OF wf v Some _ alloc] same show ?thesis by auto
  next
    case False
    obtain b1 where "iob_pull b h = Some b1" using valid_length [OF v] by (auto simp: iob_pull_def iob_len_def)
    then have "fragment_reassemble m now new alloc b h r = Some (fragment_drop ?r, None)"
      using False Some same by (auto simp: fragment_reassemble_def Let_def find_reqds offset_eq)
    then show ?thesis using False A wf
      by (intro refines_stepI [of _ "fragment_drop ?r" None]) (auto simp: reassemble_spec_def fragment_drop_def iob_len_def)
  qed
qed

lemma spec_other: "k' \<noteq> k \<Longrightarrow> fst (reassemble_spec k' off f ok d h A) k = A k"
  by (simp add: reassemble_spec_def split: option.splits prod.splits if_splits)

lemma run_step:
  assumes "reassembler_wf key valid (frag_list r)" and "case_prod valid (ev_packet e)" and "fresh_run m (e # es) r"
  obtains r1 out where
    "fragment_reassemble m (ev_now e) (ev_new e) (ev_alloc e) (ev_iobuf e) (ev_hdrlen e) r = Some (r1, out)"
    "reassembler_wf key valid (frag_list r1)" "fresh_run m es r1"
    "reassemble_spec (case_prod key (ev_packet e)) (case_prod offset (ev_packet e)) (case_prod mf (ev_packet e)) (ev_new e \<noteq> None)
       (fst (ev_packet e)) (snd (ev_packet e)) (assembly key (frag_list r)) =
     (assembly key (frag_list r1), map_option (map_prod iob_data id) out)"
proof -
  have f: "fresh_event e r" using assms(3) by simp
  have "refines_step (ev_new e \<noteq> None) r (ev_iobuf e) (ev_hdrlen e)
      (fragment_reassemble m (ev_now e) (ev_new e) (ev_alloc e) (ev_iobuf e) (ev_hdrlen e) r)"
    using assms(1,2) f by (intro reassemble_refines) (auto simp: ev_packet_def fresh_event_def)
  then obtain r1 out where r1:
    "fragment_reassemble m (ev_now e) (ev_new e) (ev_alloc e) (ev_iobuf e) (ev_hdrlen e) r = Some (r1, out)"
    "reassembler_wf key valid (frag_list r1)"
    "reassemble_spec (key (iob_data (ev_iobuf e)) (ev_hdrlen e)) (offset (iob_data (ev_iobuf e)) (ev_hdrlen e))
       (mf (iob_data (ev_iobuf e)) (ev_hdrlen e)) (ev_new e \<noteq> None) (iob_data (ev_iobuf e)) (ev_hdrlen e)
       (assembly key (frag_list r)) = (assembly key (frag_list r1), map_option (map_prod iob_data id) out)"
    by (auto simp: refines_step_def)
  moreover have "fresh_run m es r1" using assms(3) r1(1) by simp
  ultimately show thesis by (intro that) (simp_all add: ev_packet_def)
qed

lemma run_total:
  assumes "reassembler_wf key valid (frag_list r)" and "\<forall>e \<in> set es. case_prod valid (ev_packet e)" and "fresh_run m es r"
  shows "\<exists>r' outs. fragment_run m es r = Some (r', outs) \<and> reassembler_wf key valid (frag_list r')"
  using assms
proof (induction es arbitrary: r)
  case (Cons e es)
  then obtain r1 out where r1:
    "fragment_reassemble m (ev_now e) (ev_new e) (ev_alloc e) (ev_iobuf e) (ev_hdrlen e) r = Some (r1, out)"
    "reassembler_wf key valid (frag_list r1)" "fresh_run m es r1" using run_step [of r e es] by (metis list.set_intros(1))
  with Cons.IH [of r1] Cons.prems(2) show ?case by auto
qed simp

lemma results_for_Cons:
  "results_for key k (e # es) (out # outs) =
     (if case_prod key (ev_packet e) = k then [map_option (map_prod iob_data id) out] else []) @ results_for key k es outs"
  by (simp add: results_for_def)

lemma results_for_others: "\<forall>e \<in> set es. case_prod key (ev_packet e) \<noteq> k \<Longrightarrow> results_for key k es outs = []"
  by (auto simp: results_for_def filter_empty_conv dest: set_zip_leftD)

text \<open>Completing a datagram of which some part has been assembled.\<close>

lemma run_completes:
  assumes "reassembler_wf key valid (frag_list r)" and "\<forall>e \<in> set es. case_prod valid (ev_packet e)" and "fresh_run m es r"
    and "\<forall>e \<in> set es. case_prod key (ev_packet e) = k \<longrightarrow> ev_new e \<noteq> None"
    and "assembly key (frag_list r) k = Some (D, H)"
    and "filter (\<lambda>e. case_prod key (ev_packet e) = k) es = fs" and "in_sequence offset mf (length D - H) (map ev_packet fs)"
    and "H \<le> length D"
  shows "\<exists>r' outs. fragment_run m es r = Some (r', outs) \<and> reassembler_wf key valid (frag_list r')
    \<and> results_for key k es outs = replicate (length fs - 1) None @ [Some (D @ payloads (map ev_packet fs), H)]"
  using assms
proof (induction es arbitrary: r D fs)
  case (Cons e es)
  obtain r1 out where r1:
    "fragment_reassemble m (ev_now e) (ev_new e) (ev_alloc e) (ev_iobuf e) (ev_hdrlen e) r = Some (r1, out)"
    "reassembler_wf key valid (frag_list r1)" "fresh_run m es r1"
    "reassemble_spec (case_prod key (ev_packet e)) (case_prod offset (ev_packet e)) (case_prod mf (ev_packet e)) (ev_new e \<noteq> None)
       (fst (ev_packet e)) (snd (ev_packet e)) (assembly key (frag_list r)) =
     (assembly key (frag_list r1), map_option (map_prod iob_data id) out)"
    using run_step [OF Cons.prems(1) _ Cons.prems(3)] Cons.prems(2) by (metis list.set_intros(1))
  have rest: "\<forall>e \<in> set es. case_prod valid (ev_packet e)"
    "\<forall>e \<in> set es. case_prod key (ev_packet e) = k \<longrightarrow> ev_new e \<noteq> None" using Cons.prems by auto
  show ?case
  proof (cases "case_prod key (ev_packet e) = k")
    case False
    then have "assembly key (frag_list r1) k = Some (D, H)"
      using Cons.prems(5) r1(4) spec_other [of _ k] by (metis fst_conv)
    with Cons.IH [OF r1(2) rest(1) r1(3) rest(2) _ _ Cons.prems(7,8)] Cons.prems(6) False r1(1) show ?thesis
      by (auto simp: results_for_Cons)
  next
    case True
    then obtain fs' where fs: "fs = e # fs'" "filter (\<lambda>e. case_prod key (ev_packet e) = k) es = fs'" using Cons.prems(6) by auto
    obtain d h where p: "ev_packet e = (d, h)" by (metis surj_pair)
    have ok: "ev_new e \<noteq> None" "offset d h = length D - H" using Cons.prems(4,7) True fs p by (auto elim: in_sequence.elims)
    show ?thesis
    proof (cases fs')
      case Nil
      then have "\<not> mf d h" using Cons.prems(7) fs p by simp
      then have "map_option (map_prod iob_data id) out = Some (D @ drop h d, H)"
        using r1(4) Cons.prems(5) True ok p by (simp add: reassemble_spec_def)
      moreover obtain r' outs where r': "fragment_run m es r1 = Some (r', outs)" "reassembler_wf key valid (frag_list r')"
        using run_total [OF r1(2) rest(1) r1(3)] by blast
      moreover have "results_for key k es outs = []"
        using fs(2) Nil by (intro results_for_others) (simp add: filter_empty_conv)
      ultimately show ?thesis using r1(1) True fs Nil p by (simp add: results_for_Cons payloads_def)
    next
      case (Cons f fs'')
      then have mf: "mf d h" "in_sequence offset mf (length D - H + (length d - h)) (map ev_packet fs')"
        using Cons.prems(7) fs p ok by simp_all
      then have "(assembly key (frag_list r))(k \<mapsto> (D @ drop h d, H)) = assembly key (frag_list r1)"
        and out: "map_option (map_prod iob_data id) out = None"
        using r1(4) Cons.prems(5) True ok p by (auto simp: reassemble_spec_def)
      then have A: "assembly key (frag_list r1) k = Some (D @ drop h d, H)" by (metis fun_upd_same)
      have l: "length D - H + (length d - h) = length (D @ drop h d) - H" using Cons.prems(8) by simp
      have "\<exists>r' outs. fragment_run m es r1 = Some (r', outs) \<and> reassembler_wf key valid (frag_list r')
        \<and> results_for key k es outs = replicate (length fs' - 1) None @ [Some ((D @ drop h d) @ payloads (map ev_packet fs'), H)]"
        using mf(2) Cons.prems(8) unfolding l by (intro Cons.IH [OF r1(2) rest(1) r1(3) rest(2) A fs(2)]) simp_all
      then show ?thesis using r1(1) True fs Cons p out by (auto simp: results_for_Cons payloads_def)
    qed
  qed
qed simp

text \<open>
  The fragments of one datagram, received in order among any fragments of other datagrams, are
  reassembled when the last one is received.
\<close>

lemma run_reassembles:
  assumes "reassembler_wf key valid (frag_list r)" and "\<forall>e \<in> set es. case_prod valid (ev_packet e)" and "fresh_run m es r"
    and "\<forall>e \<in> set es. case_prod key (ev_packet e) = k \<longrightarrow> ev_new e \<noteq> None"
    and "assembly key (frag_list r) k = None"
    and "filter (\<lambda>e. case_prod key (ev_packet e) = k) es = f # fs" and "ev_packet f = (d, h)" and "offset d h = 0"
    and "in_sequence offset mf (length d - h) (map ev_packet fs)"
  shows "\<exists>r' outs. fragment_run m es r = Some (r', outs) \<and> reassembler_wf key valid (frag_list r')
    \<and> results_for key k es outs = replicate (length fs) None @ [Some (d @ payloads (map ev_packet fs), h)]"
  using assms
proof (induction es arbitrary: r)
  case (Cons e es)
  obtain r1 out where r1:
    "fragment_reassemble m (ev_now e) (ev_new e) (ev_alloc e) (ev_iobuf e) (ev_hdrlen e) r = Some (r1, out)"
    "reassembler_wf key valid (frag_list r1)" "fresh_run m es r1"
    "reassemble_spec (case_prod key (ev_packet e)) (case_prod offset (ev_packet e)) (case_prod mf (ev_packet e)) (ev_new e \<noteq> None)
       (fst (ev_packet e)) (snd (ev_packet e)) (assembly key (frag_list r)) =
     (assembly key (frag_list r1), map_option (map_prod iob_data id) out)"
    using run_step [OF Cons.prems(1) _ Cons.prems(3)] Cons.prems(2) by (metis list.set_intros(1))
  have rest: "\<forall>e \<in> set es. case_prod valid (ev_packet e)"
    "\<forall>e \<in> set es. case_prod key (ev_packet e) = k \<longrightarrow> ev_new e \<noteq> None" using Cons.prems by auto
  show ?case
  proof (cases "case_prod key (ev_packet e) = k")
    case False
    then have "assembly key (frag_list r1) k = None"
      using Cons.prems(5) r1(4) spec_other [of _ k] by (metis fst_conv)
    with Cons.IH [OF r1(2) rest(1) r1(3) rest(2) _ _ Cons.prems(7-9)] Cons.prems(6) False r1(1) show ?thesis
      by (auto simp: results_for_Cons)
  next
    case True
    then have e: "e = f" "filter (\<lambda>e. case_prod key (ev_packet e) = k) es = fs" using Cons.prems(6) by simp_all
    have ok: "ev_new e \<noteq> None" using Cons.prems(4) True by simp
    have "h \<le> length d" using Cons.prems(2,7) e(1) valid_length by auto
    moreover have "(assembly key (frag_list r))(k \<mapsto> (d, h)) = assembly key (frag_list r1)"
      and out: "map_option (map_prod iob_data id) out = None"
      using r1(4) Cons.prems(5,7,8) True ok e(1) by (auto simp: reassemble_spec_def)
    then have A: "assembly key (frag_list r1) k = Some (d, h)" by (metis fun_upd_same)
    ultimately obtain r' outs where "fragment_run m es r1 = Some (r', outs)" "reassembler_wf key valid (frag_list r')"
      "results_for key k es outs = replicate (length fs - 1) None @ [Some (d @ payloads (map ev_packet fs), h)]"
      using run_completes [OF r1(2) rest(1) r1(3) rest(2) A e(2) Cons.prems(9)] by blast
    moreover have "fs \<noteq> []" using Cons.prems(9) by (cases fs) auto
    then have "None # replicate (length fs - 1) None = replicate (length fs) None" by (cases fs) auto
    ultimately show ?thesis using r1(1) True out by (auto simp: results_for_Cons)
  qed
qed simp

end

end
