(* ===== verification/Ipv4.thy ===== *)
theory Ipv4
  imports Ipv4Route Fragment
begin

text \<open>
  IPv4 packets (net/ipv4.c): transmission, which builds the header, completes the checksum of
  the transport layer and hands the packet to the link layer; and reception, which checks the
  header, reassembles fragments and hands the packet to the transport layer. The lower layer is
  the action that is returned; the hash of multicast addresses, the devices, the time, the
  outcomes of allocations and the addresses of the buffers that are summed are arguments.
\<close>

section \<open>Headers\<close>

definition IP_VER :: u8 where "IP_VER = 0x40"
definition IP_MASK_VER :: u8 where "IP_MASK_VER = 0xf0"
definition IP_MASK_HLEN :: u8 where "IP_MASK_HLEN = 0x0f"
definition IP_MASK_OFFSET :: u16 where "IP_MASK_OFFSET = 0x1fff"
definition IP_MASK_MOREFRAGS :: u16 where "IP_MASK_MOREFRAGS = 0x2000"
definition IP_TOS :: u8 where "IP_TOS = 0"
definition IP_TTL :: u8 where "IP_TTL = 64"
definition LL_MULTICAST :: u32 where "LL_MULTICAST = 0x0001"
definition LL_BROADCAST :: u32 where "LL_BROADCAST = 0x0002"

record iphdr =
  ip_verhdrlen :: u8
  ip_service :: u8
  ip_len :: u16
  ip_ident :: u16
  ip_frags :: u16
  ip_ttl :: u8
  ip_protocol :: u8
  ip_chksum :: u16
  ip_src :: in_addr
  ip_dest :: in_addr

definition sizeof_iphdr :: nat where "sizeof_iphdr = 20"

definition iphdr_bytes :: "iphdr \<Rightarrow> bytes" where
  "iphdr_bytes h =
     [ip_verhdrlen h, ip_service h] @ bytes_u16 (ip_len h) @ bytes_u16 (ip_ident h) @ bytes_u16 (ip_frags h)
     @ [ip_ttl h, ip_protocol h] @ bytes_u16 (ip_chksum h) @ bytes_u32 (ip_src h) @ bytes_u32 (ip_dest h)"

text \<open>The header at the start of a packet that is long enough.\<close>

definition get_iphdr :: "bytes \<Rightarrow> iphdr" where
  "get_iphdr d =
     \<lparr>ip_verhdrlen = d ! 0, ip_service = d ! 1, ip_len = load_u16 (drop 2 d), ip_ident = load_u16 (drop 4 d),
      ip_frags = load_u16 (drop 6 d), ip_ttl = d ! 8, ip_protocol = d ! 9, ip_chksum = load_u16 (drop 10 d),
      ip_src = load_u32 (drop 12 d), ip_dest = load_u32 (drop 16 d)\<rparr>"

definition ip_hdrlen :: "iphdr \<Rightarrow> nat" where
  "ip_hdrlen h = unat (ip_verhdrlen h AND IP_MASK_HLEN) * 4"

section \<open>Fragments\<close>

definition ipv4_is_fragment :: "fragment \<Rightarrow> io_buffer \<Rightarrow> nat \<Rightarrow> bool" where
  "ipv4_is_fragment fragment iobuf hdrlen \<longleftrightarrow>
     (let frag_iphdr = get_iphdr (iob_data (frag_iobuf fragment));
          iphdr = get_iphdr (iob_data iobuf)
      in ip_src iphdr = ip_src frag_iphdr \<and> ip_ident iphdr = ip_ident frag_iphdr)"

definition ipv4_fragment_offset :: "io_buffer \<Rightarrow> nat \<Rightarrow> nat" where
  "ipv4_fragment_offset iobuf hdrlen = unat (ntohs (ip_frags (get_iphdr (iob_data iobuf))) AND IP_MASK_OFFSET) * 2 ^ 3"

definition ipv4_more_fragments :: "io_buffer \<Rightarrow> nat \<Rightarrow> bool" where
  "ipv4_more_fragments iobuf hdrlen \<longleftrightarrow> ip_frags (get_iphdr (iob_data iobuf)) AND htons IP_MASK_MOREFRAGS \<noteq> 0"

definition ipv4_reassembler :: fragment_methods where
  "ipv4_reassembler = \<lparr>is_fragment = ipv4_is_fragment, fragment_offset = ipv4_fragment_offset,
     more_fragments = ipv4_more_fragments\<rparr>"

section \<open>Transmission\<close>

text \<open>The statistics of the reassembler are those of the protocol.\<close>

record ipv4_state =
  next_ident_high :: u8
  ipv4_miniroutes :: "ipv4_miniroute list"
  ipv4_fragments :: fragment_reassembler

definition ipv4_stats :: "ipv4_state \<Rightarrow> ip_statistics" where
  "ipv4_stats st = frag_stats (ipv4_fragments st)"

definition update_stats :: "(ip_statistics \<Rightarrow> ip_statistics) \<Rightarrow> ipv4_state \<Rightarrow> ipv4_state" where
  "update_stats f st = st\<lparr>ipv4_fragments := (ipv4_fragments st)\<lparr>frag_stats := f (ipv4_stats st)\<rparr>\<rparr>"

record tcpip_protocol =
  zero_csum :: u16
  tcpip_proto :: u8

text \<open>The checksum of the pseudo-header, for a packet of a given length.\<close>

definition pseudo_header :: "iphdr \<Rightarrow> nat \<Rightarrow> bytes" where
  "pseudo_header iphdr len =
     bytes_u32 (ip_src iphdr) @ bytes_u32 (ip_dest iphdr) @ [0x00, ip_protocol iphdr]
     @ bytes_u16 (htons (of_nat (len - ip_hdrlen iphdr)))"

definition ipv4_pshdr_chksum :: "u64 \<Rightarrow> iphdr \<Rightarrow> nat \<Rightarrow> u16 \<Rightarrow> u16" where
  "ipv4_pshdr_chksum addr iphdr len csum = tcpip_continue_chksum csum addr (pseudo_header iphdr len)"

datatype tx_action =
    Net_tx io_buffer nat bytes
  | Arp_tx io_buffer nat in_addr in_addr

text \<open>The checksum field of the transport layer, given by its offset in the segment.\<close>

definition put_u16 :: "nat \<Rightarrow> u16 \<Rightarrow> bytes \<Rightarrow> bytes" where
  "put_u16 i w d = d[i := ucast w, i + 1 := ucast (drop_bit 8 w)]"

definition complete_chksum :: "u64 \<Rightarrow> tcpip_protocol \<Rightarrow> iphdr \<Rightarrow> nat option \<Rightarrow> bytes \<Rightarrow> bytes" where
  "complete_chksum addr proto iphdr trans_csum segment =
     (case trans_csum of
        None \<Rightarrow> segment
      | Some i \<Rightarrow>
          (let csum = ipv4_pshdr_chksum addr iphdr (sizeof_iphdr + length segment) (load_u16 (drop i segment));
               csum = (if csum = 0 then zero_csum proto else csum)
           in put_u16 i csum segment))"

text \<open>
  The header and the segment as transmitted; the checksum of the header is computed over the
  header with a zero checksum field.
\<close>

definition make_iphdr :: "tcpip_protocol \<Rightarrow> nat \<Rightarrow> u16 \<Rightarrow> in_addr \<Rightarrow> in_addr \<Rightarrow> iphdr" where
  "make_iphdr proto len ident src dest =
     \<lparr>ip_verhdrlen = IP_VER OR of_nat (sizeof_iphdr div 4), ip_service = IP_TOS, ip_len = htons (of_nat len),
      ip_ident = htons ident, ip_frags = 0, ip_ttl = IP_TTL, ip_protocol = tcpip_proto proto, ip_chksum = 0,
      ip_src = src, ip_dest = dest\<rparr>"

definition make_ident :: "u8 \<Rightarrow> net_device \<Rightarrow> u16" where
  "make_ident high dev =
     push_bit 8 (ucast high) OR ucast (push_bit 4 (dev_rx_bad dev AND 0xf)) OR ucast (dev_rx_good dev AND 0xf)"

definition ipv4_packet ::
  "u64 \<Rightarrow> tcpip_protocol \<Rightarrow> u16 \<Rightarrow> in_addr \<Rightarrow> in_addr \<Rightarrow> nat option \<Rightarrow> bytes \<Rightarrow> bytes" where
  "ipv4_packet addr proto ident src dest trans_csum segment =
     (let iphdr = make_iphdr proto (sizeof_iphdr + length segment) ident src dest;
          segment = complete_chksum addr proto iphdr trans_csum segment;
          iphdr = iphdr\<lparr>ip_chksum := tcpip_chksum addr (iphdr_bytes iphdr)\<rparr>
      in iphdr_bytes iphdr @ segment)"

text \<open>The source address, the host mask, the device and the next hop of a packet.\<close>

definition select_route ::
  "(nat \<Rightarrow> net_device) \<Rightarrow> in_addr option \<Rightarrow> in_addr \<Rightarrow> u32 \<Rightarrow> nat option \<Rightarrow> ipv4_miniroute list
    \<Rightarrow> in_addr \<times> in_addr \<times> nat option \<times> in_addr" where
  "select_route devs src dest scope_id netdev table =
     (let source = (case src of Some a \<Rightarrow> a | None \<Rightarrow> 0);
          route = (if dest \<noteq> INADDR_BROADCAST then ipv4_route devs scope_id dest table else None)
      in case route of
           Some (r, hop) \<Rightarrow> (mr_address r, mr_hostmask r, Some (mr_netdev r), hop)
         | None \<Rightarrow> (source, INADDR_NONE, netdev, dest))"

definition ipv4_tx ::
  "(in_addr \<Rightarrow> bytes result) \<Rightarrow> (nat \<Rightarrow> net_device) \<Rightarrow> u64 \<Rightarrow> io_buffer \<Rightarrow> tcpip_protocol \<Rightarrow> in_addr option
    \<Rightarrow> in_addr \<Rightarrow> u32 \<Rightarrow> nat option \<Rightarrow> nat option \<Rightarrow> ipv4_state \<Rightarrow> (ipv4_state \<times> tx_action result) option" where
  "ipv4_tx mc_hash devs addr iobuf proto src dest scope_id netdev trans_csum st =
     (let st = update_stats (\<lambda>s. s\<lparr>out_requests := out_requests s + 1\<rparr>) st;
          (source, hostmask, netdev, next_hop) = select_route devs src dest scope_id netdev (ipv4_miniroutes st)
      in case iob_push iobuf sizeof_iphdr of
           None \<Rightarrow> None
         | Some pushed \<Rightarrow>
             (case netdev of
                None \<Rightarrow> Some (update_stats (\<lambda>s. s\<lparr>out_no_routes := out_no_routes s + 1\<rparr>) st, Inl ENETUNREACH)
              | Some dev \<Rightarrow>
                  let high = next_ident_high st + 1;
                      st = st\<lparr>next_ident_high := high\<rparr>;
                      pushed = pushed\<lparr>iob_data := ipv4_packet addr proto (make_ident high (devs dev)) source dest trans_csum
                                 (iob_data iobuf)\<rparr>;
                      sent = (\<lambda>st. update_stats (\<lambda>s. s\<lparr>out_transmits := out_transmits s + 1,
                                 out_octets := out_octets s + of_nat (iob_len pushed)\<rparr>) st)
                  in if NOT next_hop AND hostmask = 0 then
                       Some (sent (update_stats (\<lambda>s. s\<lparr>out_bcast_pkts := out_bcast_pkts s + 1\<rparr>) st),
                             Inr (Net_tx pushed dev (ll_broadcast (devs dev))))
                     else if IN_IS_MULTICAST next_hop then
                       (let st = update_stats (\<lambda>s. s\<lparr>out_mcast_pkts := out_mcast_pkts s + 1\<rparr>) st
                        in case mc_hash next_hop of
                             Inl e \<Rightarrow> Some (st, Inl e)
                           | Inr ll_dest \<Rightarrow> Some (sent st, Inr (Net_tx pushed dev ll_dest)))
                     else Some (sent st, Inr (Arp_tx pushed dev next_hop source))))"

section \<open>Reception\<close>

datatype rx_outcome =
    Rx_error errno
  | Rx_pending
  | Rx_deliver io_buffer u8 in_addr in_addr u16

text \<open>
  Delivery to the transport layer (net/tcpip.c): the protocols that are linked in are an
  argument.
\<close>

definition tcpip_rx :: "u8 list \<Rightarrow> io_buffer \<Rightarrow> u8 \<Rightarrow> in_addr \<Rightarrow> in_addr \<Rightarrow> u16 \<Rightarrow> ip_statistics \<Rightarrow> ip_statistics \<times> rx_outcome" where
  "tcpip_rx protos iobuf proto src dest pshdr_csum stats =
     (if proto \<in> set protos then (stats\<lparr>in_delivers := in_delivers stats + 1\<rparr>, Rx_deliver iobuf proto src dest pshdr_csum)
      else (stats\<lparr>in_unknown_protos := in_unknown_protos stats + 1\<rparr>, Rx_error EPROTONOSUPPORT))"

text \<open>The checks on the header, in order; the result is the length of the header.\<close>

definition check_iphdr :: "u64 \<Rightarrow> bytes \<Rightarrow> nat option" where
  "check_iphdr addr d =
     (if length d < sizeof_iphdr then None
      else
        let iphdr = get_iphdr d;
            hdrlen = ip_hdrlen iphdr
        in if ip_verhdrlen iphdr AND IP_MASK_VER \<noteq> IP_VER then None
           else if hdrlen < sizeof_iphdr then None
           else if hdrlen > length d then None
           else if tcpip_chksum addr (take hdrlen d) \<noteq> 0 then None
           else if unat (ntohs (ip_len iphdr)) < hdrlen then None
           else Some hdrlen)"

definition ipv4_deliver :: "u8 list \<Rightarrow> u64 \<Rightarrow> io_buffer \<Rightarrow> nat \<Rightarrow> ipv4_state \<Rightarrow> (ipv4_state \<times> rx_outcome) option" where
  "ipv4_deliver protos addr iobuf hdrlen st =
     (let iphdr = get_iphdr (iob_data iobuf);
          pshdr_csum = ipv4_pshdr_chksum addr iphdr (iob_len iobuf) TCPIP_EMPTY_CSUM
      in case iob_pull iobuf hdrlen of
           None \<Rightarrow> None
         | Some iobuf \<Rightarrow>
             (case tcpip_rx protos iobuf (ip_protocol iphdr) (ip_src iphdr) (ip_dest iphdr) pshdr_csum (ipv4_stats st) of
                (stats, outcome) \<Rightarrow> Some (update_stats (\<lambda>_. stats) st, outcome)))"

definition ipv4_rx ::
  "u8 list \<Rightarrow> u64 \<Rightarrow> u64 \<Rightarrow> nat option \<Rightarrow> (nat \<Rightarrow> io_buffer option) \<Rightarrow> io_buffer \<Rightarrow> nat \<Rightarrow> u32
    \<Rightarrow> ipv4_state \<Rightarrow> (ipv4_state \<times> rx_outcome) option" where
  "ipv4_rx protos addr now new alloc iobuf netdev flags st =
     (let st = update_stats (\<lambda>s. s\<lparr>in_receives := in_receives s + 1, in_octets := in_octets s + of_nat (iob_len iobuf)\<rparr>) st;
          st = (if flags AND LL_BROADCAST \<noteq> 0 then update_stats (\<lambda>s. s\<lparr>in_bcast_pkts := in_bcast_pkts s + 1\<rparr>) st
                else if flags AND LL_MULTICAST \<noteq> 0 then update_stats (\<lambda>s. s\<lparr>in_mcast_pkts := in_mcast_pkts s + 1\<rparr>) st
                else st)
      in case check_iphdr addr (iob_data iobuf) of
           None \<Rightarrow> Some (update_stats (\<lambda>s. s\<lparr>in_hdr_errors := in_hdr_errors s + 1\<rparr>) st, Rx_error EINVAL)
         | Some hdrlen \<Rightarrow>
             (let iphdr = get_iphdr (iob_data iobuf);
                  len = unat (ntohs (ip_len iphdr))
              in if len > iob_len iobuf then
                   Some (update_stats (\<lambda>s. s\<lparr>in_truncated_pkts := in_truncated_pkts s + 1\<rparr>) st, Rx_error EINVAL)
                 else
                   (case iob_unput iobuf (iob_len iobuf - len) of
                      None \<Rightarrow> None
                    | Some iobuf \<Rightarrow>
                        if flags AND LL_MULTICAST = 0 \<and> ip_dest iphdr \<noteq> INADDR_BROADCAST
                           \<and> ipv4_has_any_addr netdev (ipv4_miniroutes st)
                           \<and> \<not> ipv4_has_addr netdev (ip_dest iphdr) (ipv4_miniroutes st) then
                          Some (update_stats (\<lambda>s. s\<lparr>in_addr_errors := in_addr_errors s + 1\<rparr>) st, Rx_error EINVAL)
                        else if ip_frags iphdr AND htons (IP_MASK_OFFSET OR IP_MASK_MOREFRAGS) \<noteq> 0 then
                          (case fragment_reassemble ipv4_reassembler now new alloc iobuf hdrlen (ipv4_fragments st) of
                             None \<Rightarrow> None
                           | Some (fragments, None) \<Rightarrow> Some (st\<lparr>ipv4_fragments := fragments\<rparr>, Rx_pending)
                           | Some (fragments, Some (iobuf, hdrlen)) \<Rightarrow>
                               ipv4_deliver protos addr iobuf hdrlen (st\<lparr>ipv4_fragments := fragments\<rparr>))
                        else ipv4_deliver protos addr iobuf hdrlen st)))"

section \<open>The header in memory\<close>

lemma u16_bytes_sum: "unat (ucast w :: u8) + 256 * unat (ucast (drop_bit 8 w) :: u8) = unat w" for w :: u16
  using unat_u16_less [of w] by (simp add: unat_ucast_mod unat_drop_bit div_less_iff_less_mult)

lemma word_sum_u16 [simp]: "word_sum (bytes_u16 w) = unat w"
  using u16_bytes_sum [of w] by (simp add: bytes_u16_def)

lemma load_u16_bytes [simp]: "load_u16 (bytes_u16 w @ x) = w"
proof -
  have "unat (load_u16 (bytes_u16 w @ x)) = word_sum (take 2 (bytes_u16 w @ x))"
    by (rule load_u16_value) (simp add: bytes_u16_def)
  also have "take 2 (bytes_u16 w @ x) = bytes_u16 w" by (simp add: bytes_u16_def)
  finally show ?thesis by (simp add: word_unat_eq_iff)
qed

lemma length_iphdr [simp]: "length (iphdr_bytes h) = 20"
  by (simp add: iphdr_bytes_def)

lemma get_iphdr_bytes [simp]: "get_iphdr (iphdr_bytes h @ x) = h"
  by (simp add: get_iphdr_def iphdr_bytes_def nth_append)

lemma load_append: "2 \<le> length d \<Longrightarrow> load_u16 (d @ x) = load_u16 d" "4 \<le> length d \<Longrightarrow> load_u32 (d @ x) = load_u32 d"
  by (auto simp: load_u16_def load_u32_def nth_append)

lemma get_iphdr_append: "20 \<le> length d \<Longrightarrow> get_iphdr (d @ x) = get_iphdr d"
  using load_append [of "drop _ d" x] by (auto simp: get_iphdr_def nth_append)

section \<open>Checksums\<close>

text \<open>A partial checksum stands for the sum so far.\<close>

lemma not_ones_checksum: "unat (NOT (ones_checksum p x)) = ones_complement (unat (NOT p) + word_sum x)"
  using ones_complement_less [of "unat (NOT p) + word_sum x"] by (simp add: ones_checksum_def unat_of_nat)

lemma ones_complement_cong:
  assumes "m mod 65535 = n mod 65535" and "m = 0 \<longleftrightarrow> n = 0"
  shows "ones_complement m = ones_complement n"
  using represents_ones_complement [of m] assms by (intro represents_unique ones_complement_less) (simp add: represents_def)

lemma ones_complement_add:
  "ones_complement (ones_complement m + n) = ones_complement (m + n)"
  "ones_complement (n + ones_complement m) = ones_complement (n + m)"
proof -
  have "represents (ones_complement m) m" by (rule represents_ones_complement)
  then show "ones_complement (ones_complement m + n) = ones_complement (m + n)"
    unfolding represents_def by (intro ones_complement_cong) (metis mod_add_left_eq, simp)
  then show "ones_complement (n + ones_complement m) = ones_complement (n + m)" by (simp add: add.commute)
qed

text \<open>The segment and the pseudo-header can be summed in either order.\<close>

lemma ones_checksum_append:
  assumes "even (length x)"
  shows "ones_checksum (ones_checksum p x) y = ones_checksum p (x @ y)"
    "ones_checksum (ones_checksum p y) x = ones_checksum p (x @ y)"
  unfolding ones_checksum_def [of "ones_checksum p x"] ones_checksum_def [of "ones_checksum p y"] not_ones_checksum
  by (simp_all add: ones_checksum_def ones_complement_add word_sum_append [OF assms] ac_simps)

text \<open>Either representation of zero verifies.\<close>

lemma zero_checksum:
  assumes "even (length a)"
  shows "ones_checksum TCPIP_EMPTY_CSUM (a @ bytes_u16 0xffff @ b) = ones_checksum TCPIP_EMPTY_CSUM (a @ bytes_u16 0 @ b)"
proof -
  have e: "unat (NOT TCPIP_EMPTY_CSUM) = 65535" by (simp only: unat_not_u16 TCPIP_EMPTY_CSUM_def TCPIP_POSITIVE_ZERO_CSUM_def) simp
  define T where "T = 65535 + word_sum a + word_sum b"
  have "ones_complement (T + 65535) = ones_complement T" by (rule ones_complement_cong, rule mod_add_self2) (simp add: T_def)
  moreover have "65535 + word_sum (a @ bytes_u16 w @ b) = T + unat w" for w
    using assms by (simp add: T_def word_sum_append)
  ultimately show ?thesis by (simp add: ones_checksum_def e)
qed

lemma transport_checksum:
  assumes "even (length a)" and "even (length psh)" and "c = ones_checksum TCPIP_EMPTY_CSUM (a @ [0, 0] @ b)"
    and "c' = ones_checksum c psh" and "z = 0 \<or> z = 0xffff"
  shows "ones_checksum (ones_checksum TCPIP_EMPTY_CSUM psh) (a @ bytes_u16 (if c' = 0 then z else c') @ b) = 0"
proof -
  have c': "c' = ones_checksum TCPIP_EMPTY_CSUM ((psh @ a) @ [0, 0] @ b)"
    using assms(2-4) by (simp add: ones_checksum_append(2))
  have ev: "even (length (psh @ a))" using assms(1,2) by simp
  have "ones_checksum TCPIP_EMPTY_CSUM ((psh @ a) @ bytes_u16 c' @ b) = 0"
    unfolding bytes_u16_def by (rule checksum_verifies [OF ev c'])
  then have "ones_checksum TCPIP_EMPTY_CSUM ((psh @ a) @ bytes_u16 (if c' = 0 then z else c') @ b) = 0"
    using assms(5) zero_checksum [OF ev] by auto
  then show ?thesis using assms(2) by (simp add: ones_checksum_append(1))
qed

section \<open>From transmission to reception\<close>

lemma put_u16_segment: "put_u16 (length a) w (a @ bytes_u16 c @ b) = a @ bytes_u16 w @ b"
  by (simp add: put_u16_def bytes_u16_def list_update_append)

lemma make_iphdr_hdrlen: "ip_hdrlen (make_iphdr proto len ident src dest) = 20"
  by (simp add: ip_hdrlen_def make_iphdr_def IP_VER_def IP_MASK_HLEN_def sizeof_iphdr_def)

lemma header_checksum:
  "tcpip_chksum addr (iphdr_bytes (h\<lparr>ip_chksum := tcpip_chksum addr' (iphdr_bytes (h\<lparr>ip_chksum := 0\<rparr>))\<rparr>)) = 0"
proof -
  let ?a = "[ip_verhdrlen h, ip_service h] @ bytes_u16 (ip_len h) @ bytes_u16 (ip_ident h) @ bytes_u16 (ip_frags h)
     @ [ip_ttl h, ip_protocol h]" and ?b = "bytes_u32 (ip_src h) @ bytes_u32 (ip_dest h)"
  have "iphdr_bytes (h\<lparr>ip_chksum := w\<rparr>) = ?a @ bytes_u16 w @ ?b" for w by (simp add: iphdr_bytes_def)
  moreover have "bytes_u16 0 = [0, 0]" by (simp add: bytes_u16_def)
  moreover have "even (length ?a)" by simp
  ultimately show ?thesis
    unfolding tcpip_chksum_def x86_checksum using checksum_verifies [of ?a _ ?b] by (simp only: bytes_u16_def)
qed

text \<open>The packet that was built passes the checks on its header.\<close>

lemma check_packet:
  assumes "20 + length segment < 65536"
  shows "check_iphdr addr (ipv4_packet addr' proto ident src dest tc segment @ pad) = Some 20"
    and "get_iphdr (ipv4_packet addr' proto ident src dest tc segment @ pad) =
      (make_iphdr proto (20 + length segment) ident src dest)
        \<lparr>ip_chksum := tcpip_chksum addr' (iphdr_bytes (make_iphdr proto (20 + length segment) ident src dest))\<rparr>"
proof -
  define h where "h = make_iphdr proto (20 + length segment) ident src dest"
  define h' where "h' = h\<lparr>ip_chksum := tcpip_chksum addr' (iphdr_bytes h)\<rparr>"
  have p: "ipv4_packet addr' proto ident src dest tc segment = iphdr_bytes h' @ complete_chksum addr' proto h tc segment"
    by (simp add: ipv4_packet_def h'_def h_def sizeof_iphdr_def Let_def)
  have "h\<lparr>ip_chksum := 0\<rparr> = h" by (simp add: h_def make_iphdr_def)
  then have c: "tcpip_chksum addr (iphdr_bytes h') = 0" using header_checksum [where h = h and addr = addr and addr' = addr'] by (simp add: h'_def)
  have "ip_hdrlen h' = 20" using make_iphdr_hdrlen [of proto] by (simp add: h'_def h_def ip_hdrlen_def)
  moreover have "unat (ntohs (ip_len h')) = 20 + length segment"
    using assms by (simp add: h'_def h_def make_iphdr_def ntohs_htons unat_of_nat del: of_nat_add)
  moreover have "ip_verhdrlen h' AND IP_MASK_VER = IP_VER"
    by (simp add: h'_def h_def make_iphdr_def IP_MASK_VER_def IP_VER_def sizeof_iphdr_def)
  ultimately show "check_iphdr addr (ipv4_packet addr' proto ident src dest tc segment @ pad) = Some 20"
    using c unfolding p by (simp add: check_iphdr_def sizeof_iphdr_def)
  show "get_iphdr (ipv4_packet addr' proto ident src dest tc segment @ pad) = h'" unfolding p by simp
qed

lemma ipv4_packet_length: "length (ipv4_packet addr proto ident src dest tc segment) = 20 + length segment"
  by (simp add: ipv4_packet_def Let_def complete_chksum_def put_u16_def split: option.splits)

lemma drop_ipv4_packet:
  "drop 20 (ipv4_packet addr proto ident src dest tc segment) =
     complete_chksum addr proto (make_iphdr proto (20 + length segment) ident src dest) tc segment"
  by (simp add: ipv4_packet_def sizeof_iphdr_def Let_def)

text \<open>A packet addressed to the receiver is delivered without its header and its padding.\<close>

lemma rx_packet:
  assumes len: "20 + length segment < 65536"
    and data: "iob_data rx = ipv4_packet addr proto ident src dest tc segment @ pad"
    and flags: "flags AND LL_MULTICAST = 0" and local: "ipv4_has_addr dev dest (ipv4_miniroutes rs)"
    and proto: "tcpip_proto proto \<in> set protos"
  shows "\<exists>rs' rb. ipv4_rx protos addr' now new alloc rx dev flags rs =
      Some (rs', Rx_deliver rb (tcpip_proto proto) src dest
        (ones_checksum TCPIP_EMPTY_CSUM (pseudo_header (make_iphdr proto (20 + length segment) ident src dest) (20 + length segment))))
    \<and> iob_data rb = complete_chksum addr proto (make_iphdr proto (20 + length segment) ident src dest) tc segment
    \<and> in_delivers (ipv4_stats rs') = in_delivers (ipv4_stats rs) + 1"
proof -
  define P where "P = ipv4_packet addr proto ident src dest tc segment"
  define h where "h = make_iphdr proto (20 + length segment) ident src dest"
  have P: "length P = 20 + length segment" "drop 20 P = complete_chksum addr proto h tc segment"
    by (simp_all add: P_def h_def ipv4_packet_length drop_ipv4_packet)
  have c: "check_iphdr addr' (P @ pad) = Some 20" "get_iphdr (P @ pad) = h\<lparr>ip_chksum := tcpip_chksum addr (iphdr_bytes h)\<rparr>"
    unfolding P_def h_def by (rule check_packet [OF len])+
  have g: "get_iphdr P = get_iphdr (P @ pad)" using get_iphdr_append [of P pad] P(1) by simp
  have l: "unat (ntohs (ip_len h)) = length P"
    using len by (simp add: h_def make_iphdr_def ntohs_htons unat_of_nat P(1) del: of_nat_add)
  have h: "ip_dest h = dest" "ip_src h = src" "ip_protocol h = tcpip_proto proto" "ip_frags h = 0"
    by (simp_all add: h_def make_iphdr_def)
  have ps: "pseudo_header (h\<lparr>ip_chksum := x\<rparr>) n = pseudo_header h n" for x n by (simp add: pseudo_header_def ip_hdrlen_def)
  show ?thesis
    using data flags local proto
    by (simp add: ipv4_rx_def Let_def c P_def [symmetric] l iob_len_def iob_unput_def h ipv4_deliver_def g iob_pull_def
        P ipv4_pshdr_chksum_def x86_checksum ps tcpip_rx_def h_def [symmetric] update_stats_def ipv4_stats_def)
qed

fun action_buffer :: "tx_action \<Rightarrow> io_buffer" where
  "action_buffer (Net_tx b dev ll_dest) = b"
| "action_buffer (Arp_tx b dev next_hop source) = b"

lemma tx_packet:
  assumes "ipv4_tx mc_hash devs addr iobuf proto src dest scope_id netdev tc st = Some (st', Inr action)"
  shows "\<exists>ident. iob_data (action_buffer action) =
    ipv4_packet addr proto ident (fst (select_route devs src dest scope_id netdev (ipv4_miniroutes st))) dest tc (iob_data iobuf)"
proof -
  have m: "ipv4_miniroutes (update_stats f st) = ipv4_miniroutes st" for f by (simp add: update_stats_def)
  show ?thesis
    using assms
    by (auto simp: ipv4_tx_def Let_def m split: prod.splits option.splits if_splits sum.splits)
qed

lemma tx_rx:
  assumes tx: "ipv4_tx mc_hash devs addr iobuf proto src dest scope_id netdev (Some (length a)) st = Some (st', Inr action)"
    and segment: "iob_data iobuf = a @ bytes_u16 (tcpip_chksum addr1 (a @ [0, 0] @ b)) @ b" and ev: "even (length a)"
    and len: "20 + iob_len iobuf < 65536"
    and zero: "zero_csum proto = TCPIP_POSITIVE_ZERO_CSUM \<or> zero_csum proto = TCPIP_NEGATIVE_ZERO_CSUM"
    and data: "iob_data rx = iob_data (action_buffer action) @ pad"
    and flags: "flags AND LL_MULTICAST = 0" and local: "ipv4_has_addr dev dest (ipv4_miniroutes rs)"
    and proto: "tcpip_proto proto \<in> set protos"
  shows "\<exists>rs' rb csum c. ipv4_rx protos addr2 now new alloc rx dev flags rs =
      Some (rs', Rx_deliver rb (tcpip_proto proto) (fst (select_route devs src dest scope_id netdev (ipv4_miniroutes st))) dest csum)
    \<and> iob_data rb = a @ bytes_u16 c @ b \<and> tcpip_continue_chksum csum addr3 (iob_data rb) = 0
    \<and> in_delivers (ipv4_stats rs') = in_delivers (ipv4_stats rs) + 1"
proof -
  define source where "source = fst (select_route devs src dest scope_id netdev (ipv4_miniroutes st))"
  obtain ident where p: "iob_data (action_buffer action) = ipv4_packet addr proto ident source dest (Some (length a)) (iob_data iobuf)"
    using tx_packet [OF tx] unfolding source_def by blast
  define h where "h = make_iphdr proto (20 + length (iob_data iobuf)) ident source dest"
  define psh where "psh = pseudo_header h (20 + length (iob_data iobuf))"
  define c1 where "c1 = tcpip_chksum addr1 (a @ [0, 0] @ b)"
  define c2 where "c2 = ones_checksum c1 psh"
  have "load_u16 (drop (length a) (iob_data iobuf)) = c1" using segment by (simp add: c1_def)
  moreover have "put_u16 (length a) w (iob_data iobuf) = a @ bytes_u16 w @ b" for w by (simp add: segment put_u16_segment)
  ultimately have "complete_chksum addr proto h (Some (length a)) (iob_data iobuf) = a @ bytes_u16 (if c2 = 0 then zero_csum proto else c2) @ b"
    by (simp add: complete_chksum_def ipv4_pshdr_chksum_def x86_checksum psh_def [symmetric] sizeof_iphdr_def c2_def [symmetric]
        Let_def)
  moreover have "ones_checksum (ones_checksum TCPIP_EMPTY_CSUM psh) (a @ bytes_u16 (if c2 = 0 then zero_csum proto else c2) @ b) = 0"
    using ev zero
    by (intro transport_checksum [OF _ _ _ c2_def]) (auto simp: psh_def pseudo_header_def c1_def tcpip_chksum_def x86_checksum
        TCPIP_POSITIVE_ZERO_CSUM_def TCPIP_NEGATIVE_ZERO_CSUM_def)
  ultimately show ?thesis
    using rx_packet [of "iob_data iobuf" rx addr proto ident source dest "Some (length a)" pad flags dev rs protos addr2 now new alloc]
      len data [unfolded p] flags local proto
    unfolding h_def [symmetric] psh_def [symmetric] source_def [symmetric] by (auto simp: x86_checksum iob_len_def)
qed

text \<open>
  Claim C20. A segment whose transport checksum was started by its protocol is transmitted by
  ipv4\_tx() in a packet that ipv4\_rx() accepts at any station that owns the destination
  address, whatever padding the link layer added: the segment is delivered to its protocol with
  the source address of the route and the destination, only its checksum field has changed, and
  the checksum over the pseudo-header and the segment verifies.
\<close>

theorem ipv4_tx_rx:
  assumes tx: "ipv4_tx mc_hash devs addr iobuf proto src dest scope_id netdev (Some (length a)) st = Some (st', Inr action)"
    and segment: "iob_data iobuf = a @ bytes_u16 (tcpip_chksum addr1 (a @ [0, 0] @ b)) @ b" and ev: "even (length a)"
    and len: "20 + iob_len iobuf < 65536"
    and zero: "zero_csum proto = TCPIP_POSITIVE_ZERO_CSUM \<or> zero_csum proto = TCPIP_NEGATIVE_ZERO_CSUM"
    and data: "iob_data rx = iob_data (action_buffer action) @ pad"
    and flags: "flags AND LL_MULTICAST = 0" and local: "ipv4_has_addr dev dest (ipv4_miniroutes rs)"
    and proto: "tcpip_proto proto \<in> set protos"
  shows "\<exists>rs' rb csum c. ipv4_rx protos addr2 now new alloc rx dev flags rs =
      Some (rs', Rx_deliver rb (tcpip_proto proto) (fst (select_route devs src dest scope_id netdev (ipv4_miniroutes st))) dest csum)
    \<and> iob_data rb = a @ bytes_u16 c @ b \<and> tcpip_continue_chksum csum addr3 (iob_data rb) = 0
    \<and> in_delivers (ipv4_stats rs') = in_delivers (ipv4_stats rs) + 1"
  using assms by (rule tx_rx)

definition zero_stats :: ip_statistics where
  "zero_stats = \<lparr>in_receives = 0, in_octets = 0, in_hdr_errors = 0, in_addr_errors = 0, in_unknown_protos = 0,
     in_truncated_pkts = 0, reasm_reqds = 0, reasm_oks = 0, reasm_fails = 0, in_delivers = 0, out_requests = 0,
     out_no_routes = 0, out_transmits = 0, out_octets = 0, in_mcast_pkts = 0, out_mcast_pkts = 0, in_bcast_pkts = 0,
     out_bcast_pkts = 0\<rparr>"

definition empty_reassembler :: fragment_reassembler where
  "empty_reassembler = \<lparr>frag_list = [], frag_timers = \<lparr>timers = [], timer = (\<lambda>_. new_timer), counts = (\<lambda>_. 0)\<rparr>,
     frag_stats = zero_stats\<rparr>"

definition example_state :: "in_addr \<Rightarrow> ipv4_state" where
  "example_state address = \<lparr>next_ident_high = 0,
     ipv4_miniroutes = fst (the (ipv4_add_miniroutes True (htonl 0xffffff00) 0 None 0 address [])),
     ipv4_fragments = empty_reassembler\<rparr>"

theorem ipv4_tx_rx_witness:
  "\<exists>st' action. ipv4_tx (\<lambda>_. Inl ENOENT) (\<lambda>_. example_dev) 0x1000
       \<lparr>iob_before = replicate 20 0, iob_data = [1, 2] @ bytes_u16 (tcpip_chksum 0 ([1, 2] @ [0, 0] @ [5])) @ [5], iob_after = []\<rparr>
       \<lparr>zero_csum = TCPIP_NEGATIVE_ZERO_CSUM, tcpip_proto = 17\<rparr> None (htonl 0xc0a80102) 0 None (Some 2)
       (example_state (htonl 0xc0a80105)) = Some (st', Inr action)
   \<and> (\<exists>rs' rb csum c. ipv4_rx [6, 17] 0 0 None (\<lambda>_. None)
         \<lparr>iob_before = [], iob_data = iob_data (action_buffer action) @ [0, 0], iob_after = []\<rparr> 0 0
         (example_state (htonl 0xc0a80102)) = Some (rs', Rx_deliver rb 17 (htonl 0xc0a80105) (htonl 0xc0a80102) csum)
      \<and> iob_data rb = [1, 2] @ bytes_u16 c @ [5] \<and> tcpip_continue_chksum csum 0 (iob_data rb) = 0
      \<and> in_delivers (ipv4_stats rs') = in_delivers (ipv4_stats (example_state (htonl 0xc0a80102))) + 1)"
proof -
  let ?from = "htonl 0xc0a80105" and ?dest = "htonl 0xc0a80102" and ?b = "\<lparr>iob_before = replicate 20 0,
     iob_data = [1, 2] @ bytes_u16 (tcpip_chksum 0 ([1, 2] @ [0, 0] @ [5])) @ [5], iob_after = []\<rparr>"
    and ?p = "\<lparr>zero_csum = TCPIP_NEGATIVE_ZERO_CSUM, tcpip_proto = 17\<rparr>"
  let ?tx = "ipv4_tx (\<lambda>_. Inl ENOENT) (\<lambda>_. example_dev) 0x1000 ?b ?p None ?dest 0 None (Some (length [1, 2 :: u8])) (example_state ?from)"
  have r: "select_route (\<lambda>_. example_dev) None ?dest 0 None (ipv4_miniroutes (example_state ?from)) =
      (?from, htonl 0x000000ff, Some 0, ?dest)" by code_simp
  have "NOT ?dest AND htonl 0x000000ff \<noteq> 0" "\<not> IN_IS_MULTICAST ?dest" by code_simp+
  then have "\<exists>st' action. ?tx = Some (st', Inr action)"
    using r by (simp add: ipv4_tx_def update_stats_def iob_push_def iob_headroom_def sizeof_iphdr_def Let_def)
  then obtain st' action where tx: "?tx = Some (st', Inr action)" by blast
  have two: "length [1, 2 :: u8] = 2" by simp
  have l: "ipv4_has_addr 0 ?dest (ipv4_miniroutes (example_state ?dest))" by code_simp
  have "\<exists>rs' rb csum c. ipv4_rx [6, 17] 0 0 None (\<lambda>_. None)
         \<lparr>iob_before = [], iob_data = iob_data (action_buffer action) @ [0, 0], iob_after = []\<rparr> 0 0
         (example_state ?dest) = Some (rs', Rx_deliver rb 17 ?from ?dest csum)
      \<and> iob_data rb = [1, 2] @ bytes_u16 c @ [5] \<and> tcpip_continue_chksum csum 0 (iob_data rb) = 0
      \<and> in_delivers (ipv4_stats rs') = in_delivers (ipv4_stats (example_state ?dest)) + 1"
    using ipv4_tx_rx [OF tx _ _ _ _ _ _ l, of 0 "[5]"
      "\<lparr>iob_before = [], iob_data = iob_data (action_buffer action) @ [0, 0], iob_after = []\<rparr>" "[0, 0]" 0 "[6, 17]" 0 0 None "\<lambda>_. None" 0]
    by (simp add: r iob_len_def)
  with tx [unfolded two] show ?thesis by blast
qed

section \<open>Reassembly\<close>

text \<open>A datagram is identified by its source and its identification.\<close>

definition ipv4_key :: "bytes \<Rightarrow> nat \<Rightarrow> in_addr \<times> u16" where
  "ipv4_key d hdrlen = (ip_src (get_iphdr d), ip_ident (get_iphdr d))"

definition ipv4_valid :: "bytes \<Rightarrow> nat \<Rightarrow> bool" where
  "ipv4_valid d hdrlen \<longleftrightarrow> sizeof_iphdr \<le> hdrlen \<and> hdrlen \<le> length d"

definition ipv4_offset :: "bytes \<Rightarrow> nat \<Rightarrow> nat" where
  "ipv4_offset d hdrlen = 8 * unat (ntohs (ip_frags (get_iphdr d)) AND IP_MASK_OFFSET)"

definition ipv4_mf :: "bytes \<Rightarrow> nat \<Rightarrow> bool" where
  "ipv4_mf d hdrlen \<longleftrightarrow> ip_frags (get_iphdr d) AND htons IP_MASK_MOREFRAGS \<noteq> 0"

interpretation ipv4: reassembler_methods ipv4_reassembler ipv4_key ipv4_valid ipv4_offset ipv4_mf
proof
  show "is_fragment ipv4_reassembler f b h \<longleftrightarrow> ipv4_key (iob_data (frag_iobuf f)) (frag_hdrlen f) = ipv4_key (iob_data b) h" for f b h
    by (auto simp: ipv4_reassembler_def ipv4_is_fragment_def ipv4_key_def Let_def)
  show "ipv4_valid (d @ x) h \<and> ipv4_key (d @ x) h = ipv4_key d h" if "ipv4_valid d h" for d x h
    using that get_iphdr_append [of d x] by (simp add: ipv4_valid_def ipv4_key_def sizeof_iphdr_def)
  show "h \<le> length d" if "ipv4_valid d h" for d h using that by (simp add: ipv4_valid_def)
  show "fragment_offset ipv4_reassembler b h = ipv4_offset (iob_data b) h" for b h
    by (simp add: ipv4_reassembler_def ipv4_fragment_offset_def ipv4_offset_def)
  show "more_fragments ipv4_reassembler b h = ipv4_mf (iob_data b) h" for b h
    by (simp add: ipv4_reassembler_def ipv4_more_fragments_def ipv4_mf_def)
qed

text \<open>
  Claim C19. Reassembly of IPv4 refines a map from pairs of a source address and an
  identification to partial packets: a call of fragment\_reassemble() with any fragment never
  fails, keeps the list of buffers well formed, and changes the map and returns a packet as the
  specification does, whether there is memory or not.
\<close>

theorem ipv4_reassemble_refines:
  assumes "reassembler_wf ipv4_key ipv4_valid (frag_list r)" and "ipv4_valid (iob_data b) h"
    and "\<And>i. new = Some i \<Longrightarrow> i \<notin> frag_id ` set (frag_list r)" and "\<And>n. fresh_iob n (alloc n)"
    and "\<And>n. alloc n = None \<longleftrightarrow> new = None"
  shows "\<exists>r' out. fragment_reassemble ipv4_reassembler now new alloc b h r = Some (r', out)
    \<and> reassembler_wf ipv4_key ipv4_valid (frag_list r')
    \<and> reassemble_spec (ipv4_key (iob_data b) h) (ipv4_offset (iob_data b) h) (ipv4_mf (iob_data b) h) (new \<noteq> None) (iob_data b) h
        (assembly ipv4_key (frag_list r)) = (assembly ipv4_key (frag_list r'), map_option (map_prod iob_data id) out)"
  using ipv4.reassemble_refines [OF assms, of now] unfolding ipv4.refines_step_def .

text \<open>Fragments of two datagrams of one sender.\<close>

definition example_fragment :: "u16 \<Rightarrow> u16 \<Rightarrow> bytes \<Rightarrow> bytes" where
  "example_fragment ident frags payload =
     iphdr_bytes ((make_iphdr \<lparr>zero_csum = 0, tcpip_proto = 17\<rparr> (20 + length payload) ident (htonl 0xc0a80105) (htonl 0xc0a80102))
       \<lparr>ip_frags := htons frags\<rparr>) @ payload"

definition example_event :: "nat \<Rightarrow> bytes \<Rightarrow> frag_event" where
  "example_event i pkt = \<lparr>ev_now = 0, ev_new = Some i,
     ev_alloc = (\<lambda>n. Some \<lparr>iob_before = [], iob_data = [], iob_after = replicate n 0\<rparr>),
     ev_iobuf = \<lparr>iob_before = [], iob_data = pkt, iob_after = []\<rparr>, ev_hdrlen = 20\<rparr>"

definition example_events :: "frag_event list" where
  "example_events = [example_event 0 (example_fragment 1 0x2000 (replicate 8 1)), example_event 1 (example_fragment 2 0x2000 (replicate 8 2)),
     example_event 2 (example_fragment 1 0x2001 (replicate 8 3)), example_event 3 (example_fragment 1 0x0002 [4])]"

lemma ipv4_key_example: "ipv4_key (example_fragment ident frags payload) h = (htonl 0xc0a80105, htons ident)"
  by (simp add: ipv4_key_def example_fragment_def make_iphdr_def)

lemma length_example_fragment: "length (example_fragment ident frags payload) = 20 + length payload"
  by (simp add: example_fragment_def)

theorem ipv4_reassemble_refines_witness:
  "\<exists>r' out. fragment_reassemble ipv4_reassembler 0 (Some 0) (\<lambda>n. Some \<lparr>iob_before = [], iob_data = [], iob_after = replicate n 0\<rparr>)
       \<lparr>iob_before = [], iob_data = example_fragment 1 0x2000 (replicate 8 1), iob_after = []\<rparr> 20 empty_reassembler = Some (r', out)
    \<and> reassembler_wf ipv4_key ipv4_valid (frag_list r')
    \<and> reassemble_spec (htonl 0xc0a80105, htons 1) (ipv4_offset (example_fragment 1 0x2000 (replicate 8 1)) 20)
        (ipv4_mf (example_fragment 1 0x2000 (replicate 8 1)) 20) True (example_fragment 1 0x2000 (replicate 8 1)) 20
        (assembly ipv4_key []) = (assembly ipv4_key (frag_list r'), map_option (map_prod iob_data id) out)"
  using ipv4_reassemble_refines [of empty_reassembler "\<lparr>iob_before = [], iob_data = example_fragment 1 0x2000 (replicate 8 1), iob_after = []\<rparr>"
      20 "Some 0" "\<lambda>n. Some \<lparr>iob_before = [], iob_data = [], iob_after = replicate n 0\<rparr>" 0]
  by (simp add: empty_reassembler_def reassembler_wf_def ipv4_valid_def length_example_fragment sizeof_iphdr_def fresh_iob_def
      iob_tailroom_def ipv4_key_example)



end
