(* ===== verification/InetAddr.thy ===== *)
theory InetAddr
  imports Ipv4 Printf
begin

text \<open>
  IPv4 addresses in dotted-quad notation and as values of settings (net/ipv4.c). The static
  buffer of inet\_ntoa() holds 16 characters; output that does not fit gives None.
\<close>

fun inet_aton_bytes :: "bytes \<Rightarrow> bytes \<Rightarrow> bytes option" where
  "inet_aton_bytes separator string =
     (case strtoul string 0 of (value, endp) \<Rightarrow>
        if string = endp then None
        else if value > 0xff then None
        else if chd endp \<noteq> chd separator then None
        else
          (case separator of
             [] \<Rightarrow> Some [ucast value]
           | _ # separator \<Rightarrow> map_option (Cons (ucast value)) (inet_aton_bytes separator (tl endp))))"

declare inet_aton_bytes.simps [simp del]

definition inet_aton :: "bytes \<Rightarrow> in_addr option" where
  "inet_aton string = map_option load_u32 (inet_aton_bytes (str ''...'') string)"

definition inet_ntoa :: "in_addr \<Rightarrow> bytes option" where
  "inet_ntoa a =
     (case vcprintf (str ''%d.%d.%d.%d'') (map (\<lambda>b. Int_arg (ucast b)) (bytes_u32 a)) of
        None \<Rightarrow> None
      | Some s \<Rightarrow> if length s + 1 \<le> 16 then Some s else None)"

definition ipv4_sock_aton :: "bytes \<Rightarrow> in_addr result" where
  "ipv4_sock_aton string = (case inet_aton string of Some a \<Rightarrow> Inr a | None \<Rightarrow> Inl EINVAL)"

text \<open>The first bytes of the buffer are overwritten, the length is that of the address.\<close>

definition parse_ipv4_setting :: "bytes \<Rightarrow> bytes \<Rightarrow> nat \<Rightarrow> (bytes \<times> nat) result" where
  "parse_ipv4_setting value buf len =
     (case inet_aton value of
        None \<Rightarrow> Inl EINVAL
      | Some ipv4 \<Rightarrow>
          let len = (if len > 4 then 4 else len)
          in Inr (take len (bytes_u32 ipv4) @ drop len buf, 4))"

definition format_ipv4_setting :: "bytes \<Rightarrow> bytes \<Rightarrow> nat \<Rightarrow> (bytes \<times> nat) result option" where
  "format_ipv4_setting raw buf len =
     (if length raw < 4 then Some (Inl EINVAL)
      else case inet_ntoa (load_u32 raw) of
        None \<Rightarrow> None
      | Some s \<Rightarrow> map_option Inr (vsnprintf buf len (str ''%s'') [Str_arg (Some s)]))"

section \<open>Reading what was printed\<close>

definition decimal :: "nat \<Rightarrow> bytes" where
  "decimal n = map digit_char (digits 10 n)"

lemma strtoul_decimal:
  assumes "n < 2 ^ 64" and "rest = [] \<or> chd rest = 0x2e"
  shows "strtoul (decimal n @ rest) 0 = (of_nat n, rest)"
proof -
  have e: "number_ends 10 rest" "number_ends 8 rest"
    using assms(2) by (cases rest; auto simp: number_ends_def char_to_uint_def digit_value_def)+
  show ?thesis
  proof (cases "n = 0")
    case False
    then show ?thesis
      using strtoul_number [of "[]" "[]" 0 "[]" 10 "digits 10 n" rest] digits_bounds [of 10 n] e
      by (simp add: base_prefix_def decimal_def)
  next
    case True
    then have d: "decimal n = [0x30]" by (simp add: decimal_def digits.simps digit_char_def)
    have "chd rest AND NOT 0x20 \<noteq> 0x58" using assms(2) by auto
    then have "strtoul_pre (0x30 # rest) 0 = (rest, False, 8)"
      by (simp add: strtoul_pre_def isspace_def)
    moreover have "strtoul_digits 8 0 rest = (0, rest)"
      using strtoul_digits_value [of "[]" 8 rest 0] e by simp
    ultimately show ?thesis using True d by (simp add: strtoul_def)
  qed
qed

lemma decimal_byte: "vcprintf (0x25 # 0x64 # fmt) (Int_arg (ucast b) # args) = map_option ((@) (decimal (unat b))) (vcprintf fmt args)"
  for b :: u8
proof -
  have "uint b < 256" using unsigned_less [of b] by simp
  then have "signed_take_bit 31 (uint b) = uint b" by (intro signed_take_bit_int_eq_self) (simp_all add: order_trans [OF _ uint_ge_0])
  then have "sint (ucast b :: u32) = uint b" by (simp add: signed_ucast_eq)
  then show ?thesis using vcprintf_d [of "ucast b" fmt args] by (simp add: decimal_def)
qed

definition dotted :: "bytes \<Rightarrow> bytes" where
  "dotted bs = decimal (unat (bs ! 0)) @ 0x2e # decimal (unat (bs ! 1)) @ 0x2e # decimal (unat (bs ! 2)) @ 0x2e # decimal (unat (bs ! 3))"

lemma inet_ntoa_eq: "inet_ntoa a = Some (dotted (bytes_u32 a))"
proof -
  have l: "length (decimal (unat b)) \<le> 3" for b :: u8
    unfolding decimal_def using unat_u8_less [of b] digits_length [of 10 3 "unat b"] by simp
  have "length (dotted bs) \<le> 15" for bs
    using l [of "bs ! 0"] l [of "bs ! 1"] l [of "bs ! 2"] l [of "bs ! 3"] by (simp add: dotted_def)
  moreover have "vcprintf (str ''%d.%d.%d.%d'') (map (\<lambda>b. Int_arg (ucast b)) (bytes_u32 a)) = Some (dotted (bytes_u32 a))"
    by (simp add: str_def bytes_u32_def decimal_byte vcprintf_char dotted_def)
  ultimately show ?thesis by (simp add: inet_ntoa_def)
qed

lemma aton_step:
  fixes b :: u8
  assumes "rest = [] \<or> chd rest = 0x2e" and "chd rest = chd separator"
  shows "inet_aton_bytes separator (decimal (unat b) @ rest) =
    (case separator of [] \<Rightarrow> Some [b] | _ # separator \<Rightarrow> map_option (Cons b) (inet_aton_bytes separator (tl rest)))"
proof -
  have b: "unat b < 256" by (rule unat_u8_less)
  have "strtoul (decimal (unat b) @ rest) 0 = (ucast b, rest)"
    using b strtoul_decimal [OF _ assms(1), of "unat b"] by simp
  moreover have "(ucast b :: u64) \<le> 0xff" using b by (simp add: word_le_nat_alt unat_ucast_mod)
  moreover have "decimal (unat b) \<noteq> []" by (simp add: decimal_def)
  moreover have "ucast (ucast b :: u64) = b" using b by (simp add: word_unat_eq_iff unat_ucast_mod)
  ultimately show ?thesis using assms(2) by (subst inet_aton_bytes.simps) (auto split: list.split)
qed

text \<open>
  Claim C38. Every address is printed in dotted-quad notation within the static buffer and read
  back unchanged, although inet\_aton() takes a number with a leading zero as octal.
\<close>

theorem inet_roundtrip: "\<exists>s. inet_ntoa a = Some s \<and> length s < 16 \<and> inet_aton s = Some a"
proof -
  obtain b c d e where bs: "bytes_u32 a = [b, c, d, e]" by (simp add: bytes_u32_def)
  have "inet_aton_bytes (str ''...'') (dotted [b, c, d, e]) = Some [b, c, d, e]"
    by (simp add: dotted_def str_def aton_step aton_step [of "[]", simplified])
  then have "inet_aton (dotted (bytes_u32 a)) = Some a"
    using load_u32_bytes [of a "[]"] by (simp add: inet_aton_def bs)
  then show ?thesis using inet_ntoa_eq [of a] by (auto simp: inet_ntoa_def split: option.splits if_splits)
qed

end
