(* ===== verification/Udp.thy ===== *)
theory Udp
  imports Ipv4
begin

text \<open>
  The interface between the transport and the network layer (net/tcpip.c) and UDP (net/udp.c).
  The network layers that are linked in are a list of methods; random numbers, the outcome of
  allocations and the addresses of buffers are arguments. Delivery to the application is the
  value that is returned.
\<close>

section \<open>Socket addresses\<close>

definition AF_INET :: u16 where "AF_INET = 1"
definition TCPIP_BIND_PRIVILEGED :: u16 where "TCPIP_BIND_PRIVILEGED = 0x0400"
definition SA_LEN :: nat where "SA_LEN = 32"
definition MAX_LL_HEADER_LEN :: nat where "MAX_LL_HEADER_LEN = 64"
definition MAX_NET_HEADER_LEN :: nat where "MAX_NET_HEADER_LEN = 40"
definition MAX_LL_NET_HEADER_LEN :: nat where "MAX_LL_NET_HEADER_LEN = MAX_LL_HEADER_LEN + MAX_NET_HEADER_LEN"
definition IP_UDP :: u8 where "IP_UDP = 17"

record sockaddr_tcpip =
  st_family :: u16
  st_flags :: u16
  st_port :: u16
  st_scope_id :: u16
  st_pad :: bytes

definition empty_sockaddr :: sockaddr_tcpip where
  "empty_sockaddr = \<lparr>st_family = 0, st_flags = 0, st_port = 0, st_scope_id = 0, st_pad = replicate (SA_LEN - 8) 0\<rparr>"

text \<open>The IPv4 address is at the start of the padding.\<close>

definition sin_addr :: "sockaddr_tcpip \<Rightarrow> in_addr" where
  "sin_addr sa = load_u32 (st_pad sa)"

definition ipv4_sockaddr :: "in_addr \<Rightarrow> sockaddr_tcpip" where
  "ipv4_sockaddr a = empty_sockaddr\<lparr>st_family := AF_INET, st_pad := bytes_u32 a @ drop 4 (st_pad empty_sockaddr)\<rparr>"

section \<open>Network layers\<close>

type_synonym 's net_tx =
  "io_buffer \<Rightarrow> tcpip_protocol \<Rightarrow> sockaddr_tcpip option \<Rightarrow> sockaddr_tcpip \<Rightarrow> nat option \<Rightarrow> nat option
    \<Rightarrow> 's \<Rightarrow> ('s \<times> tx_action result) option"

record 's tcpip_net =
  sa_family :: u16
  header_len :: u64
  net_tx :: "'s net_tx"
  net_netdev :: "sockaddr_tcpip \<Rightarrow> 's \<Rightarrow> nat option"

definition tcpip_net_protocol :: "'s tcpip_net list \<Rightarrow> u16 \<Rightarrow> 's tcpip_net option" where
  "tcpip_net_protocol nets family = find (\<lambda>n. sa_family n = family) nets"

definition tcpip_tx :: "'s tcpip_net list \<Rightarrow> 's net_tx" where
  "tcpip_tx nets iobuf tcpip_protocol st_src st_dest netdev trans_csum st =
     (case tcpip_net_protocol nets (st_family st_dest) of
        Some net \<Rightarrow> net_tx net iobuf tcpip_protocol st_src st_dest netdev trans_csum st
      | None \<Rightarrow> Some (st, Inl EAFNOSUPPORT))"

definition tcpip_netdev :: "'s tcpip_net list \<Rightarrow> sockaddr_tcpip \<Rightarrow> 's \<Rightarrow> nat option" where
  "tcpip_netdev nets st_dest st =
     (case tcpip_net_protocol nets (st_family st_dest) of
        Some net \<Rightarrow> net_netdev net st_dest st
      | None \<Rightarrow> None)"

definition tcpip_mtu :: "(nat \<Rightarrow> u64) \<Rightarrow> 's tcpip_net list \<Rightarrow> sockaddr_tcpip \<Rightarrow> 's \<Rightarrow> u64" where
  "tcpip_mtu mtu nets st_dest st =
     (case tcpip_net_protocol nets (st_family st_dest) of
        None \<Rightarrow> 0
      | Some net \<Rightarrow>
          (case net_netdev net st_dest st of
             None \<Rightarrow> 0
           | Some netdev \<Rightarrow> mtu netdev - header_len net))"

definition ipv4_tcpip_protocol ::
  "(in_addr \<Rightarrow> bytes result) \<Rightarrow> (nat \<Rightarrow> net_device) \<Rightarrow> u64 \<Rightarrow> ipv4_state tcpip_net" where
  "ipv4_tcpip_protocol mc_hash devs addr =
     \<lparr>sa_family = AF_INET, header_len = of_nat sizeof_iphdr,
      net_tx = (\<lambda>iobuf proto st_src st_dest netdev trans_csum st.
        ipv4_tx mc_hash devs addr iobuf proto (map_option sin_addr st_src) (sin_addr st_dest) (ucast (st_scope_id st_dest))
          netdev trans_csum st),
      net_netdev = (\<lambda>st_dest st. ipv4_netdev devs (ucast (st_scope_id st_dest)) (sin_addr st_dest) (ipv4_miniroutes st))\<rparr>"

section \<open>Ports\<close>

text \<open>The ports from a random offset on, wrapped to the range by the mask.\<close>

fun bind_search :: "(u16 \<Rightarrow> u16 result) \<Rightarrow> u16 \<Rightarrow> u16 \<Rightarrow> u32 \<Rightarrow> nat \<Rightarrow> u32 \<Rightarrow> u16 result" where
  "bind_search available min_port max_port offset 0 i = Inl EADDRINUSE"
| "bind_search available min_port max_port offset (Suc n) i =
     (let try_port = ucast ((i + offset) AND ucast max_port)
      in if try_port < min_port then bind_search available min_port max_port offset n (i + 1)
         else case available try_port of
           Inl e \<Rightarrow> bind_search available min_port max_port offset n (i + 1)
         | Inr _ \<Rightarrow> Inr try_port)"

definition tcpip_bind :: "u32 \<Rightarrow> sockaddr_tcpip option \<Rightarrow> (u16 \<Rightarrow> u16 result) \<Rightarrow> u16 result" where
  "tcpip_bind random st_local available =
     (let flags = (case st_local of Some sa \<Rightarrow> st_flags sa | None \<Rightarrow> 0);
          try_port = (case st_local of Some sa \<Rightarrow> ntohs (st_port sa) | None \<Rightarrow> 0)
      in if try_port \<noteq> 0 then available try_port
         else
           let min_port = (NOT flags AND TCPIP_BIND_PRIVILEGED) + 1;
               max_port = (flags AND TCPIP_BIND_PRIVILEGED) - 1
           in bind_search available min_port max_port random (unat max_port + 1) 0)"

section \<open>Connections\<close>

record udp_connection =
  udp_id :: nat
  udp_local :: sockaddr_tcpip
  udp_peer :: sockaddr_tcpip

definition udp_port_available :: "udp_connection list \<Rightarrow> u16 \<Rightarrow> u16 result" where
  "udp_port_available udp_conns port =
     (if \<exists>udp \<in> set udp_conns. st_port (udp_local udp) = htons port then Inl EADDRINUSE else Inr port)"

definition udp_open_common ::
  "nat option \<Rightarrow> u32 \<Rightarrow> sockaddr_tcpip option \<Rightarrow> sockaddr_tcpip option \<Rightarrow> bool \<Rightarrow> udp_connection list
    \<Rightarrow> udp_connection list \<times> unit result" where
  "udp_open_common new random peer local promisc udp_conns =
     (case new of
        None \<Rightarrow> (udp_conns, Inl ENOMEM)
      | Some i \<Rightarrow>
          let udp = \<lparr>udp_id = i,
                udp_local = (case local of Some sa \<Rightarrow> sa | None \<Rightarrow> empty_sockaddr),
                udp_peer = (case peer of Some sa \<Rightarrow> sa | None \<Rightarrow> empty_sockaddr)\<rparr>
          in if promisc then (udp # udp_conns, Inr ())
             else case tcpip_bind random local (udp_port_available udp_conns) of
               Inl e \<Rightarrow> (udp_conns, Inl e)
             | Inr port \<Rightarrow> (udp\<lparr>udp_local := (udp_local udp)\<lparr>st_port := htons port\<rparr>\<rparr> # udp_conns, Inr ()))"

definition udp_open ::
  "nat option \<Rightarrow> u32 \<Rightarrow> sockaddr_tcpip \<Rightarrow> sockaddr_tcpip option \<Rightarrow> udp_connection list \<Rightarrow> udp_connection list \<times> unit result" where
  "udp_open new random peer local udp_conns = udp_open_common new random (Some peer) local False udp_conns"

definition udp_open_promisc :: "nat option \<Rightarrow> udp_connection list \<Rightarrow> udp_connection list \<times> unit result" where
  "udp_open_promisc new udp_conns = udp_open_common new 0 None None True udp_conns"

definition udp_close :: "nat \<Rightarrow> udp_connection list \<Rightarrow> udp_connection list" where
  "udp_close i udp_conns = filter (\<lambda>udp. udp_id udp \<noteq> i) udp_conns"

definition udp_demux :: "sockaddr_tcpip \<Rightarrow> udp_connection list \<Rightarrow> udp_connection option" where
  "udp_demux local udp_conns =
     find (\<lambda>udp. (st_family (udp_local udp) = st_family local \<or> st_family (udp_local udp) = 0)
        \<and> (st_port (udp_local udp) = st_port local \<or> st_port (udp_local udp) = 0)
        \<and> (st_pad (udp_local udp) = st_pad local \<or> st_pad (udp_local udp) = st_pad empty_sockaddr)) udp_conns"

section \<open>Datagrams\<close>

record udp_header =
  udp_src :: u16
  udp_dest :: u16
  udp_len :: u16
  udp_chksum :: u16

definition sizeof_udphdr :: nat where "sizeof_udphdr = 8"

definition udphdr_bytes :: "udp_header \<Rightarrow> bytes" where
  "udphdr_bytes h = bytes_u16 (udp_src h) @ bytes_u16 (udp_dest h) @ bytes_u16 (udp_len h) @ bytes_u16 (udp_chksum h)"

definition get_udphdr :: "bytes \<Rightarrow> udp_header" where
  "get_udphdr d = \<lparr>udp_src = load_u16 d, udp_dest = load_u16 (drop 2 d), udp_len = load_u16 (drop 4 d),
     udp_chksum = load_u16 (drop 6 d)\<rparr>"

definition udp_protocol :: tcpip_protocol where
  "udp_protocol = \<lparr>zero_csum = TCPIP_NEGATIVE_ZERO_CSUM, tcpip_proto = IP_UDP\<rparr>"

definition udp_tx ::
  "'s tcpip_net list \<Rightarrow> u64 \<Rightarrow> udp_connection \<Rightarrow> io_buffer \<Rightarrow> sockaddr_tcpip option \<Rightarrow> sockaddr_tcpip option
    \<Rightarrow> nat option \<Rightarrow> 's \<Rightarrow> ('s \<times> tx_action result) option" where
  "udp_tx nets addr udp iobuf src dest netdev st =
     (case iob_ensure_headroom iobuf MAX_LL_NET_HEADER_LEN of
        Inl e \<Rightarrow> Some (st, Inl e)
      | Inr _ \<Rightarrow>
          let src = (case src of Some sa \<Rightarrow> sa | None \<Rightarrow> udp_local udp);
              dest = (case dest of Some sa \<Rightarrow> sa | None \<Rightarrow> udp_peer udp)
          in case iob_push iobuf sizeof_udphdr of
               None \<Rightarrow> None
             | Some pushed \<Rightarrow>
                 let udphdr = \<lparr>udp_src = st_port src, udp_dest = st_port dest, udp_len = htons (of_nat (iob_len pushed)),
                       udp_chksum = 0\<rparr>;
                     chksum = tcpip_chksum addr (udphdr_bytes udphdr @ iob_data iobuf);
                     pushed = pushed\<lparr>iob_data := udphdr_bytes (udphdr\<lparr>udp_chksum := chksum\<rparr>) @ iob_data iobuf\<rparr>
                 in tcpip_tx nets pushed udp_protocol (Some src) dest netdev (Some 6) st)"

text \<open>The connection, the data and the addresses that are passed to the application.\<close>

definition udp_rx ::
  "u64 \<Rightarrow> udp_connection list \<Rightarrow> io_buffer \<Rightarrow> sockaddr_tcpip \<Rightarrow> sockaddr_tcpip \<Rightarrow> u16
    \<Rightarrow> (udp_connection \<times> io_buffer \<times> sockaddr_tcpip \<times> sockaddr_tcpip) result option" where
  "udp_rx addr udp_conns iobuf st_src st_dest pshdr_csum =
     (if iob_len iobuf < sizeof_udphdr then Some (Inl EINVAL)
      else
        let udphdr = get_udphdr (iob_data iobuf);
            ulen = unat (ntohs (udp_len udphdr))
        in if ulen < sizeof_udphdr then Some (Inl EINVAL)
           else if ulen > iob_len iobuf then Some (Inl EINVAL)
           else if udp_chksum udphdr \<noteq> 0 \<and> tcpip_continue_chksum pshdr_csum addr (take ulen (iob_data iobuf)) \<noteq> 0 then
             Some (Inl EINVAL)
           else
             let st_src = st_src\<lparr>st_port := udp_src udphdr\<rparr>;
                 st_dest = st_dest\<lparr>st_port := udp_dest udphdr\<rparr>;
                 udp = udp_demux st_dest udp_conns
             in Option.bind (iob_unput iobuf (iob_len iobuf - ulen)) (\<lambda>iobuf.
                map_option (\<lambda>iobuf.
                  case udp of
                    None \<Rightarrow> Inl ENOTCONN
                  | Some udp \<Rightarrow> Inr (udp, iobuf, st_src, st_dest)) (iob_pull iobuf sizeof_udphdr)))"

section \<open>Binding\<close>

text \<open>The ports that may be chosen for a local address.\<close>

definition bind_wanted :: "sockaddr_tcpip option \<Rightarrow> u16 \<Rightarrow> bool" where
  "bind_wanted st_local p \<longleftrightarrow>
     (let flags = (case st_local of Some sa \<Rightarrow> st_flags sa | None \<Rightarrow> 0);
          port = (case st_local of Some sa \<Rightarrow> ntohs (st_port sa) | None \<Rightarrow> 0)
      in if port \<noteq> 0 then p = port
         else if bit flags 10 then 1 \<le> p \<and> p \<le> 1023 else 1025 \<le> p)"

lemma bind_search_result:
  "case bind_search available lo hi offset n i of
     Inr p \<Rightarrow> lo \<le> p \<and> p \<le> hi \<and> (\<exists>q. available p = Inr q)
   | Inl e \<Rightarrow> e = EADDRINUSE \<and> (\<forall>j < n. let p = ucast ((i + of_nat j + offset) AND ucast hi)
       in p < lo \<or> (\<exists>e. available p = Inl e))"
proof (induction n arbitrary: i)
  case (Suc n)
  let ?p = "ucast ((i + offset) AND ucast hi) :: u16"
  have "unat ?p \<le> unat ((i + offset) AND ucast hi)" by (simp add: unat_ucast_mod)
  also have "\<dots> \<le> unat (ucast hi :: u32)" by (simp only: word_and_le1 flip: word_le_nat_alt)
  also have "\<dots> = unat hi" using unat_u16_less [of hi] by (simp add: unat_ucast_mod)
  finally have le: "?p \<le> hi" by (simp only: word_le_nat_alt)
  have split: "(\<forall>j < Suc n. P j) \<longleftrightarrow> P 0 \<and> (\<forall>j < n. P (Suc j))" for P by (metis less_Suc_eq_0_disj)
  show ?case
    using Suc.IH [of "i + 1"] le
    by (auto simp: Let_def split ac_simps not_less split: sum.splits)
qed simp

lemma take_bit_word_add: "k \<le> 32 \<Longrightarrow> take_bit k (take_bit k a + b) = take_bit k (a + b)" for a b :: u32
proof -
  assume "k \<le> 32"
  then have d: "(2 :: nat) ^ k dvd 2 ^ 32" by (simp only: le_imp_power_dvd)
  then have d': "(2 :: nat) ^ k dvd 4294967296" by simp
  have u: "unat (take_bit k w) = unat w mod 2 ^ k" for w :: u32 by (metis unsigned_take_bit_eq take_bit_eq_mod)
  have "unat (take_bit k (take_bit k a + b)) = (unat a mod 2 ^ k + unat b) mod 2 ^ 32 mod 2 ^ k"
    by (simp add: u unat_word_ariths)
  also have "\<dots> = (unat a + unat b) mod 2 ^ 32 mod 2 ^ k" by (simp add: mod_mod_cancel [OF d'] mod_add_left_eq)
  also have "\<dots> = unat (take_bit k (a + b))" by (simp add: u unat_word_ariths)
  finally show ?thesis by (simp only: word_unat_eq_iff)
qed

lemma masked_port_reached:
  fixes p hi :: u16
  assumes hi: "hi = mask k" and k: "k \<le> 16" and p: "p \<le> hi"
  shows "\<exists>j < unat hi + 1. ucast ((of_nat j + offset) AND (ucast hi :: u32)) = p"
proof -
  let ?P = "ucast p :: u32" and ?m = "take_bit k (ucast p - offset) :: u32"
  have m: "ucast hi = (mask k :: u32)" using k unfolding hi by (intro bit_word_eqI) (auto simp: bit_simps)
  have "uint hi = 2 ^ k - 1" using k unfolding hi uint_mask_eq by (simp add: mask_eq_exp_minus_1 min_def)
  then have u: "unat hi = 2 ^ k - 1" by (simp add: nat_diff_distrib nat_power_eq flip: nat_uint_eq)
  have "unat ?m < 2 ^ k" by (simp add: unsigned_take_bit_eq)
  then have "unat ?m < unat hi + 1" using u by simp
  moreover have "(of_nat (unat ?m) + offset) AND (ucast hi :: u32) = take_bit k ?P"
    unfolding m take_bit_eq_mask [symmetric] using k by (simp add: take_bit_word_add)
  moreover have "ucast (take_bit k ?P) = p"
  proof -
    have "unat p < 2 ^ k" using p u by (simp add: word_le_nat_alt order_le_less_trans)
    then have "take_bit k ?P = ?P" by (simp add: take_bit_nat_eq_self_iff word_unat_eq_iff unsigned_take_bit_eq unat_ucast_mod)
    then show ?thesis using unat_u16_less [of p] by (simp add: word_unat_eq_iff unat_ucast_mod)
  qed
  ultimately show ?thesis by metis
qed

lemma privileged_bit:
  "flags AND TCPIP_BIND_PRIVILEGED = (if bit flags 10 then 0x0400 else 0)"
  "NOT flags AND TCPIP_BIND_PRIVILEGED = (if bit flags 10 then 0 else 0x0400)" for flags :: u16
proof -
  have m: "TCPIP_BIND_PRIVILEGED = 2 ^ 10" "(0x0400 :: u16) = 2 ^ 10" by (simp_all add: TCPIP_BIND_PRIVILEGED_def)
  have "w AND 2 ^ 10 = (if bit w 10 then 2 ^ 10 else 0)" for w :: u16
    by (rule bit_word_eqI) (auto simp only: bit_and_iff bit_exp_iff bit_0_eq bot_fun_def bot_bool_def split: if_splits)
  moreover have "bit (NOT flags) 10 \<longleftrightarrow> \<not> bit flags 10" by (simp add: bit_not_iff)
  ultimately show "flags AND TCPIP_BIND_PRIVILEGED = (if bit flags 10 then 0x0400 else 0)"
    "NOT flags AND TCPIP_BIND_PRIVILEGED = (if bit flags 10 then 0 else 0x0400)"
    unfolding m by (simp_all only: if_not_P not_not) auto
qed

lemma bind_search_complete:
  assumes "hi = mask k" and "k \<le> 16"
  shows "case bind_search available lo hi offset (unat hi + 1) 0 of
      Inr p \<Rightarrow> lo \<le> p \<and> p \<le> hi \<and> (\<exists>q. available p = Inr q)
    | Inl e \<Rightarrow> e = EADDRINUSE \<and> (\<forall>p. lo \<le> p \<and> p \<le> hi \<longrightarrow> (\<exists>e. available p = Inl e))"
proof (cases "bind_search available lo hi offset (unat hi + 1) 0")
  case (Inl e)
  then have r: "e = EADDRINUSE \<and> (\<forall>j < unat hi + 1. let p = ucast ((0 + of_nat j + offset) AND ucast hi)
       in p < lo \<or> (\<exists>e. available p = Inl e))"
    using bind_search_result [where available = available and lo = lo and hi = hi and offset = offset and n = "unat hi + 1" and i = 0]
    by simp
  then have none: "ucast ((of_nat j + offset) AND ucast hi) < lo \<or> (\<exists>e. available (ucast ((of_nat j + offset) AND ucast hi)) = Inl e)"
    if "j < unat hi + 1" for j using that unfolding Let_def by (metis add_0)
  have "\<exists>e. available p = Inl e" if p: "lo \<le> p" "p \<le> hi" for p
  proof -
    obtain j where "j < unat hi + 1" "ucast ((of_nat j + offset) AND (ucast hi :: u32)) = p"
      using masked_port_reached [OF assms p(2)] by blast
    with none [of j] p(1) show ?thesis by auto
  qed
  with Inl r show ?thesis by auto
next
  case (Inr p)
  then show ?thesis using bind_search_result [where available = available and lo = lo and hi = hi and offset = offset and n = "unat hi + 1" and i = 0] by simp
qed

text \<open>
  Claim C23. A port bound by tcpip\_bind() for UDP is used by no other connection. It is the port
  that is requested, if any, and otherwise below 1024 if and only if a privileged one is asked
  for. That the address is in use is reported only if all of these ports are.
\<close>

theorem udp_bind_correct:
  "case tcpip_bind random st_local (udp_port_available udp_conns) of
     Inr p \<Rightarrow> bind_wanted st_local p \<and> (\<forall>udp \<in> set udp_conns. st_port (udp_local udp) \<noteq> htons p)
   | Inl e \<Rightarrow> e = EADDRINUSE \<and> (\<forall>p. bind_wanted st_local p \<longrightarrow> (\<exists>udp \<in> set udp_conns. st_port (udp_local udp) = htons p))"
proof -
  define flags where "flags = (case st_local of Some sa \<Rightarrow> st_flags sa | None \<Rightarrow> 0)"
  define port where "port = (case st_local of Some sa \<Rightarrow> ntohs (st_port sa) | None \<Rightarrow> 0)"
  have a: "udp_port_available udp_conns p = Inr q \<longleftrightarrow> q = p \<and> (\<forall>udp \<in> set udp_conns. st_port (udp_local udp) \<noteq> htons p)"
    "udp_port_available udp_conns p = Inl e \<longleftrightarrow> e = EADDRINUSE \<and> (\<exists>udp \<in> set udp_conns. st_port (udp_local udp) = htons p)" for p q e
    by (auto simp: udp_port_available_def)
  have hi: "(0x03ff :: u16) = mask 10" "(- 1 :: u16) = mask 16" by (simp_all add: mask_eq_exp_minus_1)
  have tb: "tcpip_bind random st_local av = (if port \<noteq> 0 then av port
      else if bit flags 10 then bind_search av 1 0x03ff random (unat (0x03ff :: u16) + 1) 0
      else bind_search av 1025 (- 1) random (unat (- 1 :: u16) + 1) 0)" for av
    by (simp add: tcpip_bind_def flags_def [symmetric] port_def [symmetric] Let_def privileged_bit(1) [of flags] privileged_bit(2)
        del: bind_search.simps)
  have w: "bind_wanted st_local p \<longleftrightarrow> (if port \<noteq> 0 then p = port else if bit flags 10 then 1 \<le> p \<and> p \<le> 0x03ff else 1025 \<le> p \<and> p \<le> - 1)" for p
    by (simp add: bind_wanted_def flags_def [symmetric] port_def [symmetric] Let_def)
  note priv = bind_search_complete [OF hi(1), where available = "udp_port_available udp_conns" and lo = 1 and offset = random]
  note unpriv = bind_search_complete [OF hi(2), where available = "udp_port_available udp_conns" and lo = 1025 and offset = random]
  consider "port \<noteq> 0" | "port = 0" "bit flags 10" | "port = 0" "\<not> bit flags 10" by blast
  then show ?thesis
  proof cases
    case 1
    then show ?thesis using a by (auto simp: tb w split: sum.splits)
  next
    case 2
    with priv a show ?thesis by (auto simp: tb w simp del: bind_search.simps split: sum.splits)
  next
    case 3
    with unpriv a show ?thesis by (auto simp: tb w simp del: bind_search.simps split: sum.splits)
  qed
qed

theorem udp_bind_correct_witness:
  "case tcpip_bind 5 None (udp_port_available [\<lparr>udp_id = 0, udp_local = empty_sockaddr\<lparr>st_port := htons 1025\<rparr>, udp_peer = empty_sockaddr\<rparr>]) of
     Inr p \<Rightarrow> 1025 < p | Inl e \<Rightarrow> False"
proof -
  let ?c = "\<lparr>udp_id = 0, udp_local = empty_sockaddr\<lparr>st_port := htons 1025\<rparr>, udp_peer = empty_sockaddr\<rparr>"
  have "bind_wanted None 1026" "htons 1025 \<noteq> htons 1026" by code_simp+
  then show ?thesis
    using udp_bind_correct [where random = 5 and st_local = None and udp_conns = "[?c]"] by (auto simp: bind_wanted_def less_le split: sum.splits)
qed

section \<open>From connection to connection\<close>

lemma length_udphdr [simp]: "length (udphdr_bytes h) = 8"
  by (simp add: udphdr_bytes_def)

lemma get_udphdr_bytes [simp]: "get_udphdr (udphdr_bytes h @ x) = h"
  by (simp add: get_udphdr_def udphdr_bytes_def)

text \<open>A datagram with a checksum that verifies is passed on without its header.\<close>

lemma udp_rx_datagram:
  assumes "iob_data rb = udphdr_bytes h @ payload" and "unat (ntohs (udp_len h)) = 8 + length payload"
    and "tcpip_continue_chksum csum addr (iob_data rb) = 0"
  shows "\<exists>b. iob_data b = payload \<and> udp_rx addr udp_conns rb src dest csum =
    Some (case udp_demux (dest\<lparr>st_port := udp_dest h\<rparr>) udp_conns of None \<Rightarrow> Inl ENOTCONN
      | Some udp \<Rightarrow> Inr (udp, b, src\<lparr>st_port := udp_src h\<rparr>, dest\<lparr>st_port := udp_dest h\<rparr>))"
  using assms
  by (intro exI [of _ "rb\<lparr>iob_before := iob_before rb @ udphdr_bytes h, iob_data := payload\<rparr>"])
    (simp add: udp_rx_def iob_len_def sizeof_udphdr_def iob_unput_def iob_pull_def Let_def)

text \<open>
  Claim C5. A datagram sent over UDP and IPv4 is passed to the connection of the receiver that
  listens on its destination, with the data that was sent and with the port of the sender and
  the source address of the route, whatever padding the link layer added; when no connection
  listens it is refused.
\<close>

theorem udp_end_to_end:
  assumes tx: "udp_tx [ipv4_tcpip_protocol mc_hash devs addr] addr udp iobuf src dest netdev st = Some (st', Inr action)"
    and sender: "source = (case src of Some sa \<Rightarrow> sa | None \<Rightarrow> udp_local udp)"
    and receiver: "target = (case dest of Some sa \<Rightarrow> sa | None \<Rightarrow> udp_peer udp)"
    and len: "28 + iob_len iobuf < 65536"
    and data: "iob_data rx = iob_data (action_buffer action) @ pad"
    and flags: "flags AND LL_MULTICAST = 0" and local: "ipv4_has_addr dev (sin_addr target) (ipv4_miniroutes rs)"
    and proto: "IP_UDP \<in> set protos"
  shows "\<exists>rs' rb csum b a. ipv4_rx protos addr2 now new alloc rx dev flags rs =
      Some (rs', Rx_deliver rb IP_UDP a (sin_addr target) csum)
    \<and> a = fst (select_route devs (Some (sin_addr source)) (sin_addr target) (ucast (st_scope_id target)) netdev (ipv4_miniroutes st))
    \<and> iob_data b = iob_data iobuf
    \<and> udp_rx addr3 udp_conns rb (ipv4_sockaddr a) (ipv4_sockaddr (sin_addr target)) csum =
        Some (case udp_demux (ipv4_sockaddr (sin_addr target)\<lparr>st_port := st_port target\<rparr>) udp_conns of
            None \<Rightarrow> Inl ENOTCONN
          | Some c \<Rightarrow> Inr (c, b, ipv4_sockaddr a\<lparr>st_port := st_port source\<rparr>,
              ipv4_sockaddr (sin_addr target)\<lparr>st_port := st_port target\<rparr>))"
proof -
  define h where "h = \<lparr>udp_src = st_port source, udp_dest = st_port target, udp_len = htons (of_nat (8 + iob_len iobuf)), udp_chksum = 0\<rparr>"
  define p where "p = bytes_u16 (udp_src h) @ bytes_u16 (udp_dest h) @ bytes_u16 (udp_len h)"
  have hb: "udphdr_bytes (h\<lparr>udp_chksum := c\<rparr>) @ x = p @ bytes_u16 c @ x" for c x by (simp add: udphdr_bytes_def p_def)
  obtain u where room: "iob_ensure_headroom iobuf MAX_LL_NET_HEADER_LEN = Inr u"
    using tx by (auto simp: udp_tx_def split: sum.splits)
  then obtain pushed where pushed: "iob_push iobuf sizeof_udphdr = Some pushed" "iob_len pushed = 8 + iob_len iobuf"
    by (auto simp: iob_push_def iob_ensure_headroom_def sizeof_udphdr_def iob_len_def Let_def
        MAX_LL_NET_HEADER_LEN_def MAX_LL_HEADER_LEN_def MAX_NET_HEADER_LEN_def iob_headroom_def split: if_splits)
  define c where "c = tcpip_chksum addr (p @ [0, 0] @ iob_data iobuf)"
  define sent where "sent = pushed\<lparr>iob_data := p @ bytes_u16 c @ iob_data iobuf\<rparr>"
  have six: "length p = 6" by (simp add: p_def)
  have "bytes_u16 0 = [0, 0]" by (simp add: bytes_u16_def)
  then have "tcpip_tx [ipv4_tcpip_protocol mc_hash devs addr] sent udp_protocol (Some source) target netdev (Some 6) st = Some (st', Inr action)"
    using tx by (simp add: udp_tx_def Let_def room pushed sender [symmetric] receiver [symmetric] sent_def c_def p_def h_def udphdr_bytes_def)
  then have tx': "ipv4_tx mc_hash devs addr sent udp_protocol (Some (sin_addr source)) (sin_addr target) (ucast (st_scope_id target)) netdev
      (Some (length p)) st = Some (st', Inr action)"
    unfolding six by (auto simp: tcpip_tx_def tcpip_net_protocol_def ipv4_tcpip_protocol_def split: if_splits)
  have l: "20 + iob_len sent < 65536" using len six by (simp add: sent_def iob_len_def)
  obtain rs' rb csum c' where rb: "ipv4_rx protos addr2 now new alloc rx dev flags rs = Some (rs', Rx_deliver rb IP_UDP
      (fst (select_route devs (Some (sin_addr source)) (sin_addr target) (ucast (st_scope_id target)) netdev (ipv4_miniroutes st)))
      (sin_addr target) csum)"
    "iob_data rb = p @ bytes_u16 c' @ iob_data iobuf" "tcpip_continue_chksum csum addr3 (iob_data rb) = 0"
    using tx_rx [OF tx' _ _ l _ data flags local, of addr "iob_data iobuf" protos addr2 now new alloc addr3] six proto
    by (auto simp: sent_def c_def udp_protocol_def)
  have "unat (ntohs (udp_len (h\<lparr>udp_chksum := c'\<rparr>))) = 8 + length (iob_data iobuf)"
    using len by (simp add: h_def ntohs_htons unat_of_nat iob_len_def del: of_nat_add)
  moreover have "udp_src (h\<lparr>udp_chksum := c'\<rparr>) = st_port source" "udp_dest (h\<lparr>udp_chksum := c'\<rparr>) = st_port target"
    by (simp_all add: h_def)
  ultimately show ?thesis
    using udp_rx_datagram [OF rb(2) [folded hb] _ rb(3), of udp_conns _ "ipv4_sockaddr (sin_addr target)"] rb(1) by metis
qed

definition example_udp :: "in_addr \<Rightarrow> u16 \<Rightarrow> in_addr \<Rightarrow> u16 \<Rightarrow> udp_connection" where
  "example_udp address port peer peer_port =
     \<lparr>udp_id = 0, udp_local = ipv4_sockaddr address\<lparr>st_port := htons port\<rparr>, udp_peer = ipv4_sockaddr peer\<lparr>st_port := htons peer_port\<rparr>\<rparr>"

lemma sin_addr_sockaddr: "sin_addr (ipv4_sockaddr a\<lparr>st_port := x\<rparr>) = a"
  by (simp add: sin_addr_def ipv4_sockaddr_def)

lemma sockaddr_fields: "st_family (ipv4_sockaddr a) = AF_INET" "st_scope_id (ipv4_sockaddr a) = 0"
  by (simp_all add: ipv4_sockaddr_def empty_sockaddr_def)

theorem udp_end_to_end_witness:
  "\<exists>st' action. udp_tx [ipv4_tcpip_protocol (\<lambda>_. Inl ENOENT) (\<lambda>_. example_dev) 0] 0
      (example_udp (htonl 0xc0a80105) 2000 (htonl 0xc0a80102) 69)
      \<lparr>iob_before = replicate 104 0, iob_data = [1, 2, 3], iob_after = []\<rparr> None None None (example_state (htonl 0xc0a80105)) =
      Some (st', Inr action)
   \<and> (\<exists>rs' rb csum b a. ipv4_rx [6, 17] 0 0 None (\<lambda>_. None)
         \<lparr>iob_before = [], iob_data = iob_data (action_buffer action) @ replicate 15 0, iob_after = []\<rparr> 0 0
         (example_state (htonl 0xc0a80102)) = Some (rs', Rx_deliver rb IP_UDP a (htonl 0xc0a80102) csum)
      \<and> a = htonl 0xc0a80105 \<and> iob_data b = [1, 2, 3]
      \<and> udp_rx 0 [example_udp (htonl 0xc0a80102) 69 0 0] rb (ipv4_sockaddr a) (ipv4_sockaddr (htonl 0xc0a80102)) csum =
          Some (Inr (example_udp (htonl 0xc0a80102) 69 0 0, b, ipv4_sockaddr a\<lparr>st_port := htons 2000\<rparr>,
            ipv4_sockaddr (htonl 0xc0a80102)\<lparr>st_port := htons 69\<rparr>)))"
proof -
  let ?from = "htonl 0xc0a80105" and ?dest = "htonl 0xc0a80102" and ?p = "ipv4_tcpip_protocol (\<lambda>_. Inl ENOENT) (\<lambda>_. example_dev) 0"
    and ?b = "\<lparr>iob_before = replicate 104 0, iob_data = [1, 2, 3], iob_after = []\<rparr>"
  let ?u = "example_udp ?from 2000 ?dest 69" and ?v = "example_udp ?dest 69 0 0"
  let ?tx = "udp_tx [?p] 0 ?u ?b None None None (example_state ?from)"
  have r: "select_route (\<lambda>_. example_dev) (Some ?from) ?dest 0 None (ipv4_miniroutes (example_state ?from)) =
      (?from, htonl 0x000000ff, Some 0, ?dest)" by code_simp
  have "NOT ?dest AND htonl 0x000000ff \<noteq> 0" "\<not> IN_IS_MULTICAST ?dest" by code_simp+
  then have "\<exists>st' action. ?tx = Some (st', Inr action)"
    using r by (simp add: udp_tx_def iob_ensure_headroom_def iob_headroom_def MAX_LL_NET_HEADER_LEN_def MAX_LL_HEADER_LEN_def
        MAX_NET_HEADER_LEN_def iob_push_def sizeof_udphdr_def Let_def example_udp_def tcpip_tx_def tcpip_net_protocol_def
        ipv4_tcpip_protocol_def ipv4_tx_def sin_addr_sockaddr sizeof_iphdr_def update_stats_def sockaddr_fields)
  then obtain st' action where tx: "?tx = Some (st', Inr action)" by blast
  have l: "ipv4_has_addr 0 ?dest (ipv4_miniroutes (example_state ?dest))" by code_simp
  have v: "udp_demux (ipv4_sockaddr ?dest\<lparr>st_port := htons 69\<rparr>) [?v] = Some ?v"
    by (simp add: udp_demux_def example_udp_def)
  have ends: "ipv4_sockaddr ?from\<lparr>st_port := htons 2000\<rparr> = (case None of Some sa \<Rightarrow> sa | None \<Rightarrow> udp_local ?u)"
    "ipv4_sockaddr ?dest\<lparr>st_port := htons 69\<rparr> = (case None of Some sa \<Rightarrow> sa | None \<Rightarrow> udp_peer ?u)"
    by (simp_all add: example_udp_def)
  have "\<exists>rs' rb csum b a. ipv4_rx [6, 17] 0 0 None (\<lambda>_. None)
         \<lparr>iob_before = [], iob_data = iob_data (action_buffer action) @ replicate 15 0, iob_after = []\<rparr> 0 0
         (example_state ?dest) = Some (rs', Rx_deliver rb IP_UDP a ?dest csum)
      \<and> a = ?from \<and> iob_data b = [1, 2, 3]
      \<and> udp_rx 0 [?v] rb (ipv4_sockaddr a) (ipv4_sockaddr ?dest) csum =
          Some (Inr (?v, b, ipv4_sockaddr a\<lparr>st_port := htons 2000\<rparr>, ipv4_sockaddr ?dest\<lparr>st_port := htons 69\<rparr>))"
    using udp_end_to_end [OF tx ends, where pad = "replicate 15 0" and flags = 0 and dev = 0 and rs = "example_state ?dest"
      and rx = "\<lparr>iob_before = [], iob_data = iob_data (action_buffer action) @ replicate 15 0, iob_after = []\<rparr>"
      and protos = "[6, 17]" and ?addr2.0 = 0 and now = 0 and new = None and alloc = "\<lambda>_. None" and ?addr3.0 = 0
      and udp_conns = "[?v]"] l r
    by (simp add: sin_addr_sockaddr sockaddr_fields iob_len_def IP_UDP_def v)
  with tx show ?thesis by blast
qed

end
