(* ===== verification/Digest.thy ===== *)
theory Digest
  imports ByteOrder
begin

text \<open>
  Digests that process data in blocks (crypto/md4.c, md5.c, sha1.c, sha256.c, sha512.c share this
  structure): accumulating data a byte at a time and padding. The function that digests a full
  block is a parameter. The locale states what it has to do, and its lemmas show that any way of
  cutting the data into updates computes the same digest of the padded data.
\<close>

section \<open>Contexts\<close>

text \<open>The length, the digest as words in memory, and the block that is being filled.\<close>

record 'w digest_context =
  ctx_len :: u64
  ctx_h :: "'w list"
  ctx_data :: bytes

fun block_update ::
  "(('w, 'm) digest_context_scheme \<Rightarrow> ('w, 'm) digest_context_scheme) \<Rightarrow> nat \<Rightarrow> bytes
    \<Rightarrow> ('w, 'm) digest_context_scheme \<Rightarrow> ('w, 'm) digest_context_scheme" where
  "block_update digest bsize [] context = context"
| "block_update digest bsize (byte # data) context =
     (let offset = unat (ctx_len context) mod bsize;
          context = context\<lparr>ctx_data := (ctx_data context)[offset := byte]\<rparr>;
          context = context\<lparr>ctx_len := ctx_len context + 1\<rparr>;
          context = (if unat (ctx_len context) mod bsize = 0 then digest context else context)
      in block_update digest bsize data context)"

text \<open>The padding, until only the length is left to be added.\<close>

partial_function (option) block_pad ::
  "(('w, 'm) digest_context_scheme \<Rightarrow> ('w, 'm) digest_context_scheme) \<Rightarrow> nat \<Rightarrow> nat \<Rightarrow> u8
    \<Rightarrow> ('w, 'm) digest_context_scheme \<Rightarrow> ('w, 'm) digest_context_scheme option" where
  "block_pad digest bsize final_len pad context =
     (let context = block_update digest bsize [pad] context
      in if unat (ctx_len context) mod bsize \<noteq> final_len then block_pad digest bsize final_len 0 context
         else Some context)"

declare block_pad.simps [code]

text \<open>A block as the words that it holds in memory.\<close>

definition load_dwords :: "bytes \<Rightarrow> u32 list" where
  "load_dwords d = map (\<lambda>i. load_u32 (drop (4 * i) d)) [0..<length d div 4]"

section \<open>Specification\<close>

text \<open>The full blocks of a message, and a message with its padding and a length field.\<close>

definition full_blocks :: "nat \<Rightarrow> bytes \<Rightarrow> bytes list" where
  "full_blocks bsize msg = map (\<lambda>i. take bsize (drop (i * bsize) msg)) [0..<length msg div bsize]"

definition pad_zeros :: "nat \<Rightarrow> nat \<Rightarrow> nat \<Rightarrow> nat" where
  "pad_zeros bsize final_len n = (final_len + (bsize - (n + 1) mod bsize)) mod bsize"

definition padded :: "nat \<Rightarrow> nat \<Rightarrow> bytes \<Rightarrow> bytes \<Rightarrow> bytes" where
  "padded bsize final_len len_field msg = msg @ 0x80 # replicate (pad_zeros bsize final_len (length msg)) 0 @ len_field"

lemma full_blocks_append_block:
  assumes "0 < bsize" and "bsize dvd length msg" and "length b = bsize"
  shows "full_blocks bsize (msg @ b) = full_blocks bsize msg @ [b]"
proof -
  obtain n where n: "length msg = n * bsize" using assms(2) by (metis dvd_div_mult_self)
  have "take bsize (drop (i * bsize) (msg @ b)) = take bsize (drop (i * bsize) msg)" if "i < n" for i
  proof -
    have "(i + 1) * bsize \<le> n * bsize" using that by (intro mult_le_mono1) simp
    then show ?thesis using n by (simp add: algebra_simps)
  qed
  then show ?thesis using assms(1,3) n by (simp add: full_blocks_def)
qed

lemma full_blocks_partial:
  assumes "0 < bsize" and "length msg mod bsize + length x < bsize"
  shows "full_blocks bsize (msg @ x) = full_blocks bsize msg"
proof -
  have d: "(length msg + length x) div bsize = length msg div bsize"
    using assms by (simp add: div_add1_eq [of "length msg"])
  have "take bsize (drop (i * bsize) (msg @ x)) = take bsize (drop (i * bsize) msg)" if "i < length msg div bsize" for i
  proof -
    have "(i + 1) * bsize \<le> length msg div bsize * bsize" using that by (intro mult_le_mono1) simp
    also have "\<dots> \<le> length msg" by simp
    finally show ?thesis by (simp add: algebra_simps)
  qed
  then show ?thesis using d by (simp add: full_blocks_def)
qed

lemma pad_zeros_step:
  assumes "final_len < bsize"
  shows "pad_zeros bsize final_len n = 0 \<longleftrightarrow> (n + 1) mod bsize = final_len"
    and "pad_zeros bsize final_len n = Suc k \<Longrightarrow> pad_zeros bsize final_len (Suc n) = k"
proof -
  have eq: "pad_zeros bsize final_len m =
      (if (m + 1) mod bsize \<le> final_len then final_len - (m + 1) mod bsize else final_len + bsize - (m + 1) mod bsize)" for m
  proof -
    have r: "(m + 1) mod bsize < bsize" using assms by simp
    show ?thesis
    proof (cases "(m + 1) mod bsize \<le> final_len")
      case True
      then have e: "final_len + (bsize - (m + 1) mod bsize) = final_len - (m + 1) mod bsize + bsize" using r by simp
      have "final_len - (m + 1) mod bsize < bsize" using assms by simp
      then show ?thesis using True unfolding pad_zeros_def e mod_add_self2 by (simp only: mod_less if_True)
    next
      case False
      then show ?thesis using r by (simp add: pad_zeros_def)
    qed
  qed
  define r where "r = (n + 1) mod bsize"
  have r: "r < bsize" using assms by (simp add: r_def)
  show "pad_zeros bsize final_len n = 0 \<longleftrightarrow> (n + 1) mod bsize = final_len"
    using r assms unfolding eq [of n] r_def [symmetric] by auto
  have n: "(Suc n + 1) mod bsize = (if r + 1 = bsize then 0 else r + 1)"
    by (simp add: mod_Suc r_def)
  show "pad_zeros bsize final_len n = Suc k \<Longrightarrow> pad_zeros bsize final_len (Suc n) = k"
    using r assms unfolding eq [of n] eq [of "Suc n"] n r_def [symmetric] by (auto split: if_splits)
qed

lemma length_concat_words: "length (concat (map bytes_u32 ws)) = 4 * length ws" "length (concat (map bytes_u64 qs)) = 8 * length qs"
  by (induction ws) (induction qs; simp)+

text \<open>Words that are kept in the other byte order.\<close>

lemma foldl_swapped:
  assumes "\<And>w. swap (swap w) = w"
  shows "map swap (foldl (\<lambda>h b. map swap (f (map swap h) b)) h bs) = foldl f (map swap h) bs"
  using assms by (induction bs arbitrary: h) (simp_all add: comp_def)

section \<open>The contract of a block function\<close>

locale block_digest =
  fixes digest :: "('w, 'm) digest_context_scheme \<Rightarrow> ('w, 'm) digest_context_scheme"
    and bsize :: nat
    and compress :: "'w list \<Rightarrow> bytes \<Rightarrow> 'w list"
  assumes size_pos: "0 < bsize" and size_dvd: "bsize dvd 2 ^ 64"
    and digest_len: "ctx_len (digest c) = ctx_len c"
    and digest_data: "length (ctx_data c) = bsize \<Longrightarrow> length (ctx_data (digest c)) = bsize"
    and digest_h: "length (ctx_data c) = bsize \<Longrightarrow> ctx_h (digest c) = compress (ctx_h c) (ctx_data c)"
    and digest_more: "digest_context.more (digest c) = digest_context.more c"

begin

text \<open>A context that has absorbed a message: the full blocks are digested, the rest is stored.\<close>

definition absorbed :: "'w list \<Rightarrow> 'm \<Rightarrow> bytes \<Rightarrow> ('w, 'm) digest_context_scheme \<Rightarrow> bool" where
  "absorbed iv ext msg c \<longleftrightarrow> digest_context.more c = ext \<and> ctx_len c = of_nat (length msg) \<and> length (ctx_data c) = bsize
     \<and> ctx_h c = foldl compress iv (full_blocks bsize msg)
     \<and> take (length msg mod bsize) (ctx_data c) = drop (length msg div bsize * bsize) msg"

lemma len_mod: "unat (of_nat n :: u64) mod bsize = n mod bsize"
proof -
  have "unat (of_nat n :: u64) = n mod 2 ^ 64" by (simp add: unat_of_nat)
  then show ?thesis by (simp only: mod_mod_cancel [OF size_dvd])
qed

lemma absorbed_init:
  assumes "digest_context.more c = ext" and "ctx_len c = 0" and "ctx_h c = iv" and "length (ctx_data c) = bsize"
  shows "absorbed iv ext [] c"
  using assms by (simp add: absorbed_def full_blocks_def)

lemma absorbed_byte:
  assumes "absorbed iv ext msg c"
  shows "absorbed iv ext (msg @ [b]) (block_update digest bsize [b] c)"
proof -
  let ?n = "length msg" and ?o = "length msg mod bsize"
  let ?d = "(ctx_data c)[?o := b]"
  define c1 where "c1 = c\<lparr>ctx_data := ?d, ctx_len := ctx_len c + 1\<rparr>"
  have more: "digest_context.more c1 = ext" using assms by (simp add: absorbed_def c1_def)
  have c: "ctx_len c = of_nat ?n" "length (ctx_data c) = bsize" "ctx_h c = foldl compress iv (full_blocks bsize msg)"
    "take ?o (ctx_data c) = drop (?n div bsize * bsize) msg" using assms by (simp_all add: absorbed_def)
  have o: "?o < bsize" using size_pos by simp
  have l: "unat (ctx_len c + 1) mod bsize = (?n + 1) mod bsize" using len_mod [of "?n + 1"] c(1) by (simp add: add.commute)
  have off: "unat (ctx_len c) mod bsize = ?o" using len_mod c(1) by simp
  have u: "block_update digest bsize [b] c = (if (?n + 1) mod bsize = 0 then digest c1 else c1)"
    by (simp add: c1_def off l Let_def)
  have t: "take (?o + 1) ?d = drop (?n div bsize * bsize) msg @ [b]"
    using o c(2,4) by (simp add: take_Suc_conv_app_nth take_update_cancel)
  show ?thesis
  proof (cases "(?n + 1) mod bsize = 0")
    case True
    then have o': "?o + 1 = bsize" using o by (metis Suc_eq_plus1 mod_Suc nat.distinct(1))
    define m where "m = take (?n div bsize * bsize) msg"
    define rest where "rest = drop (?n div bsize * bsize) msg @ [b]"
    have m: "msg @ [b] = m @ rest" by (simp add: m_def rest_def)
    have lm: "length m = ?n div bsize * bsize" by (simp add: m_def)
    have d: "?d = rest" using t c(2) o' by (simp add: rest_def)
    have lr: "length rest = bsize" using d [symmetric] c(2) by simp
    have "length (drop (?n div bsize * bsize) msg) < bsize" using o by (simp add: minus_div_mult_eq_mod)
    then have fm: "full_blocks bsize m = full_blocks bsize msg"
      using full_blocks_partial [of bsize m "drop (?n div bsize * bsize) msg"] lm size_pos
      by (simp add: m_def)
    have "full_blocks bsize (msg @ [b]) = full_blocks bsize msg @ [rest]"
      unfolding m using full_blocks_append_block [OF size_pos _ lr, of m] lm fm by simp
    moreover have "ctx_data c1 = rest" "ctx_h c1 = ctx_h c" "ctx_len c1 = of_nat (length (msg @ [b]))"
      using d c(1) by (simp_all add: c1_def add.commute)
    moreover have "Suc ?n div bsize * bsize = Suc ?n" using True by (metis Suc_eq_plus1 dvd_div_mult_self mod_eq_0_iff_dvd)
    moreover have "block_update digest bsize [b] c = digest c1" using u True by simp
    ultimately show ?thesis
      using True c(3) lr more digest_more [of c1] digest_len [of c1] digest_data [of c1] digest_h [of c1]
      by (simp add: absorbed_def del: block_update.simps)
  next
    case False
    then have o': "(?n + 1) mod bsize = ?o + 1" "(?n + 1) div bsize = ?n div bsize"
      using o by (auto simp: mod_Suc div_Suc split: if_splits)
    have "?o + 1 < bsize" using o'(1) mod_less_divisor [OF size_pos, of "?n + 1"] by simp
    then have "full_blocks bsize (msg @ [b]) = full_blocks bsize msg"
      using full_blocks_partial [of bsize msg "[b]"] size_pos by simp
    moreover have "block_update digest bsize [b] c = c1" using u False by simp
    ultimately show ?thesis
      using c t o' more by (simp add: absorbed_def c1_def add.commute del: block_update.simps)
  qed
qed

lemma block_update_append: "block_update digest bsize (x @ y) c = block_update digest bsize y (block_update digest bsize x c)"
  by (induction x arbitrary: c) (simp_all add: Let_def)

lemma absorbed_update: "absorbed iv ext msg c \<Longrightarrow> absorbed iv ext (msg @ data) (block_update digest bsize data c)"
proof (induction data arbitrary: msg c)
  case (Cons b data)
  from Cons.IH [OF absorbed_byte [OF Cons.prems]] show ?case
    using block_update_append [of "[b]" data c] by simp
qed simp

text \<open>The padding loop ends, with the least number of zeros.\<close>

lemma absorbed_pad:
  assumes "absorbed iv ext msg c" and "final_len < bsize" and "pad_zeros bsize final_len (length msg) = k"
  shows "\<exists>c'. block_pad digest bsize final_len pad c = Some c' \<and> absorbed iv ext (msg @ pad # replicate k 0) c'"
  using assms(1,3)
proof (induction k arbitrary: msg c pad)
  case 0
  let ?c = "block_update digest bsize [pad] c"
  have a: "absorbed iv ext (msg @ [pad]) ?c" by (rule absorbed_byte [OF 0(1)])
  then have "unat (ctx_len ?c) mod bsize = final_len"
    using 0(2) pad_zeros_step(1) [OF assms(2)] len_mod [of "length msg + 1"] by (simp add: absorbed_def del: block_update.simps)
  then show ?case using a by (subst block_pad.simps) (simp del: block_update.simps add: Let_def)
next
  case (Suc k)
  let ?c = "block_update digest bsize [pad] c"
  have a: "absorbed iv ext (msg @ [pad]) ?c" by (rule absorbed_byte [OF Suc.prems(1)])
  have z: "pad_zeros bsize final_len (length (msg @ [pad])) = k"
    using pad_zeros_step(2) [OF assms(2) Suc.prems(2)] by simp
  have "unat (ctx_len ?c) mod bsize \<noteq> final_len"
    using a Suc.prems(2) pad_zeros_step(1) [OF assms(2), of "length msg"] len_mod [of "length msg + 1"]
    by (simp add: absorbed_def del: block_update.simps)
  then have "block_pad digest bsize final_len pad c = block_pad digest bsize final_len 0 ?c"
    by (subst block_pad.simps) (simp del: block_update.simps add: Let_def)
  with Suc.IH [OF a z, of 0] show ?case by (simp del: block_update.simps)
qed

text \<open>The digest after padding and the length field, which completes the last block.\<close>

lemma absorbed_final:
  assumes "absorbed iv ext msg c" and "final_len < bsize" and "final_len + length len_field = bsize"
  shows "\<exists>c' c''. block_pad digest bsize final_len 0x80 c = Some c' \<and> c'' = block_update digest bsize len_field c'
    \<and> ctx_h c'' = foldl compress iv (full_blocks bsize (padded bsize final_len len_field msg)) \<and> length (ctx_data c'') = bsize
    \<and> digest_context.more c'' = ext"
proof -
  obtain c' where c': "block_pad digest bsize final_len 0x80 c = Some c'"
    "absorbed iv ext (msg @ 0x80 # replicate (pad_zeros bsize final_len (length msg)) 0) c'"
    using absorbed_pad [OF assms(1,2) refl] by blast
  from absorbed_update [OF c'(2), of len_field] c'(1) show ?thesis
    by (auto simp: absorbed_def padded_def)
qed

end

section \<open>Algorithms\<close>

record 'c digest_algorithm =
  da_blocksize :: nat
  da_digestsize :: nat
  da_init :: "'c \<Rightarrow> 'c"
  da_update :: "bytes \<Rightarrow> 'c \<Rightarrow> 'c"
  da_final :: "'c \<Rightarrow> ('c \<times> bytes) option"

text \<open>
  What the users of an algorithm rely on: a context that is initialised absorbs data, and the
  digest is that of all the data absorbed.
\<close>

locale hash_algorithm =
  fixes alg :: "'c digest_algorithm"
    and valid :: "'c \<Rightarrow> bool"
    and holds :: "bytes \<Rightarrow> 'c \<Rightarrow> bool"
    and H :: "bytes \<Rightarrow> bytes"
  assumes init_holds: "valid c \<Longrightarrow> holds [] (da_init alg c)"
    and update_holds: "holds msg c \<Longrightarrow> holds (msg @ data) (da_update alg data c)"
    and final_holds: "holds msg c \<Longrightarrow> \<exists>c'. da_final alg c = Some (c', H msg) \<and> valid c'"
    and H_length: "length (H msg) = da_digestsize alg"
    and digest_fits: "da_digestsize alg \<le> da_blocksize alg" and digest_pos: "0 < da_digestsize alg"

begin

lemma updates_hold: "holds msg c \<Longrightarrow> holds (msg @ concat chunks) (fold (da_update alg) chunks c)"
proof (induction chunks arbitrary: msg c)
  case (Cons d ds)
  from Cons.IH [OF update_holds [OF Cons.prems]] show ?case by simp
qed simp

lemma digest_chunks:
  "valid c \<Longrightarrow> \<exists>c'. da_final alg (fold (da_update alg) chunks (da_init alg c)) = Some (c', H (concat chunks)) \<and> valid c'"
  using updates_hold [OF init_holds, of c chunks] final_holds by auto

end

end
