(* ===== verification/Sha2.thy ===== *)
theory Sha2
  imports Digest
begin

text \<open>
  The SHA-2 family (crypto/sha256.c, crypto/sha512.c and the files that only choose other
  initial values). A digest is a list of words as they are in memory, in big-endian order. The
  specification is that of FIPS 180-4.
\<close>

section \<open>Common parts\<close>

record 'w sha2_context = "'w digest_context" +
  digestsize :: nat

type_synonym 'w sha2_variables = "'w \<times> 'w \<times> 'w \<times> 'w \<times> 'w \<times> 'w \<times> 'w \<times> 'w"

definition list_variables :: "'w list \<Rightarrow> 'w sha2_variables" where
  "list_variables h = (h ! 0, h ! 1, h ! 2, h ! 3, h ! 4, h ! 5, h ! 6, h ! 7)"

fun variables_list :: "'w sha2_variables \<Rightarrow> 'w list" where
  "variables_list (a, b, c, d, e, f, g, h) = [a, b, c, d, e, f, g, h]"

definition ror32 :: "u32 \<Rightarrow> nat \<Rightarrow> u32" where
  "ror32 data rotation = drop_bit rotation data OR push_bit (32 - rotation) data"

definition ror64 :: "u64 \<Rightarrow> nat \<Rightarrow> u64" where
  "ror64 data rotation = drop_bit rotation data OR push_bit (64 - rotation) data"

definition load_qwords :: "bytes \<Rightarrow> u64 list" where
  "load_qwords d = map (\<lambda>i. load_qword (drop (8 * i) d)) [0..<length d div 8]"

section \<open>SHA-256\<close>

text \<open>The constants, in the rows of the source.\<close>

definition sha256_k :: "u32 list" where
  "sha256_k = concat
     [[0x428a2f98, 0x71374491, 0xb5c0fbcf, 0xe9b5dba5, 0x3956c25b, 0x59f111f1],
      [0x923f82a4, 0xab1c5ed5, 0xd807aa98, 0x12835b01, 0x243185be, 0x550c7dc3],
      [0x72be5d74, 0x80deb1fe, 0x9bdc06a7, 0xc19bf174, 0xe49b69c1, 0xefbe4786],
      [0x0fc19dc6, 0x240ca1cc, 0x2de92c6f, 0x4a7484aa, 0x5cb0a9dc, 0x76f988da],
      [0x983e5152, 0xa831c66d, 0xb00327c8, 0xbf597fc7, 0xc6e00bf3, 0xd5a79147],
      [0x06ca6351, 0x14292967, 0x27b70a85, 0x2e1b2138, 0x4d2c6dfc, 0x53380d13],
      [0x650a7354, 0x766a0abb, 0x81c2c92e, 0x92722c85, 0xa2bfe8a1, 0xa81a664b],
      [0xc24b8b70, 0xc76c51a3, 0xd192e819, 0xd6990624, 0xf40e3585, 0x106aa070],
      [0x19a4c116, 0x1e376c08, 0x2748774c, 0x34b0bcb5, 0x391c0cb3, 0x4ed8aa4a],
      [0x5b9cca4f, 0x682e6ff3, 0x748f82ee, 0x78a5636f, 0x84c87814, 0x8cc70208],
      [0x90befffa, 0xa4506ceb, 0xbef9a3f7, 0xc67178f2]]"

text \<open>The message schedule, from its first sixteen words.\<close>

definition sha256_expand :: "u32 list \<Rightarrow> u32 list" where
  "sha256_expand w =
     fold (\<lambda>i w.
       let s0 = ror32 (w ! (i - 15)) 7 XOR ror32 (w ! (i - 15)) 18 XOR drop_bit 3 (w ! (i - 15));
           s1 = ror32 (w ! (i - 2)) 17 XOR ror32 (w ! (i - 2)) 19 XOR drop_bit 10 (w ! (i - 2))
       in w @ [w ! (i - 16) + s0 + w ! (i - 7) + s1]) [16..<64] w"

definition sha256_step :: "u32 list \<Rightarrow> nat \<Rightarrow> u32 sha2_variables \<Rightarrow> u32 sha2_variables" where
  "sha256_step w i v =
     (case v of (a, b, c, d, e, f, g, h) \<Rightarrow>
        let s0 = ror32 a 2 XOR ror32 a 13 XOR ror32 a 22;
            maj = (a AND b) XOR (a AND c) XOR (b AND c);
            t2 = s0 + maj;
            s1 = ror32 e 6 XOR ror32 e 11 XOR ror32 e 25;
            ch = (e AND f) XOR (NOT e AND g);
            t1 = h + s1 + ch + sha256_k ! i + w ! i
        in (t1 + t2, a, b, c, d + t1, e, f, g))"

definition sha256_digest :: "u32 sha2_context \<Rightarrow> u32 sha2_context" where
  "sha256_digest context =
     (let digest = map be32_to_cpu (ctx_h context);
          data = map be32_to_cpu (load_dwords (ctx_data context));
          w = sha256_expand data;
          v = fold (sha256_step w) [0..<64] (list_variables digest)
      in context\<lparr>ctx_h := map2 (\<lambda>x y. cpu_to_be32 (x + y)) digest (variables_list v),
                 ctx_data := concat (map bytes_u32 data)\<rparr>)"

definition sha256_family_init :: "u32 list \<Rightarrow> nat \<Rightarrow> u32 sha2_context \<Rightarrow> u32 sha2_context" where
  "sha256_family_init init dsize context = context\<lparr>ctx_len := 0, digestsize := dsize, ctx_h := init\<rparr>"

definition sha256_init_digest :: "u32 list" where
  "sha256_init_digest = map cpu_to_be32
     [0x6a09e667, 0xbb67ae85, 0x3c6ef372, 0xa54ff53a,
      0x510e527f, 0x9b05688c, 0x1f83d9ab, 0x5be0cd19]"

definition sha256_init :: "u32 sha2_context \<Rightarrow> u32 sha2_context" where
  "sha256_init context = sha256_family_init sha256_init_digest 32 context"

definition sha256_update :: "bytes \<Rightarrow> u32 sha2_context \<Rightarrow> u32 sha2_context" where
  "sha256_update data context = block_update sha256_digest 64 data context"

definition sha256_final :: "u32 sha2_context \<Rightarrow> (u32 sha2_context \<times> bytes) option" where
  "sha256_final context =
     (let len_bits = cpu_to_be64 (ctx_len context * 8)
      in case block_pad sha256_digest 64 56 0x80 context of
           None \<Rightarrow> None
         | Some context \<Rightarrow>
             let context = sha256_update (bytes_u64 len_bits) context
             in Some (context, take (digestsize context) (concat (map bytes_u32 (ctx_h context)))))"

definition sha224_init_digest :: "u32 list" where
  "sha224_init_digest = map cpu_to_be32
     [0xc1059ed8, 0x367cd507, 0x3070dd17, 0xf70e5939,
      0xffc00b31, 0x68581511, 0x64f98fa7, 0xbefa4fa4]"

definition sha224_init :: "u32 sha2_context \<Rightarrow> u32 sha2_context" where
  "sha224_init context = sha256_family_init sha224_init_digest 28 context"

section \<open>SHA-512\<close>

definition sha512_k :: "u64 list" where
  "sha512_k = concat
     [[0x428a2f98d728ae22, 0x7137449123ef65cd, 0xb5c0fbcfec4d3b2f],
      [0xe9b5dba58189dbbc, 0x3956c25bf348b538, 0x59f111f1b605d019],
      [0x923f82a4af194f9b, 0xab1c5ed5da6d8118, 0xd807aa98a3030242],
      [0x12835b0145706fbe, 0x243185be4ee4b28c, 0x550c7dc3d5ffb4e2],
      [0x72be5d74f27b896f, 0x80deb1fe3b1696b1, 0x9bdc06a725c71235],
      [0xc19bf174cf692694, 0xe49b69c19ef14ad2, 0xefbe4786384f25e3],
      [0x0fc19dc68b8cd5b5, 0x240ca1cc77ac9c65, 0x2de92c6f592b0275],
      [0x4a7484aa6ea6e483, 0x5cb0a9dcbd41fbd4, 0x76f988da831153b5],
      [0x983e5152ee66dfab, 0xa831c66d2db43210, 0xb00327c898fb213f],
      [0xbf597fc7beef0ee4, 0xc6e00bf33da88fc2, 0xd5a79147930aa725],
      [0x06ca6351e003826f, 0x142929670a0e6e70, 0x27b70a8546d22ffc],
      [0x2e1b21385c26c926, 0x4d2c6dfc5ac42aed, 0x53380d139d95b3df],
      [0x650a73548baf63de, 0x766a0abb3c77b2a8, 0x81c2c92e47edaee6],
      [0x92722c851482353b, 0xa2bfe8a14cf10364, 0xa81a664bbc423001],
      [0xc24b8b70d0f89791, 0xc76c51a30654be30, 0xd192e819d6ef5218],
      [0xd69906245565a910, 0xf40e35855771202a, 0x106aa07032bbd1b8],
      [0x19a4c116b8d2d0c8, 0x1e376c085141ab53, 0x2748774cdf8eeb99],
      [0x34b0bcb5e19b48a8, 0x391c0cb3c5c95a63, 0x4ed8aa4ae3418acb],
      [0x5b9cca4f7763e373, 0x682e6ff3d6b2b8a3, 0x748f82ee5defb2fc],
      [0x78a5636f43172f60, 0x84c87814a1f0ab72, 0x8cc702081a6439ec],
      [0x90befffa23631e28, 0xa4506cebde82bde9, 0xbef9a3f7b2c67915],
      [0xc67178f2e372532b, 0xca273eceea26619c, 0xd186b8c721c0c207],
      [0xeada7dd6cde0eb1e, 0xf57d4f7fee6ed178, 0x06f067aa72176fba],
      [0x0a637dc5a2c898a6, 0x113f9804bef90dae, 0x1b710b35131c471b],
      [0x28db77f523047d84, 0x32caab7b40c72493, 0x3c9ebe0a15c9bebc],
      [0x431d67c49c100d4c, 0x4cc5d4becb3e42b6, 0x597f299cfc657e2a],
      [0x5fcb6fab3ad6faec, 0x6c44198c4a475817]]"

text \<open>The message schedule, from its first sixteen words.\<close>

definition sha512_expand :: "u64 list \<Rightarrow> u64 list" where
  "sha512_expand w =
     fold (\<lambda>i w.
       let s0 = ror64 (w ! (i - 15)) 1 XOR ror64 (w ! (i - 15)) 8 XOR drop_bit 7 (w ! (i - 15));
           s1 = ror64 (w ! (i - 2)) 19 XOR ror64 (w ! (i - 2)) 61 XOR drop_bit 6 (w ! (i - 2))
       in w @ [w ! (i - 16) + s0 + w ! (i - 7) + s1]) [16..<80] w"

definition sha512_step :: "u64 list \<Rightarrow> nat \<Rightarrow> u64 sha2_variables \<Rightarrow> u64 sha2_variables" where
  "sha512_step w i v =
     (case v of (a, b, c, d, e, f, g, h) \<Rightarrow>
        let s0 = ror64 a 28 XOR ror64 a 34 XOR ror64 a 39;
            maj = (a AND b) XOR (a AND c) XOR (b AND c);
            t2 = s0 + maj;
            s1 = ror64 e 14 XOR ror64 e 18 XOR ror64 e 41;
            ch = (e AND f) XOR (NOT e AND g);
            t1 = h + s1 + ch + sha512_k ! i + w ! i
        in (t1 + t2, a, b, c, d + t1, e, f, g))"

definition sha512_digest :: "u64 sha2_context \<Rightarrow> u64 sha2_context" where
  "sha512_digest context =
     (let digest = map be64_to_cpu (ctx_h context);
          data = map be64_to_cpu (load_qwords (ctx_data context));
          w = sha512_expand data;
          v = fold (sha512_step w) [0..<80] (list_variables digest)
      in context\<lparr>ctx_h := map2 (\<lambda>x y. cpu_to_be64 (x + y)) digest (variables_list v),
                 ctx_data := concat (map bytes_u64 data)\<rparr>)"

definition sha512_family_init :: "u64 list \<Rightarrow> nat \<Rightarrow> u64 sha2_context \<Rightarrow> u64 sha2_context" where
  "sha512_family_init init dsize context = context\<lparr>ctx_len := 0, digestsize := dsize, ctx_h := init\<rparr>"

definition sha512_init_digest :: "u64 list" where
  "sha512_init_digest = map cpu_to_be64
     [0x6a09e667f3bcc908, 0xbb67ae8584caa73b, 0x3c6ef372fe94f82b, 0xa54ff53a5f1d36f1,
      0x510e527fade682d1, 0x9b05688c2b3e6c1f, 0x1f83d9abfb41bd6b, 0x5be0cd19137e2179]"

definition sha512_init :: "u64 sha2_context \<Rightarrow> u64 sha2_context" where
  "sha512_init context = sha512_family_init sha512_init_digest 64 context"

definition sha512_update :: "bytes \<Rightarrow> u64 sha2_context \<Rightarrow> u64 sha2_context" where
  "sha512_update data context = block_update sha512_digest 128 data context"

definition sha512_final :: "u64 sha2_context \<Rightarrow> (u64 sha2_context \<times> bytes) option" where
  "sha512_final context =
     (let len_bits_hi = 0;
          len_bits_lo = cpu_to_be64 (ctx_len context * 8)
      in case block_pad sha512_digest 128 112 0x80 context of
           None \<Rightarrow> None
         | Some context \<Rightarrow>
             let context = sha512_update (bytes_u64 len_bits_hi) context;
                 context = sha512_update (bytes_u64 len_bits_lo) context
             in Some (context, take (digestsize context) (concat (map bytes_u64 (ctx_h context)))))"

definition sha384_init_digest :: "u64 list" where
  "sha384_init_digest = map cpu_to_be64
     [0xcbbb9d5dc1059ed8, 0x629a292a367cd507, 0x9159015a3070dd17, 0x152fecd8f70e5939,
      0x67332667ffc00b31, 0x8eb44a8768581511, 0xdb0c2e0d64f98fa7, 0x47b5481dbefa4fa4]"

definition sha384_init :: "u64 sha2_context \<Rightarrow> u64 sha2_context" where
  "sha384_init context = sha512_family_init sha384_init_digest 48 context"

definition sha512_256_init_digest :: "u64 list" where
  "sha512_256_init_digest = map cpu_to_be64
     [0x22312194fc2bf72c, 0x9f555fa3c84c64c2, 0x2393b86b6f53b151, 0x963877195940eabd,
      0x96283ee2a88effe3, 0xbe5e1e2553863992, 0x2b0199fc2c85b8aa, 0x0eb72ddc81c52ca2]"

definition sha512_256_init :: "u64 sha2_context \<Rightarrow> u64 sha2_context" where
  "sha512_256_init context = sha512_family_init sha512_256_init_digest 32 context"

definition sha512_224_init_digest :: "u64 list" where
  "sha512_224_init_digest = map cpu_to_be64
     [0x8c3d37c819544da2, 0x73e1996689dcd4d6, 0x1dfab7ae32ff9c82, 0x679dd514582f9fcf,
      0x0f6d2b697bd44da8, 0x77e36f7304c48942, 0x3f9d85a86a1d36c8, 0x1112e6ad91d692a1]"

definition sha512_224_init :: "u64 sha2_context \<Rightarrow> u64 sha2_context" where
  "sha512_224_init context = sha512_family_init sha512_224_init_digest 28 context"

section \<open>Algorithms\<close>

definition sha256_algorithm :: "u32 sha2_context digest_algorithm" where
  "sha256_algorithm = \<lparr>da_blocksize = 64, da_digestsize = 32, da_init = sha256_init, da_update = sha256_update,
     da_final = sha256_final\<rparr>"

definition sha224_algorithm :: "u32 sha2_context digest_algorithm" where
  "sha224_algorithm = \<lparr>da_blocksize = 64, da_digestsize = 28, da_init = sha224_init, da_update = sha256_update,
     da_final = sha256_final\<rparr>"

definition sha512_algorithm :: "u64 sha2_context digest_algorithm" where
  "sha512_algorithm = \<lparr>da_blocksize = 128, da_digestsize = 64, da_init = sha512_init, da_update = sha512_update,
     da_final = sha512_final\<rparr>"

definition sha384_algorithm :: "u64 sha2_context digest_algorithm" where
  "sha384_algorithm = \<lparr>da_blocksize = 128, da_digestsize = 48, da_init = sha384_init, da_update = sha512_update,
     da_final = sha512_final\<rparr>"

definition sha512_256_algorithm :: "u64 sha2_context digest_algorithm" where
  "sha512_256_algorithm = \<lparr>da_blocksize = 128, da_digestsize = 32, da_init = sha512_256_init, da_update = sha512_update,
     da_final = sha512_final\<rparr>"

definition sha512_224_algorithm :: "u64 sha2_context digest_algorithm" where
  "sha512_224_algorithm = \<lparr>da_blocksize = 128, da_digestsize = 28, da_init = sha512_224_init, da_update = sha512_update,
     da_final = sha512_final\<rparr>"

section \<open>Specification\<close>

text \<open>FIPS 180-4, for either word size.\<close>

fun sha2_W :: "('a::len word \<Rightarrow> 'a word) \<Rightarrow> ('a word \<Rightarrow> 'a word) \<Rightarrow> (nat \<Rightarrow> 'a word) \<Rightarrow> nat \<Rightarrow> 'a word" where
  "sha2_W s0 s1 M t =
     (if t < 16 then M t
      else s1 (sha2_W s0 s1 M (t - 2)) + sha2_W s0 s1 M (t - 7) + s0 (sha2_W s0 s1 M (t - 15)) + sha2_W s0 s1 M (t - 16))"

declare sha2_W.simps [simp del]

definition Ch :: "'a::len word \<Rightarrow> 'a word \<Rightarrow> 'a word \<Rightarrow> 'a word" where
  "Ch x y z = (x AND y) XOR (NOT x AND z)"

definition Maj :: "'a::len word \<Rightarrow> 'a word \<Rightarrow> 'a word \<Rightarrow> 'a word" where
  "Maj x y z = (x AND y) XOR (x AND z) XOR (y AND z)"

fun sha2_round ::
  "('a::len word \<Rightarrow> 'a word) \<Rightarrow> ('a word \<Rightarrow> 'a word) \<Rightarrow> 'a word \<Rightarrow> 'a word \<Rightarrow> 'a word sha2_variables \<Rightarrow> 'a word sha2_variables" where
  "sha2_round S0 S1 k w (a, b, c, d, e, f, g, h) =
     (let T1 = h + S1 e + Ch e f g + k + w;
          T2 = S0 a + Maj a b c
      in (T1 + T2, a, b, c, d + T1, e, f, g))"

definition sha2_compress ::
  "('a::len word \<Rightarrow> 'a word) \<Rightarrow> ('a word \<Rightarrow> 'a word) \<Rightarrow> ('a word \<Rightarrow> 'a word) \<Rightarrow> ('a word \<Rightarrow> 'a word)
    \<Rightarrow> 'a word list \<Rightarrow> (nat \<Rightarrow> 'a word) \<Rightarrow> 'a word list \<Rightarrow> 'a word list" where
  "sha2_compress s0 s1 S0 S1 K M H =
     map2 (+) H (variables_list (fold (\<lambda>t. sha2_round S0 S1 (K ! t) (sha2_W s0 s1 M t)) [0..<length K] (list_variables H)))"

definition sha256_compress :: "u32 list \<Rightarrow> bytes \<Rightarrow> u32 list" where
  "sha256_compress H block = sha2_compress
     (\<lambda>x. word_rotr 7 x XOR word_rotr 18 x XOR drop_bit 3 x) (\<lambda>x. word_rotr 17 x XOR word_rotr 19 x XOR drop_bit 10 x)
     (\<lambda>x. word_rotr 2 x XOR word_rotr 13 x XOR word_rotr 22 x) (\<lambda>x. word_rotr 6 x XOR word_rotr 11 x XOR word_rotr 25 x)
     sha256_k (\<lambda>t. load_be32 (drop (4 * t) block)) H"

definition sha512_compress :: "u64 list \<Rightarrow> bytes \<Rightarrow> u64 list" where
  "sha512_compress H block = sha2_compress
     (\<lambda>x. word_rotr 1 x XOR word_rotr 8 x XOR drop_bit 7 x) (\<lambda>x. word_rotr 19 x XOR word_rotr 61 x XOR drop_bit 6 x)
     (\<lambda>x. word_rotr 28 x XOR word_rotr 34 x XOR word_rotr 39 x) (\<lambda>x. word_rotr 14 x XOR word_rotr 18 x XOR word_rotr 41 x)
     sha512_k (\<lambda>t. load_be64 (drop (8 * t) block)) H"

text \<open>The digest of a message: initial values, digest size and message.\<close>

definition sha256_spec :: "u32 list \<Rightarrow> nat \<Rightarrow> bytes \<Rightarrow> bytes" where
  "sha256_spec iv dsize msg = take dsize (concat (map (\<lambda>w. rev (bytes_u32 w)) (foldl sha256_compress iv
     (full_blocks 64 (padded 64 56 (rev (bytes_u64 (of_nat (8 * length msg)))) msg)))))"

definition sha512_spec :: "u64 list \<Rightarrow> nat \<Rightarrow> bytes \<Rightarrow> bytes" where
  "sha512_spec iv dsize msg = take dsize (concat (map (\<lambda>w. rev (bytes_u64 w)) (foldl sha512_compress iv
     (full_blocks 128 (padded 128 112 (replicate 8 0 @ rev (bytes_u64 (of_nat (8 * length msg)))) msg)))))"

section \<open>The block functions\<close>

lemma ror32_rotr:
  assumes "0 < r" and "r < 32"
  shows "ror32 x r = word_rotr r x"
proof (rule bit_word_eqI)
  fix n assume "n < LENGTH(32)"
  then have n: "n < 32" by simp
  show "bit (ror32 x r) n = bit (word_rotr r x) n"
  proof (cases "n + r < 32")
    case True
    then have "(n + r) mod 32 = r + n" "\<not> 32 - r \<le> n" using assms n by simp_all
    then show ?thesis unfolding ror32_def bit_word_rotr_iff using n by (simp add: bit_simps add.commute)
  next
    case False
    then have "n - (32 - r) = (n + r) mod 32" "32 - r \<le> n" using assms n by (simp_all add: le_mod_geq)
    moreover have "\<not> bit x (r + n)" using False by (auto dest: bit_imp_le_length)
    ultimately show ?thesis unfolding ror32_def bit_word_rotr_iff using n by (simp add: bit_simps)
  qed
qed

lemma ror64_rotr:
  assumes "0 < r" and "r < 64"
  shows "ror64 x r = word_rotr r x"
proof (rule bit_word_eqI)
  fix n assume "n < LENGTH(64)"
  then have n: "n < 64" by simp
  show "bit (ror64 x r) n = bit (word_rotr r x) n"
  proof (cases "n + r < 64")
    case True
    then have "(n + r) mod 64 = r + n" "\<not> 64 - r \<le> n" using assms n by simp_all
    then show ?thesis unfolding ror64_def bit_word_rotr_iff using n by (simp add: bit_simps add.commute)
  next
    case False
    then have "n - (64 - r) = (n + r) mod 64" "64 - r \<le> n" using assms n by (simp_all add: le_mod_geq)
    moreover have "\<not> bit x (r + n)" using False by (auto dest: bit_imp_le_length)
    ultimately show ?thesis unfolding ror64_def bit_word_rotr_iff using n by (simp add: bit_simps)
  qed
qed

text \<open>A schedule that is built by appending the next word.\<close>

lemma fold_append_schedule:
  assumes "\<And>i w. 16 \<le> i \<Longrightarrow> length w = i \<Longrightarrow> (\<And>j. j < i \<Longrightarrow> w ! j = W j) \<Longrightarrow> g i w = w @ [W i]" and "16 \<le> n"
  shows "fold g [16..<n] (map W [0..<16]) = map W [0..<n]"
  using assms(2)
proof (induction n rule: dec_induct)
  case (step n)
  then show ?case using assms(1) [of n "map W [0..<n]"] by simp
qed simp

lemma variables_list_list: "length h = 8 \<Longrightarrow> variables_list (list_variables h) = h"
  by (auto simp: list_variables_def intro!: nth_equalityI simp: less_Suc_eq numeral_eq_Suc)

lemma sha256_expand_schedule:
  assumes "length b = 64"
  shows "sha256_expand (map be32_to_cpu (load_dwords b)) = map (sha2_W (\<lambda>x. word_rotr 7 x XOR word_rotr 18 x XOR drop_bit 3 x)
    (\<lambda>x. word_rotr 17 x XOR word_rotr 19 x XOR drop_bit 10 x) (\<lambda>t. load_be32 (drop (4 * t) b))) [0..<64]"
proof -
  let ?W = "sha2_W (\<lambda>x. word_rotr 7 x XOR word_rotr 18 x XOR drop_bit 3 x)
    (\<lambda>x. word_rotr 17 x XOR word_rotr 19 x XOR drop_bit 10 x) (\<lambda>t. load_be32 (drop (4 * t) b))"
  have "map be32_to_cpu (load_dwords b) = map ?W [0..<16]"
    using assms by (simp add: load_dwords_def be32_to_cpu_def bswap_load_u32 sha2_W.simps)
  then show ?thesis
    unfolding sha256_expand_def
    by (simp only:) (intro fold_append_schedule, simp_all add: ror32_rotr sha2_W.simps [of _ _ _ "_ :: nat"] ac_simps)
qed

lemma sha512_expand_schedule:
  assumes "length b = 128"
  shows "sha512_expand (map be64_to_cpu (load_qwords b)) = map (sha2_W (\<lambda>x. word_rotr 1 x XOR word_rotr 8 x XOR drop_bit 7 x)
    (\<lambda>x. word_rotr 19 x XOR word_rotr 61 x XOR drop_bit 6 x) (\<lambda>t. load_be64 (drop (8 * t) b))) [0..<80]"
proof -
  let ?W = "sha2_W (\<lambda>x. word_rotr 1 x XOR word_rotr 8 x XOR drop_bit 7 x)
    (\<lambda>x. word_rotr 19 x XOR word_rotr 61 x XOR drop_bit 6 x) (\<lambda>t. load_be64 (drop (8 * t) b))"
  have "map be64_to_cpu (load_qwords b) = map ?W [0..<16]"
    using assms by (simp add: load_qwords_def be64_to_cpu_def bswap_load_qword sha2_W.simps)
  then show ?thesis
    unfolding sha512_expand_def
    by (simp only:) (intro fold_append_schedule, simp_all add: ror64_rotr sha2_W.simps [of _ _ _ "_ :: nat"] ac_simps)
qed

lemma sha256_digest_h:
  assumes "length (ctx_data c) = 64"
  shows "ctx_h (sha256_digest c) = map bswap_32 (sha256_compress (map bswap_32 (ctx_h c)) (ctx_data c))"
proof -
  let ?W = "sha2_W (\<lambda>x. word_rotr 7 x XOR word_rotr 18 x XOR drop_bit 3 x)
    (\<lambda>x. word_rotr 17 x XOR word_rotr 19 x XOR drop_bit 10 x) (\<lambda>t. load_be32 (drop (4 * t) (ctx_data c)))"
  have "sha256_step (map ?W [0..<64]) t v = sha2_round (\<lambda>x. word_rotr 2 x XOR word_rotr 13 x XOR word_rotr 22 x)
      (\<lambda>x. word_rotr 6 x XOR word_rotr 11 x XOR word_rotr 25 x) (sha256_k ! t) (?W t) v" if "t < 64" for t v
    using that by (cases v rule: variables_list.cases) (simp add: sha256_step_def ror32_rotr Ch_def Maj_def Let_def)
  then have "fold (sha256_step (map ?W [0..<64])) [0..<64] v = fold (\<lambda>t. sha2_round (\<lambda>x. word_rotr 2 x XOR word_rotr 13 x XOR word_rotr 22 x)
      (\<lambda>x. word_rotr 6 x XOR word_rotr 11 x XOR word_rotr 25 x) (sha256_k ! t) (?W t)) [0..<64] v" for v
    by (intro fold_cong refl) auto
  moreover have "length sha256_k = 64" by (simp add: sha256_k_def)
  ultimately show ?thesis
    unfolding sha256_digest_def Let_def sha256_expand_schedule [OF assms] sha256_compress_def sha2_compress_def
    by (simp add: be32_to_cpu_def cpu_to_be32_def comp_def case_prod_unfold zip_map1)
qed

lemma sha512_digest_h:
  assumes "length (ctx_data c) = 128"
  shows "ctx_h (sha512_digest c) = map bswap_64 (sha512_compress (map bswap_64 (ctx_h c)) (ctx_data c))"
proof -
  let ?W = "sha2_W (\<lambda>x. word_rotr 1 x XOR word_rotr 8 x XOR drop_bit 7 x)
    (\<lambda>x. word_rotr 19 x XOR word_rotr 61 x XOR drop_bit 6 x) (\<lambda>t. load_be64 (drop (8 * t) (ctx_data c)))"
  have "sha512_step (map ?W [0..<80]) t v = sha2_round (\<lambda>x. word_rotr 28 x XOR word_rotr 34 x XOR word_rotr 39 x)
      (\<lambda>x. word_rotr 14 x XOR word_rotr 18 x XOR word_rotr 41 x) (sha512_k ! t) (?W t) v" if "t < 80" for t v
    using that by (cases v rule: variables_list.cases) (simp add: sha512_step_def ror64_rotr Ch_def Maj_def Let_def)
  then have "fold (sha512_step (map ?W [0..<80])) [0..<80] v = fold (\<lambda>t. sha2_round (\<lambda>x. word_rotr 28 x XOR word_rotr 34 x XOR word_rotr 39 x)
      (\<lambda>x. word_rotr 14 x XOR word_rotr 18 x XOR word_rotr 41 x) (sha512_k ! t) (?W t)) [0..<80] v" for v
    by (intro fold_cong refl) auto
  moreover have "length sha512_k = 80" by (simp add: sha512_k_def)
  ultimately show ?thesis
    unfolding sha512_digest_def Let_def sha512_expand_schedule [OF assms] sha512_compress_def sha2_compress_def
    by (simp add: be64_to_cpu_def cpu_to_be64_def comp_def case_prod_unfold zip_map1)
qed

interpretation sha256: block_digest sha256_digest 64 "\<lambda>h b. map bswap_32 (sha256_compress (map bswap_32 h) b)"
proof
  show "length (ctx_data (sha256_digest c)) = 64" if "length (ctx_data c) = 64" for c
    using that by (simp add: sha256_digest_def Let_def length_concat_words load_dwords_def del: map_map)
  show "ctx_h (sha256_digest c) = map bswap_32 (sha256_compress (map bswap_32 (ctx_h c)) (ctx_data c))"
    if "length (ctx_data c) = 64" for c by (rule sha256_digest_h [OF that])
qed (simp_all add: sha256_digest_def Let_def)

interpretation sha512: block_digest sha512_digest 128 "\<lambda>h b. map bswap_64 (sha512_compress (map bswap_64 h) b)"
proof
  show "length (ctx_data (sha512_digest c)) = 128" if "length (ctx_data c) = 128" for c
    using that by (simp add: sha512_digest_def Let_def length_concat_words load_qwords_def del: map_map)
  show "ctx_h (sha512_digest c) = map bswap_64 (sha512_compress (map bswap_64 (ctx_h c)) (ctx_data c))"
    if "length (ctx_data c) = 128" for c by (rule sha512_digest_h [OF that])
qed (simp_all add: sha512_digest_def Let_def)

section \<open>Streaming\<close>

text \<open>The digest in memory against the digest of the specification.\<close>

lemma digestsize_more: "digest_context.more c = digest_context.more c' \<Longrightarrow> digestsize c = digestsize c'"
  by (cases c; cases c') simp

lemma bytes_u64_zero: "bytes_u64 0 = replicate 8 0"
  by (simp add: bytes_u64_def map_replicate_trivial map_replicate_const)

lemma sha256_final_absorbed:
  assumes "sha256.absorbed iv ext msg c"
  shows "\<exists>c'. sha256_final c = Some (c', sha256_spec (map bswap_32 iv) (digestsize c) msg) \<and> length (ctx_data c') = 64"
proof -
  let ?field = "rev (bytes_u64 (of_nat (8 * length msg)))"
  obtain c1 c2 where c: "block_pad sha256_digest 64 56 0x80 c = Some c1" "c2 = block_update sha256_digest 64 ?field c1"
    "ctx_h c2 = foldl (\<lambda>h b. map bswap_32 (sha256_compress (map bswap_32 h) b)) iv (full_blocks 64 (padded 64 56 ?field msg))"
    "length (ctx_data c2) = 64" "digest_context.more c2 = ext"
    using sha256.absorbed_final [OF assms, of 56 ?field] by auto
  have "digestsize c2 = digestsize c" using c(5) assms by (intro digestsize_more) (simp add: sha256.absorbed_def)
  moreover have "ctx_h c2 = map bswap_32 (foldl sha256_compress (map bswap_32 iv) (full_blocks 64 (padded 64 56 ?field msg)))"
    unfolding c(3) foldl_swapped [OF bswap_32_twice, symmetric] by (simp add: comp_def bswap_32_twice)
  moreover have "ctx_len c = of_nat (length msg)" using assms by (simp add: sha256.absorbed_def)
  ultimately show ?thesis
    using c(1,2,4)
    by (simp add: sha256_final_def sha256_update_def cpu_to_be64_def bytes_bswap_64 sha256_spec_def comp_def bytes_bswap_32 mult.commute)
qed

lemma sha512_final_absorbed:
  assumes "sha512.absorbed iv ext msg c"
  shows "\<exists>c'. sha512_final c = Some (c', sha512_spec (map bswap_64 iv) (digestsize c) msg) \<and> length (ctx_data c') = 128"
proof -
  let ?field = "replicate 8 0 @ rev (bytes_u64 (of_nat (8 * length msg)))"
  obtain c1 c2 where c: "block_pad sha512_digest 128 112 0x80 c = Some c1" "c2 = block_update sha512_digest 128 ?field c1"
    "ctx_h c2 = foldl (\<lambda>h b. map bswap_64 (sha512_compress (map bswap_64 h) b)) iv (full_blocks 128 (padded 128 112 ?field msg))"
    "length (ctx_data c2) = 128" "digest_context.more c2 = ext"
    using sha512.absorbed_final [OF assms, of 112 ?field] by auto
  have "digestsize c2 = digestsize c" using c(5) assms by (intro digestsize_more) (simp add: sha512.absorbed_def)
  moreover have "ctx_h c2 = map bswap_64 (foldl sha512_compress (map bswap_64 iv) (full_blocks 128 (padded 128 112 ?field msg)))"
    unfolding c(3) foldl_swapped [OF bswap_64_twice, symmetric] by (simp add: comp_def bswap_64_twice)
  moreover have "ctx_len c = of_nat (length msg)" using assms by (simp add: sha512.absorbed_def)
  ultimately show ?thesis
    using c(1,2,4)
    by (simp add: sha512_final_def sha512_update_def cpu_to_be64_def bytes_bswap_64 sha512_spec_def comp_def bytes_bswap_64 mult.commute
        sha512.block_update_append bytes_u64_zero)
qed

lemma sha256_update_absorbed:
  assumes "sha256.absorbed iv ext msg c"
  shows "sha256.absorbed iv ext (msg @ data) (sha256_update data c) \<and> digestsize (sha256_update data c) = digestsize c"
  using sha256.absorbed_update [OF assms, of data] assms digestsize_more [of "sha256_update data c" c]
  by (simp add: sha256_update_def sha256.absorbed_def)

lemma sha256_compress_length: "length H = 8 \<Longrightarrow> length (sha256_compress H b) = 8"
proof -
  have "length (variables_list v) = 8" for v :: "u32 sha2_variables" by (cases v rule: variables_list.cases) simp
  then show "length H = 8 \<Longrightarrow> length (sha256_compress H b) = 8" by (simp add: sha256_compress_def sha2_compress_def)
qed

lemma sha256_spec_length:
  assumes "length iv = 8" and "dsize \<le> 32"
  shows "length (sha256_spec iv dsize msg) = dsize"
proof -
  have "length (foldl sha256_compress iv bs) = 8" for bs
    using assms(1) by (induction bs arbitrary: iv) (simp_all add: sha256_compress_length)
  moreover have "length (concat (map (\<lambda>w. rev (bytes_u32 w)) ws)) = 4 * length ws" for ws by (induction ws) simp_all
  ultimately show ?thesis using assms(2) by (simp add: sha256_spec_def)
qed

lemma sha512_update_absorbed:
  assumes "sha512.absorbed iv ext msg c"
  shows "sha512.absorbed iv ext (msg @ data) (sha512_update data c) \<and> digestsize (sha512_update data c) = digestsize c"
  using sha512.absorbed_update [OF assms, of data] assms digestsize_more [of "sha512_update data c" c]
  by (simp add: sha512_update_def sha512.absorbed_def)

lemma sha512_compress_length: "length H = 8 \<Longrightarrow> length (sha512_compress H b) = 8"
proof -
  have "length (variables_list v) = 8" for v :: "u64 sha2_variables" by (cases v rule: variables_list.cases) simp
  then show "length H = 8 \<Longrightarrow> length (sha512_compress H b) = 8" by (simp add: sha512_compress_def sha2_compress_def)
qed

lemma sha512_spec_length:
  assumes "length iv = 8" and "dsize \<le> 64"
  shows "length (sha512_spec iv dsize msg) = dsize"
proof -
  have "length (foldl sha512_compress iv bs) = 8" for bs
    using assms(1) by (induction bs arbitrary: iv) (simp_all add: sha512_compress_length)
  moreover have "length (concat (map (\<lambda>w. rev (bytes_u64 w)) ws)) = 8 * length ws" for ws by (induction ws) simp_all
  ultimately show ?thesis using assms(2) by (simp add: sha512_spec_def)
qed

lemma sha256_family_hash:
  assumes alg: "alg = \<lparr>da_blocksize = 64, da_digestsize = dsize, da_init = init, da_update = sha256_update, da_final = sha256_final\<rparr>"
    and init: "\<And>c. init c = sha256_family_init iv dsize c" and "length iv = 8" and "dsize \<le> 32" and "0 < dsize"
  shows "hash_algorithm alg (\<lambda>c. length (ctx_data c) = 64)
    (\<lambda>msg c. digestsize c = dsize \<and> (\<exists>ext. sha256.absorbed iv ext msg c)) (sha256_spec (map bswap_32 iv) dsize)"
proof
  show "\<exists>c'. da_final alg c = Some (c', sha256_spec (map bswap_32 iv) dsize msg) \<and> length (ctx_data c') = 64"
    if "digestsize c = dsize \<and> (\<exists>ext. sha256.absorbed iv ext msg c)" for msg c
    using that sha256_final_absorbed by (fastforce simp: alg)
  show "length (sha256_spec (map bswap_32 iv) dsize msg) = da_digestsize alg" for msg
    using assms(3,4) by (simp add: sha256_spec_length alg)
  show "digestsize (da_update alg data c) = dsize \<and> (\<exists>ext. sha256.absorbed iv ext (msg @ data) (da_update alg data c))"
    if "digestsize c = dsize \<and> (\<exists>ext. sha256.absorbed iv ext msg c)" for msg data c
    using that sha256_update_absorbed [of iv _ msg c data] by (auto simp: alg)
  show "digestsize (da_init alg c) = dsize \<and> (\<exists>ext. sha256.absorbed iv ext [] (da_init alg c))"
    if "length (ctx_data c) = 64" for c
    using that by (auto simp: alg init sha256_family_init_def sha256.absorbed_def full_blocks_def)
qed (use assms(4,5) in \<open>simp_all add: alg\<close>)

lemma sha512_family_hash:
  assumes alg: "alg = \<lparr>da_blocksize = 128, da_digestsize = dsize, da_init = init, da_update = sha512_update, da_final = sha512_final\<rparr>"
    and init: "\<And>c. init c = sha512_family_init iv dsize c" and "length iv = 8" and "dsize \<le> 64" and "0 < dsize"
  shows "hash_algorithm alg (\<lambda>c. length (ctx_data c) = 128)
    (\<lambda>msg c. digestsize c = dsize \<and> (\<exists>ext. sha512.absorbed iv ext msg c)) (sha512_spec (map bswap_64 iv) dsize)"
proof
  show "\<exists>c'. da_final alg c = Some (c', sha512_spec (map bswap_64 iv) dsize msg) \<and> length (ctx_data c') = 128"
    if "digestsize c = dsize \<and> (\<exists>ext. sha512.absorbed iv ext msg c)" for msg c
    using that sha512_final_absorbed by (fastforce simp: alg)
  show "length (sha512_spec (map bswap_64 iv) dsize msg) = da_digestsize alg" for msg
    using assms(3,4) by (simp add: sha512_spec_length alg)
  show "digestsize (da_update alg data c) = dsize \<and> (\<exists>ext. sha512.absorbed iv ext (msg @ data) (da_update alg data c))"
    if "digestsize c = dsize \<and> (\<exists>ext. sha512.absorbed iv ext msg c)" for msg data c
    using that sha512_update_absorbed [of iv _ msg c data] by (auto simp: alg)
  show "digestsize (da_init alg c) = dsize \<and> (\<exists>ext. sha512.absorbed iv ext [] (da_init alg c))"
    if "length (ctx_data c) = 128" for c
    using that by (auto simp: alg init sha512_family_init_def sha512.absorbed_def full_blocks_def)
qed (use assms(4,5) in \<open>simp_all add: alg\<close>)

interpretation sha256a: hash_algorithm sha256_algorithm "\<lambda>c. length (ctx_data c) = 64"
  "\<lambda>msg c. digestsize c = 32 \<and> (\<exists>ext. sha256.absorbed sha256_init_digest ext msg c)" "sha256_spec (map bswap_32 sha256_init_digest) 32"
  by (rule sha256_family_hash [OF sha256_algorithm_def sha256_init_def]) (simp_all add: sha256_init_digest_def)

interpretation sha224a: hash_algorithm sha224_algorithm "\<lambda>c. length (ctx_data c) = 64"
  "\<lambda>msg c. digestsize c = 28 \<and> (\<exists>ext. sha256.absorbed sha224_init_digest ext msg c)" "sha256_spec (map bswap_32 sha224_init_digest) 28"
  by (rule sha256_family_hash [OF sha224_algorithm_def sha224_init_def]) (simp_all add: sha224_init_digest_def)

interpretation sha512a: hash_algorithm sha512_algorithm "\<lambda>c. length (ctx_data c) = 128"
  "\<lambda>msg c. digestsize c = 64 \<and> (\<exists>ext. sha512.absorbed sha512_init_digest ext msg c)" "sha512_spec (map bswap_64 sha512_init_digest) 64"
  by (rule sha512_family_hash [OF sha512_algorithm_def sha512_init_def]) (simp_all add: sha512_init_digest_def)

interpretation sha384a: hash_algorithm sha384_algorithm "\<lambda>c. length (ctx_data c) = 128"
  "\<lambda>msg c. digestsize c = 48 \<and> (\<exists>ext. sha512.absorbed sha384_init_digest ext msg c)" "sha512_spec (map bswap_64 sha384_init_digest) 48"
  by (rule sha512_family_hash [OF sha384_algorithm_def sha384_init_def]) (simp_all add: sha384_init_digest_def)

interpretation sha512_256a: hash_algorithm sha512_256_algorithm "\<lambda>c. length (ctx_data c) = 128"
  "\<lambda>msg c. digestsize c = 32 \<and> (\<exists>ext. sha512.absorbed sha512_256_init_digest ext msg c)" "sha512_spec (map bswap_64 sha512_256_init_digest) 32"
  by (rule sha512_family_hash [OF sha512_256_algorithm_def sha512_256_init_def]) (simp_all add: sha512_256_init_digest_def)

interpretation sha512_224a: hash_algorithm sha512_224_algorithm "\<lambda>c. length (ctx_data c) = 128"
  "\<lambda>msg c. digestsize c = 28 \<and> (\<exists>ext. sha512.absorbed sha512_224_init_digest ext msg c)" "sha512_spec (map bswap_64 sha512_224_init_digest) 28"
  by (rule sha512_family_hash [OF sha512_224_algorithm_def sha512_224_init_def]) (simp_all add: sha512_224_init_digest_def)

text \<open>The initial values as the standard gives them.\<close>

lemma sha2_initial_values:
  "map bswap_32 sha256_init_digest = [0x6a09e667, 0xbb67ae85, 0x3c6ef372, 0xa54ff53a, 0x510e527f, 0x9b05688c, 0x1f83d9ab, 0x5be0cd19]"
  "map bswap_32 sha224_init_digest = [0xc1059ed8, 0x367cd507, 0x3070dd17, 0xf70e5939, 0xffc00b31, 0x68581511, 0x64f98fa7, 0xbefa4fa4]"
  "map bswap_64 sha512_init_digest = [0x6a09e667f3bcc908, 0xbb67ae8584caa73b, 0x3c6ef372fe94f82b, 0xa54ff53a5f1d36f1,
     0x510e527fade682d1, 0x9b05688c2b3e6c1f, 0x1f83d9abfb41bd6b, 0x5be0cd19137e2179]"
  "map bswap_64 sha384_init_digest = [0xcbbb9d5dc1059ed8, 0x629a292a367cd507, 0x9159015a3070dd17, 0x152fecd8f70e5939,
     0x67332667ffc00b31, 0x8eb44a8768581511, 0xdb0c2e0d64f98fa7, 0x47b5481dbefa4fa4]"
  by (simp_all add: sha256_init_digest_def sha224_init_digest_def sha512_init_digest_def sha384_init_digest_def
      cpu_to_be32_def cpu_to_be64_def bswap_32_twice bswap_64_twice)

lemmas sha2_algorithms = sha256_algorithm_def sha224_algorithm_def sha512_algorithm_def sha384_algorithm_def

section \<open>Properties\<close>



end
