(* ===== verification/MdSha1.thy ===== *)
theory MdSha1
  imports Digest
begin

text \<open>
  MD4, MD5 and SHA-1 (crypto/md4.c, crypto/md5.c, crypto/sha1.c). The specifications are those of
  RFC 1320, RFC 1321 and FIPS 180-4, which write the functions of the rounds differently.
\<close>

section \<open>Common parts\<close>

type_synonym md_context = "u32 digest_context"

definition rol32 :: "u32 \<Rightarrow> nat \<Rightarrow> u32" where
  "rol32 data rotation = push_bit rotation data OR drop_bit (32 - rotation) data"

type_synonym md_variables = "u32 \<times> u32 \<times> u32 \<times> u32"

section \<open>MD4\<close>

definition md4_r :: "nat list list" where
  "md4_r = [[3, 7, 11, 19], [3, 5, 9, 13], [3, 9, 11, 15]]"

definition md4_f_0_15 :: "u32 list \<Rightarrow> md_variables \<Rightarrow> nat \<Rightarrow> u32" where
  "md4_f_0_15 w v i = (case v of (a, b, c, d) \<Rightarrow> ((b AND c) OR (NOT b AND d)) + w ! i)"

definition md4_f_16_31 :: "u32 list \<Rightarrow> md_variables \<Rightarrow> nat \<Rightarrow> u32" where
  "md4_f_16_31 w v i = (case v of (a, b, c, d) \<Rightarrow>
     ((b AND c) OR (b AND d) OR (c AND d)) + w ! ((push_bit 2 i OR drop_bit 2 i) mod 16))"

definition md4_reverse :: "nat list" where
  "md4_reverse = [0, 8, 4, 12, 2, 10, 6, 14, 1, 9, 5, 13, 3, 11, 7, 15]"

definition md4_f_32_47 :: "u32 list \<Rightarrow> md_variables \<Rightarrow> nat \<Rightarrow> u32" where
  "md4_f_32_47 w v i = (case v of (a, b, c, d) \<Rightarrow> (b XOR c XOR d) + w ! (md4_reverse ! i))"

definition md4_steps :: "((u32 list \<Rightarrow> md_variables \<Rightarrow> nat \<Rightarrow> u32) \<times> u32) list" where
  "md4_steps = [(md4_f_0_15, 0x00000000), (md4_f_16_31, 0x5a827999), (md4_f_32_47, 0x6ed9eba1)]"

definition md4_step :: "u32 list \<Rightarrow> nat \<Rightarrow> md_variables \<Rightarrow> md_variables" where
  "md4_step w i v =
     (case md4_steps ! (i div 16) of (step_f, constant) \<Rightarrow>
        case v of (a, b, c, d) \<Rightarrow>
          let f = step_f w v (i mod 16)
          in (d, rol32 (a + f + constant) (md4_r ! (i div 16) ! (i mod 4)), b, c))"

definition md4_digest :: "md_context \<Rightarrow> md_context" where
  "md4_digest context =
     (let digest = map le32_to_cpu (ctx_h context);
          data = map le32_to_cpu (load_dwords (ctx_data context))
      in case fold (md4_step data) [0..<48] (digest ! 0, digest ! 1, digest ! 2, digest ! 3) of (a, b, c, d) \<Rightarrow>
           context\<lparr>ctx_h := map2 (\<lambda>x y. cpu_to_le32 (x + y)) digest [a, b, c, d],
                   ctx_data := concat (map bytes_u32 data)\<rparr>)"

definition md4_init :: "md_context \<Rightarrow> md_context" where
  "md4_init context = context\<lparr>
     ctx_h := [cpu_to_le32 0x67452301, cpu_to_le32 0xefcdab89, cpu_to_le32 0x98badcfe, cpu_to_le32 0x10325476],
     ctx_len := 0\<rparr>"

definition md4_update :: "bytes \<Rightarrow> md_context \<Rightarrow> md_context" where
  "md4_update data context = block_update md4_digest 64 data context"

definition md4_final :: "md_context \<Rightarrow> (md_context \<times> bytes) option" where
  "md4_final context =
     (let len_bits = cpu_to_le64 (ctx_len context * 8)
      in case block_pad md4_digest 64 56 0x80 context of
           None \<Rightarrow> None
         | Some context \<Rightarrow>
             let context = md4_update (bytes_u64 len_bits) context
             in Some (context, concat (map bytes_u32 (ctx_h context))))"

definition md4_algorithm :: "md_context digest_algorithm" where
  "md4_algorithm = \<lparr>da_blocksize = 64, da_digestsize = 16, da_init = md4_init, da_update = md4_update, da_final = md4_final\<rparr>"

section \<open>MD5\<close>

definition md5_k :: "u32 list" where
  "md5_k =
     [0xd76aa478, 0xe8c7b756, 0x242070db, 0xc1bdceee, 0xf57c0faf, 0x4787c62a,
      0xa8304613, 0xfd469501, 0x698098d8, 0x8b44f7af, 0xffff5bb1, 0x895cd7be,
      0x6b901122, 0xfd987193, 0xa679438e, 0x49b40821, 0xf61e2562, 0xc040b340,
      0x265e5a51, 0xe9b6c7aa, 0xd62f105d, 0x02441453, 0xd8a1e681, 0xe7d3fbc8,
      0x21e1cde6, 0xc33707d6, 0xf4d50d87, 0x455a14ed, 0xa9e3e905, 0xfcefa3f8,
      0x676f02d9, 0x8d2a4c8a, 0xfffa3942, 0x8771f681, 0x6d9d6122, 0xfde5380c,
      0xa4beea44, 0x4bdecfa9, 0xf6bb4b60, 0xbebfbc70, 0x289b7ec6, 0xeaa127fa,
      0xd4ef3085, 0x04881d05, 0xd9d4d039, 0xe6db99e5, 0x1fa27cf8, 0xc4ac5665,
      0xf4292244, 0x432aff97, 0xab9423a7, 0xfc93a039, 0x655b59c3, 0x8f0ccc92,
      0xffeff47d, 0x85845dd1, 0x6fa87e4f, 0xfe2ce6e0, 0xa3014314, 0x4e0811a1,
      0xf7537e82, 0xbd3af235, 0x2ad7d2bb, 0xeb86d391]"

definition md5_r :: "nat list list" where
  "md5_r = [[7, 12, 17, 22], [5, 9, 14, 20], [4, 11, 16, 23], [6, 10, 15, 21]]"

definition md5_f_0_15 :: "md_variables \<Rightarrow> u32" where
  "md5_f_0_15 v = (case v of (a, b, c, d) \<Rightarrow> d XOR (b AND (c XOR d)))"

definition md5_f_16_31 :: "md_variables \<Rightarrow> u32" where
  "md5_f_16_31 v = (case v of (a, b, c, d) \<Rightarrow> c XOR (d AND (b XOR c)))"

definition md5_f_32_47 :: "md_variables \<Rightarrow> u32" where
  "md5_f_32_47 v = (case v of (a, b, c, d) \<Rightarrow> b XOR c XOR d)"

definition md5_f_48_63 :: "md_variables \<Rightarrow> u32" where
  "md5_f_48_63 v = (case v of (a, b, c, d) \<Rightarrow> c XOR (b OR NOT d))"

definition md5_steps :: "((md_variables \<Rightarrow> u32) \<times> nat \<times> nat) list" where
  "md5_steps = [(md5_f_0_15, 1, 0), (md5_f_16_31, 5, 1), (md5_f_32_47, 3, 5), (md5_f_48_63, 7, 0)]"

definition md5_step :: "u32 list \<Rightarrow> nat \<Rightarrow> md_variables \<Rightarrow> md_variables" where
  "md5_step w i v =
     (case md5_steps ! (i div 16) of (step_f, coefficient, constant) \<Rightarrow>
        case v of (a, b, c, d) \<Rightarrow>
          let f = step_f v;
              g = (coefficient * i + constant) mod 16
          in (d, b + rol32 (a + f + md5_k ! i + w ! g) (md5_r ! (i div 16) ! (i mod 4)), b, c))"

definition md5_digest :: "md_context \<Rightarrow> md_context" where
  "md5_digest context =
     (let digest = map le32_to_cpu (ctx_h context);
          data = map le32_to_cpu (load_dwords (ctx_data context))
      in case fold (md5_step data) [0..<64] (digest ! 0, digest ! 1, digest ! 2, digest ! 3) of (a, b, c, d) \<Rightarrow>
           context\<lparr>ctx_h := map2 (\<lambda>x y. cpu_to_le32 (x + y)) digest [a, b, c, d],
                   ctx_data := concat (map bytes_u32 data)\<rparr>)"

definition md5_init :: "md_context \<Rightarrow> md_context" where
  "md5_init context = context\<lparr>
     ctx_h := [cpu_to_le32 0x67452301, cpu_to_le32 0xefcdab89, cpu_to_le32 0x98badcfe, cpu_to_le32 0x10325476],
     ctx_len := 0\<rparr>"

definition md5_update :: "bytes \<Rightarrow> md_context \<Rightarrow> md_context" where
  "md5_update data context = block_update md5_digest 64 data context"

definition md5_final :: "md_context \<Rightarrow> (md_context \<times> bytes) option" where
  "md5_final context =
     (let len_bits = cpu_to_le64 (ctx_len context * 8)
      in case block_pad md5_digest 64 56 0x80 context of
           None \<Rightarrow> None
         | Some context \<Rightarrow>
             let context = md5_update (bytes_u64 len_bits) context
             in Some (context, concat (map bytes_u32 (ctx_h context))))"

definition md5_algorithm :: "md_context digest_algorithm" where
  "md5_algorithm = \<lparr>da_blocksize = 64, da_digestsize = 16, da_init = md5_init, da_update = md5_update, da_final = md5_final\<rparr>"

section \<open>SHA-1\<close>

type_synonym sha1_variables = "u32 \<times> u32 \<times> u32 \<times> u32 \<times> u32"

definition sha1_f_0_19 :: "sha1_variables \<Rightarrow> u32" where
  "sha1_f_0_19 v = (case v of (a, b, c, d, e) \<Rightarrow> (b AND c) OR (NOT b AND d))"

definition sha1_f_20_39_60_79 :: "sha1_variables \<Rightarrow> u32" where
  "sha1_f_20_39_60_79 v = (case v of (a, b, c, d, e) \<Rightarrow> b XOR c XOR d)"

definition sha1_f_40_59 :: "sha1_variables \<Rightarrow> u32" where
  "sha1_f_40_59 v = (case v of (a, b, c, d, e) \<Rightarrow> (b AND c) OR (b AND d) OR (c AND d))"

definition sha1_steps :: "((sha1_variables \<Rightarrow> u32) \<times> u32) list" where
  "sha1_steps = [(sha1_f_0_19, 0x5a827999), (sha1_f_20_39_60_79, 0x6ed9eba1), (sha1_f_40_59, 0x8f1bbcdc), (sha1_f_20_39_60_79, 0xca62c1d6)]"

definition sha1_expand :: "u32 list \<Rightarrow> u32 list" where
  "sha1_expand w = fold (\<lambda>i w. w @ [rol32 (w ! (i - 3) XOR w ! (i - 8) XOR w ! (i - 14) XOR w ! (i - 16)) 1]) [16..<80] w"

definition sha1_step :: "u32 list \<Rightarrow> nat \<Rightarrow> sha1_variables \<Rightarrow> sha1_variables" where
  "sha1_step w i v =
     (case sha1_steps ! (i div 20) of (step_f, k) \<Rightarrow>
        case v of (a, b, c, d, e) \<Rightarrow>
          let f = step_f v;
              temp = rol32 a 5 + f + e + k + w ! i
          in (temp, a, rol32 b 30, c, d))"

definition sha1_digest :: "md_context \<Rightarrow> md_context" where
  "sha1_digest context =
     (let digest = map be32_to_cpu (ctx_h context);
          data = map be32_to_cpu (load_dwords (ctx_data context));
          w = sha1_expand data
      in case fold (sha1_step w) [0..<80] (digest ! 0, digest ! 1, digest ! 2, digest ! 3, digest ! 4) of (a, b, c, d, e) \<Rightarrow>
           context\<lparr>ctx_h := map2 (\<lambda>x y. cpu_to_be32 (x + y)) digest [a, b, c, d, e],
                   ctx_data := concat (map bytes_u32 data)\<rparr>)"

definition sha1_init :: "md_context \<Rightarrow> md_context" where
  "sha1_init context = context\<lparr>
     ctx_h := [cpu_to_be32 0x67452301, cpu_to_be32 0xefcdab89, cpu_to_be32 0x98badcfe, cpu_to_be32 0x10325476, cpu_to_be32 0xc3d2e1f0],
     ctx_len := 0\<rparr>"

definition sha1_update :: "bytes \<Rightarrow> md_context \<Rightarrow> md_context" where
  "sha1_update data context = block_update sha1_digest 64 data context"

definition sha1_final :: "md_context \<Rightarrow> (md_context \<times> bytes) option" where
  "sha1_final context =
     (let len_bits = cpu_to_be64 (ctx_len context * 8)
      in case block_pad sha1_digest 64 56 0x80 context of
           None \<Rightarrow> None
         | Some context \<Rightarrow>
             let context = sha1_update (bytes_u64 len_bits) context
             in Some (context, concat (map bytes_u32 (ctx_h context))))"

definition sha1_algorithm :: "md_context digest_algorithm" where
  "sha1_algorithm = \<lparr>da_blocksize = 64, da_digestsize = 20, da_init = sha1_init, da_update = sha1_update, da_final = sha1_final\<rparr>"

section \<open>Specification\<close>

text \<open>RFC 1320: the function, the constant, the word and the shift of each operation.\<close>

definition md4_op :: "(nat \<Rightarrow> u32) \<Rightarrow> nat \<Rightarrow> md_variables \<Rightarrow> md_variables" where
  "md4_op X i v = (case v of (a, b, c, d) \<Rightarrow>
     let f = (if i < 16 then (b AND c) OR (NOT b AND d)
              else if i < 32 then (b AND c) OR (b AND d) OR (c AND d)
              else b XOR c XOR d);
         t = (if i < 16 then 0 else if i < 32 then 0x5a827999 else 0x6ed9eba1);
         k = (if i < 16 then i
              else if i < 32 then [0, 4, 8, 12, 1, 5, 9, 13, 2, 6, 10, 14, 3, 7, 11, 15] ! (i mod 16)
              else [0, 8, 4, 12, 2, 10, 6, 14, 1, 9, 5, 13, 3, 11, 7, 15] ! (i mod 16));
         s = (if i < 16 then [3, 7, 11, 19] else if i < 32 then [3, 5, 9, 13] else [3, 9, 11, 15]) ! (i mod 4)
     in (d, word_rotl s (a + f + X k + t), b, c))"

text \<open>RFC 1321.\<close>

definition md5_op :: "(nat \<Rightarrow> u32) \<Rightarrow> nat \<Rightarrow> md_variables \<Rightarrow> md_variables" where
  "md5_op X i v = (case v of (a, b, c, d) \<Rightarrow>
     let f = (if i < 16 then (b AND c) OR (NOT b AND d)
              else if i < 32 then (b AND d) OR (c AND NOT d)
              else if i < 48 then b XOR c XOR d
              else c XOR (b OR NOT d));
         k = (if i < 16 then i else if i < 32 then 5 * i + 1 else if i < 48 then 3 * i + 5 else 7 * i) mod 16;
         s = (if i < 16 then [7, 12, 17, 22] else if i < 32 then [5, 9, 14, 20] else if i < 48 then [4, 11, 16, 23]
              else [6, 10, 15, 21]) ! (i mod 4)
     in (d, b + word_rotl s (a + f + X k + md5_k ! i), b, c))"

definition md_compress :: "((nat \<Rightarrow> u32) \<Rightarrow> nat \<Rightarrow> md_variables \<Rightarrow> md_variables) \<Rightarrow> nat \<Rightarrow> u32 list \<Rightarrow> bytes \<Rightarrow> u32 list" where
  "md_compress f n H block =
     (case fold (f (\<lambda>k. load_u32 (drop (4 * k) block))) [0..<n] (H ! 0, H ! 1, H ! 2, H ! 3) of (a, b, c, d) \<Rightarrow> map2 (+) H [a, b, c, d])"

text \<open>FIPS 180-4.\<close>

fun sha1_W :: "(nat \<Rightarrow> u32) \<Rightarrow> nat \<Rightarrow> u32" where
  "sha1_W M t =
     (if t < 16 then M t
      else word_rotl 1 (sha1_W M (t - 3) XOR sha1_W M (t - 8) XOR sha1_W M (t - 14) XOR sha1_W M (t - 16)))"

declare sha1_W.simps [simp del]

definition sha1_op :: "(nat \<Rightarrow> u32) \<Rightarrow> nat \<Rightarrow> sha1_variables \<Rightarrow> sha1_variables" where
  "sha1_op W t v = (case v of (a, b, c, d, e) \<Rightarrow>
     let f = (if t < 20 then (b AND c) XOR (NOT b AND d)
              else if 40 \<le> t \<and> t < 60 then (b AND c) XOR (b AND d) XOR (c AND d)
              else b XOR c XOR d);
         k = (if t < 20 then 0x5a827999 else if t < 40 then 0x6ed9eba1 else if t < 60 then 0x8f1bbcdc else 0xca62c1d6)
     in (word_rotl 5 a + f + e + k + W t, a, word_rotl 30 b, c, d))"

definition sha1_compress :: "u32 list \<Rightarrow> bytes \<Rightarrow> u32 list" where
  "sha1_compress H block =
     (case fold (sha1_op (sha1_W (\<lambda>t. load_be32 (drop (4 * t) block)))) [0..<80] (H ! 0, H ! 1, H ! 2, H ! 3, H ! 4) of
        (a, b, c, d, e) \<Rightarrow> map2 (+) H [a, b, c, d, e])"

definition md_spec :: "((nat \<Rightarrow> u32) \<Rightarrow> nat \<Rightarrow> md_variables \<Rightarrow> md_variables) \<Rightarrow> nat \<Rightarrow> bytes \<Rightarrow> bytes" where
  "md_spec f n msg = concat (map bytes_u32 (foldl (md_compress f n) [0x67452301, 0xefcdab89, 0x98badcfe, 0x10325476]
     (full_blocks 64 (padded 64 56 (bytes_u64 (of_nat (8 * length msg))) msg))))"

definition sha1_spec :: "bytes \<Rightarrow> bytes" where
  "sha1_spec msg = concat (map (\<lambda>w. rev (bytes_u32 w)) (foldl sha1_compress [0x67452301, 0xefcdab89, 0x98badcfe, 0x10325476, 0xc3d2e1f0]
     (full_blocks 64 (padded 64 56 (rev (bytes_u64 (of_nat (8 * length msg)))) msg))))"

section \<open>The block functions\<close>

lemma rol32_rotl:
  assumes "0 < r" and "r < 32"
  shows "rol32 x r = word_rotl r x"
proof (rule bit_word_eqI)
  fix n assume "n < LENGTH(32)"
  then have n: "n < 32" by simp
  have m: "r mod 32 = r" using assms by simp
  show "bit (rol32 x r) n = bit (word_rotl r x) n"
  proof (cases "r \<le> n")
    case True
    have "\<not> bit x (32 - r + n)" using True assms by (auto dest: bit_imp_le_length)
    moreover have "(n + (32 - r)) mod 32 = n - r" using True n assms by (simp add: le_mod_geq)
    ultimately show ?thesis unfolding rol32_def bit_word_rotl_iff using n True m by (simp add: bit_simps)
  next
    case False
    then have "(n + (32 - r)) mod 32 = 32 - r + n" using assms by simp
    then show ?thesis unfolding rol32_def bit_word_rotl_iff using n m False by (simp add: bit_simps)
  qed
qed

lemma nth_dwords: "length b = 64 \<Longrightarrow> k < 16 \<Longrightarrow> load_dwords b ! k = load_u32 (drop (4 * k) b)"
  by (simp add: load_dwords_def)

text \<open>The four rounds of sixteen operations.\<close>

lemma round_cases:
  fixes i :: nat
  assumes "i < 64"
  obtains "i div 16 = 0" "i < 16" | "i div 16 = 1" "\<not> i < 16" "i < 32" | "i div 16 = 2" "\<not> i < 16" "\<not> i < 32" "i < 48"
    | "i div 16 = 3" "\<not> i < 16" "\<not> i < 32" "\<not> i < 48"
proof -
  have "i div 16 < 4" using assms by simp
  moreover have "i < 16 \<longleftrightarrow> i div 16 < 1" "i < 32 \<longleftrightarrow> i div 16 < 2" "i < 48 \<longleftrightarrow> i div 16 < 3" by auto
  ultimately show thesis using that by fastforce
qed

lemma md5_functions:
  "d XOR (b AND (c XOR d)) = (b AND c) OR (NOT b AND d)" "c XOR (d AND (b XOR c)) = (b AND d) OR (c AND NOT d)"
  for b c d :: u32
  by (rule bit_word_eqI; auto simp: bit_simps)+

lemma md5_shift: "j < 4 \<Longrightarrow> n < 4 \<Longrightarrow> 0 < md5_r ! n ! j \<and> md5_r ! n ! j < 32"
  by (auto simp: md5_r_def numeral_eq_Suc less_Suc_eq)

lemma md5_step_op:
  assumes "length b = 64" and "i < 64"
  shows "md5_step (load_dwords b) i v = md5_op (\<lambda>k. load_u32 (drop (4 * k) b)) i v"
proof -
  obtain A B C D where v: "v = (A, B, C, D)" by (metis prod.exhaust)
  have w: "load_dwords b ! (n mod 16) = load_u32 (drop (4 * (n mod 16)) b)" for n using assms(1) by (intro nth_dwords) simp_all
  have s: "rol32 x (md5_r ! n ! (i mod 4)) = word_rotl (md5_r ! n ! (i mod 4)) x" if "n < 4" for n x
    using md5_shift [of "i mod 4" n] that by (intro rol32_rotl) simp_all
  show ?thesis
    using assms(2)
    by (cases rule: round_cases)
      (simp_all add: md5_step_def md5_op_def md5_steps_def v w s md5_f_0_15_def md5_f_16_31_def md5_f_32_47_def md5_f_48_63_def
        md5_functions Let_def, simp_all add: md5_r_def ac_simps)
qed

lemma md4_shift: "j < 4 \<Longrightarrow> n < 3 \<Longrightarrow> 0 < md4_r ! n ! j \<and> md4_r ! n ! j < 32"
  by (auto simp: md4_r_def numeral_eq_Suc less_Suc_eq)

lemma md4_order:
  assumes "j < 16"
  shows "(push_bit 2 j OR drop_bit 2 j) mod 16 = [0, 4, 8, 12, 1, 5, 9, 13, 2, 6, 10, 14, 3, 7, 11, 15] ! j"
    and "md4_reverse ! j < 16"
proof -
  have "\<forall>j \<in> set [0..<16]. (push_bit 2 j OR drop_bit 2 j) mod 16 = [0, 4, 8, 12, 1, 5, 9, 13, 2, 6, 10, 14, 3, 7, 11, 15 :: nat] ! j
      \<and> md4_reverse ! j < 16" by code_simp
  with assms show "(push_bit 2 j OR drop_bit 2 j) mod 16 = [0, 4, 8, 12, 1, 5, 9, 13, 2, 6, 10, 14, 3, 7, 11, 15] ! j"
    "md4_reverse ! j < 16" by simp_all
qed

lemma md4_step_op:
  assumes "length b = 64" and "i < 48"
  shows "md4_step (load_dwords b) i v = md4_op (\<lambda>k. load_u32 (drop (4 * k) b)) i v"
proof -
  obtain A B C D where v: "v = (A, B, C, D)" by (metis prod.exhaust)
  have j: "i mod 16 < 16" by simp
  have w: "load_dwords b ! n = load_u32 (drop (4 * n) b)" if "n < 16" for n using assms(1) that by (intro nth_dwords) simp_all
  have w': "load_dwords b ! ((push_bit 2 (i mod 16) OR drop_bit 2 (i mod 16)) mod 16)
      = load_u32 (drop (4 * ([0, 4, 8, 12, 1, 5, 9, 13, 2, 6, 10, 14, 3, 7, 11, 15] ! (i mod 16))) b)"
    using w [of "(push_bit 2 (i mod 16) OR drop_bit 2 (i mod 16)) mod 16"] md4_order(1) [OF j] by simp
  have s: "rol32 x (md4_r ! n ! (i mod 4)) = word_rotl (md4_r ! n ! (i mod 4)) x" if "n < 3" for n x
    using md4_shift [of "i mod 4" n] that by (intro rol32_rotl) simp_all
  have "i < 64" using assms(2) by simp
  then show ?thesis
    using assms(2) w' w [OF md4_order(2) [OF j]] w [OF j]
    by (cases rule: round_cases)
      (simp_all add: md4_step_def md4_op_def md4_steps_def v s md4_f_0_15_def md4_f_16_31_def md4_f_32_47_def Let_def,
        simp_all add: md4_r_def md4_reverse_def ac_simps)
qed

lemma sha1_functions:
  "(b AND c) OR (NOT b AND d) = (b AND c) XOR (NOT b AND d)"
  "(b AND c) OR (b AND d) OR (c AND d) = (b AND c) XOR (b AND d) XOR (c AND d)" for b c d :: u32
  by (rule bit_word_eqI; auto simp: bit_simps)+

lemma sha1_round_cases:
  fixes i :: nat
  assumes "i < 80"
  obtains "i div 20 = 0" "i < 20" | "i div 20 = 1" "\<not> i < 20" "i < 40" | "i div 20 = 2" "\<not> i < 20" "\<not> i < 40" "i < 60"
    | "i div 20 = 3" "\<not> i < 20" "\<not> i < 40" "\<not> i < 60"
proof -
  have "i div 20 < 4" using assms by simp
  moreover have "i < 20 \<longleftrightarrow> i div 20 < 1" "i < 40 \<longleftrightarrow> i div 20 < 2" "i < 60 \<longleftrightarrow> i div 20 < 3" by auto
  ultimately show thesis using that by fastforce
qed

lemma sha1_step_op:
  assumes "i < 80"
  shows "sha1_step (map W [0..<80]) i v = sha1_op W i v"
proof -
  obtain A B C D E where v: "v = (A, B, C, D, E)" by (metis prod.exhaust)
  from assms show ?thesis
    by (cases rule: sha1_round_cases)
      (simp_all add: sha1_step_def sha1_op_def sha1_steps_def v rol32_rotl sha1_f_0_19_def sha1_f_20_39_60_79_def sha1_f_40_59_def
        sha1_functions Let_def)
qed

text \<open>The schedule that is built by appending the next word.\<close>

lemma sha1_expand_schedule:
  assumes "length b = 64"
  shows "sha1_expand (map be32_to_cpu (load_dwords b)) = map (sha1_W (\<lambda>t. load_be32 (drop (4 * t) b))) [0..<80]"
proof -
  let ?W = "sha1_W (\<lambda>t. load_be32 (drop (4 * t) b))"
  let ?g = "\<lambda>i w. w @ [rol32 (w ! (i - 3) XOR w ! (i - 8) XOR w ! (i - 14) XOR w ! (i - 16)) 1]"
  have d: "map be32_to_cpu (load_dwords b) = map ?W [0..<16]"
    using assms by (simp add: load_dwords_def be32_to_cpu_def bswap_load_u32 sha1_W.simps)
  have f: "16 \<le> n \<Longrightarrow> fold ?g [16..<n] (map ?W [0..<16]) = map ?W [0..<n]" for n
  proof (induction n rule: dec_induct)
    case (step n)
    then show ?case by (simp add: rol32_rotl sha1_W.simps [of _ n])
  qed simp
  show ?thesis unfolding sha1_expand_def d by (rule f) simp
qed

lemma fold_ops: "(\<And>i v. i < n \<Longrightarrow> f i v = g i v) \<Longrightarrow> fold f [0..<n] v = fold g [0..<n] v"
  by (intro fold_cong refl) auto

lemma md5_digest_h:
  "length (ctx_data c) = 64 \<Longrightarrow> ctx_h (md5_digest c) = md_compress md5_op 64 (ctx_h c) (ctx_data c)"
  using fold_ops [of 64 "md5_step (load_dwords (ctx_data c))" "md5_op (\<lambda>k. load_u32 (drop (4 * k) (ctx_data c)))"] md5_step_op
  by (simp add: md5_digest_def md_compress_def le32_to_cpu_def [abs_def] cpu_to_le32_def Let_def split: prod.splits)

lemma md4_digest_h:
  "length (ctx_data c) = 64 \<Longrightarrow> ctx_h (md4_digest c) = md_compress md4_op 48 (ctx_h c) (ctx_data c)"
  using fold_ops [of 48 "md4_step (load_dwords (ctx_data c))" "md4_op (\<lambda>k. load_u32 (drop (4 * k) (ctx_data c)))"] md4_step_op
  by (simp add: md4_digest_def md_compress_def le32_to_cpu_def [abs_def] cpu_to_le32_def Let_def split: prod.splits)

lemma sha1_digest_h:
  "length (ctx_data c) = 64 \<Longrightarrow> ctx_h (sha1_digest c) = map bswap_32 (sha1_compress (map bswap_32 (ctx_h c)) (ctx_data c))"
  using fold_ops [of 80 "sha1_step (map (sha1_W (\<lambda>t. load_be32 (drop (4 * t) (ctx_data c)))) [0..<80])"
      "sha1_op (sha1_W (\<lambda>t. load_be32 (drop (4 * t) (ctx_data c))))"] sha1_step_op
  by (simp add: sha1_digest_def sha1_compress_def sha1_expand_schedule [unfolded be32_to_cpu_def] be32_to_cpu_def cpu_to_be32_def Let_def
      comp_def case_prod_unfold split: prod.splits)

lemma length_digest_data:
  assumes "length (ctx_data c) = 64"
  shows "length (ctx_data (md4_digest c)) = 64" "length (ctx_data (md5_digest c)) = 64" "length (ctx_data (sha1_digest c)) = 64"
  using assms
  by (simp_all add: md4_digest_def md5_digest_def sha1_digest_def Let_def length_concat_words load_dwords_def split: prod.splits
      del: map_map)

lemma digest_keeps:
  "ctx_len (md4_digest c) = ctx_len c" "ctx_len (md5_digest c) = ctx_len c" "ctx_len (sha1_digest c) = ctx_len c"
  by (simp_all add: md4_digest_def md5_digest_def sha1_digest_def Let_def split: prod.splits)

interpretation md4: block_digest md4_digest 64 "md_compress md4_op 48"
  by standard (simp_all add: md4_digest_h length_digest_data digest_keeps)

interpretation md5: block_digest md5_digest 64 "md_compress md5_op 64"
  by standard (simp_all add: md5_digest_h length_digest_data digest_keeps)

interpretation sha1: block_digest sha1_digest 64 "\<lambda>h b. map bswap_32 (sha1_compress (map bswap_32 h) b)"
  by standard (simp_all add: sha1_digest_h length_digest_data digest_keeps)

section \<open>Streaming\<close>

definition md_iv :: "u32 list" where
  "md_iv = [0x67452301, 0xefcdab89, 0x98badcfe, 0x10325476]"

lemma md_final_length:
  assumes "length iv = 4"
  shows "length (foldl (md_compress f n) iv bs) = 4"
  using assms
proof (induction bs arbitrary: iv)
  case (Cons b bs)
  have "length (md_compress f n iv b) = 4" using Cons.prems by (simp add: md_compress_def split: prod.splits)
  with Cons.IH show ?case by simp
qed simp

lemma md_spec_length: "length (md_spec f n msg) = 16"
  unfolding md_spec_def length_concat_words by (subst md_final_length) simp_all

interpretation md4a: hash_algorithm md4_algorithm "\<lambda>c. length (ctx_data c) = 64" "md4.absorbed md_iv ()" "md_spec md4_op 48"
proof
  show "\<exists>c'. da_final md4_algorithm c = Some (c', md_spec md4_op 48 msg) \<and> length (ctx_data c') = 64"
    if "md4.absorbed md_iv () msg c" for msg c
    using md4.absorbed_final [OF that, of 56 "bytes_u64 (of_nat (8 * length msg))"] that
    by (auto simp: md4_algorithm_def md4_final_def md4_update_def md4.absorbed_def cpu_to_le64_def md_spec_def md_iv_def mult.commute)
qed (auto simp: md4_algorithm_def md4_init_def md4_update_def cpu_to_le32_def md_iv_def md_spec_length
    intro: md4.absorbed_update intro!: md4.absorbed_init)

interpretation md5a: hash_algorithm md5_algorithm "\<lambda>c. length (ctx_data c) = 64" "md5.absorbed md_iv ()" "md_spec md5_op 64"
proof
  show "\<exists>c'. da_final md5_algorithm c = Some (c', md_spec md5_op 64 msg) \<and> length (ctx_data c') = 64"
    if "md5.absorbed md_iv () msg c" for msg c
    using md5.absorbed_final [OF that, of 56 "bytes_u64 (of_nat (8 * length msg))"] that
    by (auto simp: md5_algorithm_def md5_final_def md5_update_def md5.absorbed_def cpu_to_le64_def md_spec_def md_iv_def mult.commute)
qed (auto simp: md5_algorithm_def md5_init_def md5_update_def cpu_to_le32_def md_iv_def md_spec_length
    intro: md5.absorbed_update intro!: md5.absorbed_init)

definition sha1_iv :: "u32 list" where
  "sha1_iv = [0x67452301, 0xefcdab89, 0x98badcfe, 0x10325476, 0xc3d2e1f0]"

lemma sha1_spec_length: "length (sha1_spec msg) = 20"
proof -
  have "length (sha1_compress h b) = 5" if "length h = 5" for h b using that by (simp add: sha1_compress_def split: prod.splits)
  then have "length h = 5 \<Longrightarrow> length (foldl sha1_compress h bs) = 5" for h bs by (induction bs arbitrary: h) simp_all
  moreover have "length (concat (map (\<lambda>w. rev (bytes_u32 w)) ws)) = 4 * length ws" for ws by (induction ws) simp_all
  ultimately show ?thesis by (simp add: sha1_spec_def)
qed

lemma sha1_final_absorbed:
  assumes "sha1.absorbed (map bswap_32 sha1_iv) () msg c"
  shows "\<exists>c'. sha1_final c = Some (c', sha1_spec msg) \<and> length (ctx_data c') = 64"
proof -
  let ?field = "rev (bytes_u64 (of_nat (8 * length msg)))"
  obtain c1 c2 where c: "block_pad sha1_digest 64 56 0x80 c = Some c1" "c2 = block_update sha1_digest 64 ?field c1"
    "ctx_h c2 = foldl (\<lambda>h b. map bswap_32 (sha1_compress (map bswap_32 h) b)) (map bswap_32 sha1_iv)
       (full_blocks 64 (padded 64 56 ?field msg))"
    "length (ctx_data c2) = 64"
    using sha1.absorbed_final [OF assms, of 56 ?field] by auto
  have i: "map bswap_32 (map bswap_32 sha1_iv) = sha1_iv" by (simp add: comp_def bswap_32_twice)
  have "map bswap_32 (ctx_h c2) = foldl sha1_compress sha1_iv (full_blocks 64 (padded 64 56 ?field msg))"
    unfolding c(3) foldl_swapped [OF bswap_32_twice] i ..
  moreover have "ctx_h c2 = map bswap_32 (map bswap_32 (ctx_h c2))" by (simp add: comp_def bswap_32_twice)
  ultimately have "ctx_h c2 = map bswap_32 (foldl sha1_compress sha1_iv (full_blocks 64 (padded 64 56 ?field msg)))" by simp
  moreover have "ctx_len c = of_nat (length msg)" using assms by (simp add: sha1.absorbed_def)
  ultimately show ?thesis
    using c(1,2,4)
    by (simp add: sha1_final_def sha1_update_def cpu_to_be64_def bytes_bswap_64 sha1_spec_def sha1_iv_def comp_def bytes_bswap_32
        mult.commute)
qed

interpretation sha1a: hash_algorithm sha1_algorithm "\<lambda>c. length (ctx_data c) = 64"
  "sha1.absorbed (map bswap_32 sha1_iv) ()" sha1_spec
proof
  show "sha1.absorbed (map bswap_32 sha1_iv) () [] (da_init sha1_algorithm c)" if "length (ctx_data c) = 64" for c
    using that by (intro sha1.absorbed_init) (simp_all add: sha1_algorithm_def sha1_init_def cpu_to_be32_def sha1_iv_def)
qed (auto simp: sha1_algorithm_def sha1_update_def sha1_spec_length sha1_final_absorbed intro: sha1.absorbed_update)

section \<open>Properties\<close>



end
