(* ===== verification/Hmac.thy ===== *)
theory Hmac
  imports Sha2 MdSha1 "HOL-Library.Monad_Syntax"
begin

text \<open>
  Keyed hashing (crypto/hmac.c), the hash-based derivation function (crypto/hash_df.c) and the
  HMAC generator of pseudorandom bits (crypto/hmac_drbg.c), over any digest algorithm. A context on
  the stack that the code does not initialise is an argument.
\<close>

section \<open>Model\<close>

text \<open>Copying to the start of a buffer.\<close>

definition memcpy_to :: "bytes \<Rightarrow> bytes \<Rightarrow> bytes" where
  "memcpy_to buf src = src @ drop (length src) buf"

subsection \<open>HMAC\<close>

record 'c hmac_context =
  hc_ctx :: 'c
  hc_pad :: bytes

definition hmac_init :: "'c digest_algorithm \<Rightarrow> bytes \<Rightarrow> 'c hmac_context \<Rightarrow> 'c hmac_context option" where
  "hmac_init digest key hctx = do {
     let pad = replicate (da_blocksize digest) 0;
     (ctx, pad) \<leftarrow>
       (if length key \<le> length pad then Some (hc_ctx hctx, memcpy_to pad key)
        else do {
          let ctx = da_init digest (hc_ctx hctx);
          let ctx = da_update digest key ctx;
          (ctx, out) \<leftarrow> da_final digest ctx;
          Some (ctx, memcpy_to pad out)
        });
     let pad = map (\<lambda>b. b XOR 0x36) pad;
     let ctx = da_init digest ctx;
     let ctx = da_update digest pad ctx;
     Some \<lparr>hc_ctx = ctx, hc_pad = pad\<rparr>
   }"

definition hmac_update :: "'c digest_algorithm \<Rightarrow> bytes \<Rightarrow> 'c hmac_context \<Rightarrow> 'c hmac_context" where
  "hmac_update digest data hctx = hctx\<lparr>hc_ctx := da_update digest data (hc_ctx hctx)\<rparr>"

definition hmac_final :: "'c digest_algorithm \<Rightarrow> 'c hmac_context \<Rightarrow> ('c hmac_context \<times> bytes) option" where
  "hmac_final digest hctx = do {
     let pad = map (\<lambda>b. b XOR 0x6a) (hc_pad hctx);
     (ctx, hmac) \<leftarrow> da_final digest (hc_ctx hctx);
     let ctx = da_init digest ctx;
     let ctx = da_update digest pad ctx;
     let ctx = da_update digest hmac ctx;
     (ctx, hmac) \<leftarrow> da_final digest ctx;
     Some (\<lparr>hc_ctx = ctx, hc_pad = replicate (length pad) 0\<rparr>, hmac)
   }"

subsection \<open>Hash derivation\<close>

partial_function (option) hash_df_loop ::
  "'c digest_algorithm \<Rightarrow> 'c \<Rightarrow> bytes \<Rightarrow> nat \<Rightarrow> u8 \<Rightarrow> nat \<Rightarrow> bytes \<Rightarrow> bytes option" where
  "hash_df_loop hash context input output_len counter remaining temp =
     (if 0 < remaining then do {
        let no_of_bits_to_return = htonl (of_nat (output_len * 8));
        let context = da_init hash context;
        let context = da_update hash (counter # bytes_u32 no_of_bits_to_return) context;
        let context = da_update hash input context;
        (context, digest) \<leftarrow> da_final hash context;
        let counter = counter + 1;
        let frag_len = (if remaining < da_digestsize hash then remaining else da_digestsize hash);
        hash_df_loop hash context input output_len counter (remaining - frag_len) (temp @ take frag_len digest)
      } else Some temp)"

declare hash_df_loop.simps [code]

definition hash_df :: "'c digest_algorithm \<Rightarrow> 'c \<Rightarrow> bytes \<Rightarrow> nat \<Rightarrow> bytes option" where
  "hash_df hash context input output_len = hash_df_loop hash context input output_len 1 output_len []"

subsection \<open>HMAC\_DRBG\<close>

record hmac_drbg_state =
  drbg_value :: bytes
  drbg_key :: bytes
  reseed_counter :: u32

definition HMAC_DRBG_RESEED_INTERVAL :: u32 where
  "HMAC_DRBG_RESEED_INTERVAL = 1024"

definition hmac_drbg_update_key ::
  "'c digest_algorithm \<Rightarrow> 'c hmac_context \<Rightarrow> bytes \<Rightarrow> u8 \<Rightarrow> hmac_drbg_state \<Rightarrow> hmac_drbg_state option" where
  "hmac_drbg_update_key hash context data single state = do {
     let out_len = da_digestsize hash;
     context \<leftarrow> hmac_init hash (take out_len (drbg_key state)) context;
     let context = hmac_update hash (take out_len (drbg_value state)) context;
     let context = hmac_update hash [single] context;
     let context = hmac_update hash data context;
     (context, out) \<leftarrow> hmac_final hash context;
     Some (state\<lparr>drbg_key := memcpy_to (drbg_key state) out\<rparr>)
   }"

definition hmac_drbg_update_value ::
  "'c digest_algorithm \<Rightarrow> 'c hmac_context \<Rightarrow> hmac_drbg_state \<Rightarrow> hmac_drbg_state option" where
  "hmac_drbg_update_value hash context state = do {
     let out_len = da_digestsize hash;
     context \<leftarrow> hmac_init hash (take out_len (drbg_key state)) context;
     let context = hmac_update hash (take out_len (drbg_value state)) context;
     (context, out) \<leftarrow> hmac_final hash context;
     Some (state\<lparr>drbg_value := memcpy_to (drbg_value state) out\<rparr>)
   }"

definition hmac_drbg_update ::
  "'c digest_algorithm \<Rightarrow> 'c hmac_context \<Rightarrow> bytes \<Rightarrow> hmac_drbg_state \<Rightarrow> hmac_drbg_state option" where
  "hmac_drbg_update hash context data state = do {
     state \<leftarrow> hmac_drbg_update_key hash context data 0x00 state;
     state \<leftarrow> hmac_drbg_update_value hash context state;
     if length data = 0 then Some state
     else do {
       state \<leftarrow> hmac_drbg_update_key hash context data 0x01 state;
       hmac_drbg_update_value hash context state
     }
   }"

definition hmac_drbg_reseed ::
  "'c digest_algorithm \<Rightarrow> 'c hmac_context \<Rightarrow> bytes \<Rightarrow> bytes \<Rightarrow> hmac_drbg_state \<Rightarrow> hmac_drbg_state option" where
  "hmac_drbg_reseed hash context entropy additional state = do {
     let seed_material = entropy @ additional;
     state \<leftarrow> hmac_drbg_update hash context seed_material state;
     Some (state\<lparr>reseed_counter := 1\<rparr>)
   }"

definition hmac_drbg_instantiate ::
  "'c digest_algorithm \<Rightarrow> 'c hmac_context \<Rightarrow> bytes \<Rightarrow> bytes \<Rightarrow> hmac_drbg_state \<Rightarrow> hmac_drbg_state option" where
  "hmac_drbg_instantiate hash context entropy personal state =
     (let out_len = da_digestsize hash;
          state = state\<lparr>drbg_key := memcpy_to (drbg_key state) (replicate out_len 0x00)\<rparr>;
          state = state\<lparr>drbg_value := memcpy_to (drbg_value state) (replicate out_len 0x01)\<rparr>
      in hmac_drbg_reseed hash context entropy personal state)"

text \<open>The loop that fills the output buffer.\<close>

partial_function (option) hmac_drbg_output ::
  "'c digest_algorithm \<Rightarrow> 'c hmac_context \<Rightarrow> nat \<Rightarrow> hmac_drbg_state \<Rightarrow> bytes \<Rightarrow> (hmac_drbg_state \<times> bytes) option" where
  "hmac_drbg_output hash context len state data =
     (if len = 0 then Some (state, data)
      else do {
        state \<leftarrow> hmac_drbg_update_value hash context state;
        let frag_len = (if da_digestsize hash < len then da_digestsize hash else len);
        hmac_drbg_output hash context (len - frag_len) state (data @ take frag_len (drbg_value state))
      })"

declare hmac_drbg_output.simps [code]

definition hmac_drbg_generate ::
  "'c digest_algorithm \<Rightarrow> 'c hmac_context \<Rightarrow> bytes \<Rightarrow> nat \<Rightarrow> hmac_drbg_state \<Rightarrow> (hmac_drbg_state \<times> bytes result) option" where
  "hmac_drbg_generate hash context additional len state =
     (if reseed_counter state > HMAC_DRBG_RESEED_INTERVAL then Some (state, Inl ESTALE)
      else do {
        state \<leftarrow> (if length additional \<noteq> 0 then hmac_drbg_update hash context additional state else Some state);
        (state, data) \<leftarrow> hmac_drbg_output hash context len state [];
        state \<leftarrow> hmac_drbg_update hash context additional state;
        Some (state\<lparr>reseed_counter := reseed_counter state + 1\<rparr>, Inr data)
      })"

section \<open>Specification\<close>

text \<open>RFC 2104, with the block size of the hash function.\<close>

definition hmac_key :: "(bytes \<Rightarrow> bytes) \<Rightarrow> nat \<Rightarrow> bytes \<Rightarrow> bytes" where
  "hmac_key H B K = (let K = (if length K \<le> B then K else H K) in K @ replicate (B - length K) 0)"

definition HMAC :: "(bytes \<Rightarrow> bytes) \<Rightarrow> nat \<Rightarrow> bytes \<Rightarrow> bytes \<Rightarrow> bytes" where
  "HMAC H B K text =
     (let K = hmac_key H B K
      in H (map (\<lambda>b. b XOR 0x5c) K @ H (map (\<lambda>b. b XOR 0x36) K @ text)))"

text \<open>The functions of NIST SP 800-90, over the key and the value.\<close>

definition blocks_needed :: "nat \<Rightarrow> nat \<Rightarrow> nat" where
  "blocks_needed outlen n = (n + outlen - 1) div outlen"

definition Hash_df :: "(bytes \<Rightarrow> bytes) \<Rightarrow> nat \<Rightarrow> bytes \<Rightarrow> nat \<Rightarrow> bytes" where
  "Hash_df H outlen input n =
     take n (concat (map (\<lambda>i. H (of_nat (i + 1) # rev (bytes_u32 (of_nat (8 * n))) @ input)) [0..<blocks_needed outlen n]))"

definition DRBG_Update :: "(bytes \<Rightarrow> bytes \<Rightarrow> bytes) \<Rightarrow> bytes \<Rightarrow> bytes \<times> bytes \<Rightarrow> bytes \<times> bytes" where
  "DRBG_Update HM data s =
     (case s of (K, V) \<Rightarrow>
        let K = HM K (V @ 0x00 # data); V = HM K V
        in if data = [] then (K, V)
           else let K = HM K (V @ 0x01 # data); V = HM K V in (K, V))"

definition DRBG_Instantiate :: "(bytes \<Rightarrow> bytes \<Rightarrow> bytes) \<Rightarrow> nat \<Rightarrow> bytes \<Rightarrow> bytes \<times> bytes" where
  "DRBG_Instantiate HM outlen seed = DRBG_Update HM seed (replicate outlen 0x00, replicate outlen 0x01)"

definition DRBG_Generate ::
  "(bytes \<Rightarrow> bytes \<Rightarrow> bytes) \<Rightarrow> nat \<Rightarrow> bytes \<Rightarrow> nat \<Rightarrow> bytes \<times> bytes \<Rightarrow> (bytes \<times> bytes) \<times> bytes" where
  "DRBG_Generate HM outlen additional n s =
     (let (K, V) = (if additional = [] then s else DRBG_Update HM additional s);
          m = blocks_needed outlen n;
          temp = concat (map (\<lambda>i. (HM K ^^ (i + 1)) V) [0..<m])
      in (DRBG_Update HM additional (K, (HM K ^^ m) V), take n temp))"


section \<open>Correctness\<close>

text \<open>The input pad turns into the output pad.\<close>

lemma pad_xor: "(b XOR 0x36) XOR 0x6a = b XOR (0x5c :: u8)"
proof -
  have "(b XOR 0x36) XOR 0x6a = b XOR (0x36 XOR 0x6a)" by (rule xor.assoc)
  then show ?thesis by simp
qed

lemma blocks_needed_step:
  assumes "0 < outlen" and "0 < n"
  shows "blocks_needed outlen n = Suc (blocks_needed outlen (n - (if outlen < n then outlen else n)))"
proof -
  have e: "n + outlen - 1 = (n - 1) + outlen" using assms(2) by simp
  have "blocks_needed outlen n = Suc ((n - 1) div outlen)"
    unfolding blocks_needed_def e div_add_self2 [OF less_not_refl2 [OF assms(1)]] by simp
  moreover have "blocks_needed outlen (n - outlen) = (n - 1) div outlen" if "outlen < n"
    using that by (simp add: blocks_needed_def)
  moreover have "(n - 1) div outlen = 0" if "\<not> outlen < n" using that assms by simp
  ultimately show ?thesis using assms(1) by (auto simp: blocks_needed_def)
qed

text \<open>Output that is made of blocks, of which the last one may be cut.\<close>

lemma take_blocks:
  assumes "0 < outlen" and "0 < n" and "length (f 0) = outlen"
    and fr: "fr = (if outlen < n then outlen else n)"
  shows "take n (concat (map f [0..<blocks_needed outlen n]))
    = take fr (f 0) @ take (n - fr) (concat (map (\<lambda>i. f (Suc i)) [0..<blocks_needed outlen (n - fr)]))"
proof -
  have "[0..<blocks_needed outlen n] = 0 # map Suc [0..<blocks_needed outlen (n - fr)]"
    unfolding blocks_needed_step [OF assms(1,2)] fr map_Suc_upt by (rule upt_conv_Cons) simp
  then show ?thesis using assms(3) by (simp add: fr comp_def)
qed

context hash_algorithm
begin

abbreviation outlen :: nat where "outlen \<equiv> da_digestsize alg"

abbreviation HM :: "bytes \<Rightarrow> bytes \<Rightarrow> bytes" where "HM \<equiv> HMAC H (da_blocksize alg)"

lemma length_HM [simp]: "length (HM K m) = outlen"
  by (simp add: HMAC_def Let_def H_length)

text \<open>A context that is keyed and has absorbed a message.\<close>

definition keyed :: "bytes \<Rightarrow> bytes \<Rightarrow> 'c hmac_context \<Rightarrow> bool" where
  "keyed key msg h \<longleftrightarrow> hc_pad h = map (\<lambda>b. b XOR 0x36) (hmac_key H (da_blocksize alg) key) \<and> holds (hc_pad h @ msg) (hc_ctx h)"

lemma hmac_init_keyed:
  assumes "valid (hc_ctx h)"
  shows "\<exists>h'. hmac_init alg key h = Some h' \<and> keyed key [] h'"
proof (cases "length key \<le> da_blocksize alg")
  case True
  then show ?thesis
    using update_holds [OF init_holds [OF assms]]
    by (auto simp: hmac_init_def keyed_def memcpy_to_def hmac_key_def Let_def)
next
  case False
  obtain c where c: "da_final alg (da_update alg key (da_init alg (hc_ctx h))) = Some (c, H key)" "valid c"
    using final_holds [OF update_holds [OF init_holds [OF assms]]] by auto
  then show ?thesis
    using False update_holds [OF init_holds [OF c(2)]]
    by (auto simp: hmac_init_def keyed_def memcpy_to_def hmac_key_def Let_def H_length)
qed

lemma hmac_update_keyed: "keyed key msg h \<Longrightarrow> keyed key (msg @ data) (hmac_update alg data h)"
  using update_holds [of "hc_pad h @ msg" "hc_ctx h" data] by (auto simp: keyed_def hmac_update_def)

lemma hmac_final_keyed:
  assumes "keyed key msg h"
  shows "\<exists>h'. hmac_final alg h = Some (h', HM key msg) \<and> valid (hc_ctx h') \<and> set (hc_pad h') \<subseteq> {0}"
proof -
  let ?K = "hmac_key H (da_blocksize alg) key"
  have pad: "map (\<lambda>b. b XOR 0x6a) (hc_pad h) = map (\<lambda>b. b XOR 0x5c) ?K"
    using assms by (simp add: keyed_def comp_def pad_xor)
  obtain c where c: "da_final alg (hc_ctx h) = Some (c, H (map (\<lambda>b. b XOR 0x36) ?K @ msg))" "valid c"
    using assms final_holds [of "hc_pad h @ msg" "hc_ctx h"] by (auto simp: keyed_def)
  have "holds (map (\<lambda>b. b XOR 0x5c) ?K @ H (map (\<lambda>b. b XOR 0x36) ?K @ msg))
      (da_update alg (H (map (\<lambda>b. b XOR 0x36) ?K @ msg)) (da_update alg (map (\<lambda>b. b XOR 0x5c) ?K) (da_init alg c)))"
    using update_holds [OF update_holds [OF init_holds [OF c(2)]]] by simp
  from final_holds [OF this] show ?thesis
    using c(1) pad by (auto simp: hmac_final_def HMAC_def Let_def split: option.splits)
qed

lemma hmac_chunks:
  assumes "valid (hc_ctx h)"
  shows "\<exists>h' h''. hmac_init alg key h = Some h' \<and> hmac_final alg (fold (hmac_update alg) chunks h') = Some (h'', HM key (concat chunks))
    \<and> set (hc_pad h'') \<subseteq> {0}"
proof -
  obtain h' where h': "hmac_init alg key h = Some h'" "keyed key [] h'" using hmac_init_keyed [OF assms] by blast
  have "keyed key (msg @ concat chunks) (fold (hmac_update alg) chunks h')" if "keyed key msg h'" for msg :: bytes and h'
    using that
  proof (induction chunks arbitrary: msg h')
    case (Cons d ds)
    from Cons.IH [OF hmac_update_keyed [OF Cons.prems]] show ?case by simp
  qed simp
  from hmac_final_keyed [OF this [OF h'(2)]] h'(1) show ?thesis by auto
qed

text \<open>The derivation function.\<close>

lemma hash_df_loop_correct:
  assumes "valid c"
  shows "hash_df_loop alg c input n counter remaining temp = Some (temp @ take remaining (concat (map (\<lambda>i.
    H ((counter + of_nat i) # rev (bytes_u32 (of_nat (8 * n))) @ input)) [0..<blocks_needed outlen remaining])))"
  using assms
proof (induction remaining arbitrary: c counter temp rule: less_induct)
  case (less remaining)
  define B where "B k = H (k # rev (bytes_u32 (of_nat (8 * n))) @ input)" for k
  show ?case
  proof (cases "0 < remaining")
    case False
    then show ?thesis using digest_pos by (subst hash_df_loop.simps) (simp add: blocks_needed_def)
  next
    case True
    define fr where "fr = (if outlen < remaining then outlen else remaining)"
    have f: "(if remaining < outlen then remaining else outlen) = fr" by (simp add: fr_def)
    let ?c = "da_update alg input (da_update alg (counter # bytes_u32 (htonl (of_nat (n * 8)))) (da_init alg c))"
    have "holds ((counter # rev (bytes_u32 (of_nat (8 * n)))) @ input) ?c"
      using update_holds [OF update_holds [OF init_holds [OF less.prems]], of "counter # bytes_u32 (htonl (of_nat (n * 8)))" input]
      by (simp add: htonl_def cpu_to_be32_def bytes_bswap_32 mult.commute)
    then obtain c' where c': "da_final alg ?c = Some (c', B counter)" "valid c'"
      using final_holds unfolding B_def by fastforce
    have lt: "remaining - fr < remaining" using True digest_pos by (simp add: fr_def)
    have "take remaining (concat (map (\<lambda>i. B (counter + of_nat i)) [0..<blocks_needed outlen remaining]))
        = take fr (B counter) @ take (remaining - fr) (concat (map (\<lambda>i. B (counter + 1 + of_nat i)) [0..<blocks_needed outlen (remaining - fr)]))"
      using take_blocks [OF digest_pos True _ fr_def, of "\<lambda>i. B (counter + of_nat i)"] by (simp add: B_def H_length add.assoc)
    then show ?thesis
      using True c'(1) less.IH [OF lt c'(2)] unfolding B_def [symmetric]
      by (subst hash_df_loop.simps) (simp add: f Let_def del: of_nat_mult)
  qed
qed

lemma hash_df_correct: "valid c \<Longrightarrow> hash_df alg c input n = Some (Hash_df H outlen input n)"
  by (simp add: hash_df_def hash_df_loop_correct Hash_df_def add.commute)

text \<open>The generator refines the functions on the key and the value.\<close>

definition drbg_abs :: "hmac_drbg_state \<Rightarrow> bytes \<times> bytes" where
  "drbg_abs st = (take outlen (drbg_key st), take outlen (drbg_value st))"

definition drbg_room :: "hmac_drbg_state \<Rightarrow> bool" where
  "drbg_room st \<longleftrightarrow> outlen \<le> length (drbg_key st) \<and> outlen \<le> length (drbg_value st)"

definition drbg_refines :: "hmac_drbg_state option \<Rightarrow> u32 \<Rightarrow> bytes \<times> bytes \<Rightarrow> bool" where
  "drbg_refines r n s \<longleftrightarrow> (\<exists>st. r = Some st \<and> drbg_room st \<and> reseed_counter st = n \<and> drbg_abs st = s)"

lemma hmac_updates:
  assumes "valid (hc_ctx h)"
  shows "\<exists>h1 h2. hmac_init alg key h = Some h1 \<and> hmac_final alg (hmac_update alg d1 h1) = Some (h2, HM key d1)"
    and "\<exists>h1 h2. hmac_init alg key h = Some h1
      \<and> hmac_final alg (hmac_update alg d3 (hmac_update alg d2 (hmac_update alg d1 h1))) = Some (h2, HM key (d1 @ d2 @ d3))"
  using hmac_chunks [OF assms, of key "[d1]"] hmac_chunks [OF assms, of key "[d1, d2, d3]"] by auto

lemma update_key_refines:
  assumes "valid (hc_ctx h)" and "drbg_room st" and "drbg_abs st = (K, V)"
  shows "drbg_refines (hmac_drbg_update_key alg h data single st) (reseed_counter st) (HM K (V @ single # data), V)"
proof -
  obtain h1 h2 where "hmac_init alg K h = Some h1"
    "hmac_final alg (hmac_update alg data (hmac_update alg [single] (hmac_update alg V h1))) = Some (h2, HM K (V @ single # data))"
    using hmac_updates(2) [OF assms(1), of K data "[single]" V] by auto
  then show ?thesis
    using assms(2,3) by (auto simp: drbg_refines_def hmac_drbg_update_key_def drbg_abs_def drbg_room_def memcpy_to_def Let_def)
qed

lemma update_value_refines:
  assumes "valid (hc_ctx h)" and "drbg_room st" and "drbg_abs st = (K, V)"
  shows "drbg_refines (hmac_drbg_update_value alg h st) (reseed_counter st) (K, HM K V)"
proof -
  obtain h1 h2 where "hmac_init alg K h = Some h1" "hmac_final alg (hmac_update alg V h1) = Some (h2, HM K V)"
    using hmac_updates(1) [OF assms(1), of K V] by auto
  then show ?thesis
    using assms(2,3) by (auto simp: drbg_refines_def hmac_drbg_update_value_def drbg_abs_def drbg_room_def memcpy_to_def Let_def)
qed

lemma update_refines:
  assumes "valid (hc_ctx h)" and "drbg_room st"
  shows "drbg_refines (hmac_drbg_update alg h data st) (reseed_counter st) (DRBG_Update HM data (drbg_abs st))"
proof -
  have once: "drbg_refines (hmac_drbg_update_key alg h data single st \<bind> hmac_drbg_update_value alg h) (reseed_counter st)
      (HM K (V @ single # data), HM (HM K (V @ single # data)) V)"
    if "drbg_room st" "drbg_abs st = (K, V)" for st K V single
    using update_key_refines [OF assms(1) that, of data single] update_value_refines [OF assms(1)]
    by (fastforce simp: drbg_refines_def)
  obtain K V where KV: "drbg_abs st = (K, V)" by fastforce
  obtain st1 where st1: "hmac_drbg_update_key alg h data 0 st \<bind> hmac_drbg_update_value alg h = Some st1" "drbg_room st1"
    "reseed_counter st1 = reseed_counter st" "drbg_abs st1 = (HM K (V @ 0 # data), HM (HM K (V @ 0 # data)) V)"
    using once [OF assms(2) KV, of 0] by (auto simp: drbg_refines_def)
  have "hmac_drbg_update alg h data st = (if data = [] then Some st1
      else hmac_drbg_update_key alg h data 1 st1 \<bind> hmac_drbg_update_value alg h)"
    using st1(1) by (auto simp: hmac_drbg_update_def bind_eq_Some_conv)
  then show ?thesis
    using st1 once [OF st1(2,4), of 1] KV by (auto simp: drbg_refines_def DRBG_Update_def Let_def)
qed

lemma output_refines:
  assumes "valid (hc_ctx h)" and "drbg_room st" and "drbg_abs st = (K, V)"
  shows "\<exists>st'. hmac_drbg_output alg h n st data = Some (st', data @ take n (concat (map (\<lambda>i. (HM K ^^ (i + 1)) V) [0..<blocks_needed outlen n])))
    \<and> drbg_refines (Some st') (reseed_counter st) (K, (HM K ^^ blocks_needed outlen n) V)"
  using assms(2,3)
proof (induction n arbitrary: st V data rule: less_induct)
  case (less n)
  show ?case
  proof (cases "n = 0")
    case True
    then show ?thesis using less.prems digest_pos by (subst hmac_drbg_output.simps) (simp add: blocks_needed_def drbg_refines_def)
  next
    case False
    define fr where "fr = (if outlen < n then outlen else n)"
    obtain st1 where st1: "hmac_drbg_update_value alg h st = Some st1" "drbg_room st1" "reseed_counter st1 = reseed_counter st"
      "drbg_abs st1 = (K, HM K V)"
      using update_value_refines [OF assms(1) less.prems] by (auto simp: drbg_refines_def)
    have lt: "n - fr < n" using False digest_pos by (simp add: fr_def)
    have v: "take outlen (drbg_value st1) = HM K V" using st1(4) by (simp add: drbg_abs_def)
    have frag: "take fr (drbg_value st1) = take fr (HM K V)" unfolding v [symmetric] by (simp add: fr_def min_def)
    have out: "take n (concat (map (\<lambda>i. (HM K ^^ (i + 1)) V) [0..<blocks_needed outlen n])) =
        take fr (HM K V) @ take (n - fr) (concat (map (\<lambda>i. (HM K ^^ (i + 1)) (HM K V)) [0..<blocks_needed outlen (n - fr)]))"
      using take_blocks [OF digest_pos _ _ fr_def, of "\<lambda>i. (HM K ^^ (i + 1)) V"] False by (simp add: funpow_swap1)
    have iter: "(HM K ^^ blocks_needed outlen n) V = (HM K ^^ blocks_needed outlen (n - fr)) (HM K V)"
      using blocks_needed_step [OF digest_pos, of n] False by (simp add: fr_def funpow_swap1)
    show ?thesis
      using less.IH [OF lt st1(2,4), of "data @ take fr (HM K V)"] False st1(1,3) frag out iter
      by (subst hmac_drbg_output.simps) (simp add: fr_def [symmetric] Let_def)
  qed
qed

lemma reseed_refines:
  assumes "valid (hc_ctx h)" and "drbg_room st"
  shows "drbg_refines (hmac_drbg_reseed alg h entropy additional st) 1 (DRBG_Update HM (entropy @ additional) (drbg_abs st))"
  using update_refines [OF assms, of "entropy @ additional"]
  by (auto simp: drbg_refines_def hmac_drbg_reseed_def drbg_room_def drbg_abs_def)

lemma instantiate_refines:
  assumes "valid (hc_ctx h)" and "drbg_room st"
  shows "drbg_refines (hmac_drbg_instantiate alg h entropy personal st) 1 (DRBG_Instantiate HM outlen (entropy @ personal))"
proof -
  let ?st = "st\<lparr>drbg_key := memcpy_to (drbg_key st) (replicate outlen 0), drbg_value := memcpy_to (drbg_value st) (replicate outlen 1)\<rparr>"
  have "drbg_room ?st" "drbg_abs ?st = (replicate outlen 0, replicate outlen 1)"
    using assms(2) by (auto simp: drbg_room_def drbg_abs_def memcpy_to_def)
  then show ?thesis
    using reseed_refines [OF assms(1), of ?st entropy personal] by (simp add: hmac_drbg_instantiate_def DRBG_Instantiate_def Let_def)
qed

lemma generate_refines:
  assumes "valid (hc_ctx h)" and "drbg_room st" and "reseed_counter st \<le> HMAC_DRBG_RESEED_INTERVAL"
    and spec: "DRBG_Generate HM outlen additional n (drbg_abs st) = (s', data)"
  shows "\<exists>st'. hmac_drbg_generate alg h additional n st = Some (st', Inr data) \<and> drbg_refines (Some st') (reseed_counter st + 1) s'"
proof -
  obtain st1 where st1: "(if length additional \<noteq> 0 then hmac_drbg_update alg h additional st else Some st) = Some st1" "drbg_room st1"
    "reseed_counter st1 = reseed_counter st"
    "drbg_abs st1 = (if additional = [] then drbg_abs st else DRBG_Update HM additional (drbg_abs st))"
    using update_refines [OF assms(1,2), of additional] assms(2) by (cases "additional = []") (auto simp: drbg_refines_def)
  obtain K V where KV: "drbg_abs st1 = (K, V)" by fastforce
  obtain st2 where st2: "hmac_drbg_output alg h n st1 [] = Some (st2, take n (concat (map (\<lambda>i. (HM K ^^ (i + 1)) V) [0..<blocks_needed outlen n])))"
    "drbg_room st2" "reseed_counter st2 = reseed_counter st" "drbg_abs st2 = (K, (HM K ^^ blocks_needed outlen n) V)"
    using output_refines [OF assms(1) st1(2) KV, of n "[]"] st1(3) by (auto simp: drbg_refines_def)
  obtain st3 where st3: "hmac_drbg_update alg h additional st2 = Some st3" "drbg_room st3" "reseed_counter st3 = reseed_counter st"
    "drbg_abs st3 = DRBG_Update HM additional (drbg_abs st2)"
    using update_refines [OF assms(1) st2(2), of additional] st2(3) by (auto simp: drbg_refines_def)
  have s: "s' = drbg_abs st3" "data = take n (concat (map (\<lambda>i. (HM K ^^ (i + 1)) V) [0..<blocks_needed outlen n]))"
    using spec KV st1(4) st2(4) st3(4) by (simp_all add: DRBG_Generate_def Let_def split: prod.splits)
  have "hmac_drbg_generate alg h additional n st = Some (st3\<lparr>reseed_counter := reseed_counter st3 + 1\<rparr>, Inr data)"
    using assms(3) st1(1) st2(1) st3(1) s(2) by (simp add: hmac_drbg_generate_def not_less [symmetric])
  then show ?thesis using st3 s(1) by (simp add: drbg_refines_def drbg_room_def drbg_abs_def)
qed

lemma generate_stale: "HMAC_DRBG_RESEED_INTERVAL < reseed_counter st \<Longrightarrow> hmac_drbg_generate alg h additional n st = Some (st, Inl ESTALE)"
  by (simp add: hmac_drbg_generate_def)

end

section \<open>Properties\<close>

text \<open>The digests that the code is configured with, by their standards.\<close>

definition SHA256 :: "bytes \<Rightarrow> bytes" where
  "SHA256 = sha256_spec [0x6a09e667, 0xbb67ae85, 0x3c6ef372, 0xa54ff53a, 0x510e527f, 0x9b05688c, 0x1f83d9ab, 0x5be0cd19] 32"

lemma SHA256_eq: "sha256_spec (map bswap_32 sha256_init_digest) 32 = SHA256"
  by (simp only: SHA256_def sha2_initial_values)

lemma algorithm_sizes:
  "da_blocksize sha256_algorithm = 64" "da_digestsize sha256_algorithm = 32" "da_blocksize sha1_algorithm = 64" "da_digestsize sha1_algorithm = 20"
  by (simp_all add: sha256_algorithm_def sha1_algorithm_def)

text \<open>
  Claim C8. Keyed hashing with SHA-256 and with SHA-1, of data in any number of updates, gives the
  HMAC of RFC 2104 with a key of any length, and leaves no trace of the key in the pad.
\<close>

theorem hmac_correct:
  assumes "length (ctx_data (hc_ctx h)) = 64" and "length (ctx_data (hc_ctx g)) = 64"
  shows "(\<exists>h' h''. hmac_init sha256_algorithm key h = Some h'
      \<and> hmac_final sha256_algorithm (fold (hmac_update sha256_algorithm) chunks h') = Some (h'', HMAC SHA256 64 key (concat chunks))
      \<and> set (hc_pad h'') \<subseteq> {0})
    \<and> (\<exists>g' g''. hmac_init sha1_algorithm key g = Some g'
      \<and> hmac_final sha1_algorithm (fold (hmac_update sha1_algorithm) chunks g') = Some (g'', HMAC sha1_spec 64 key (concat chunks))
      \<and> set (hc_pad g'') \<subseteq> {0})"
  using sha256a.hmac_chunks [OF assms(1), of key chunks] sha1a.hmac_chunks [OF assms(2), of key chunks]
  by (simp add: SHA256_eq algorithm_sizes)

theorem hmac_correct_witness:
  "\<exists>h' h''. hmac_init sha256_algorithm (replicate 100 0xaa) \<lparr>hc_ctx = \<lparr>ctx_len = 0, ctx_h = [], ctx_data = replicate 64 0, digestsize = 0\<rparr>,
       hc_pad = []\<rparr> = Some h'
     \<and> hmac_final sha256_algorithm (hmac_update sha256_algorithm [1, 2, 3] h') = Some (h'', HMAC SHA256 64 (replicate 100 0xaa) [1, 2, 3])"
  using hmac_correct [of "\<lparr>hc_ctx = \<lparr>ctx_len = 0, ctx_h = [], ctx_data = replicate 64 0, digestsize = 0\<rparr>, hc_pad = []\<rparr>"
    "\<lparr>hc_ctx = \<lparr>ctx_len = 0, ctx_h = [], ctx_data = replicate 64 0\<rparr>, hc_pad = []\<rparr>" "replicate 100 0xaa" "[[1, 2, 3]]"]
  by auto

end
