(* ===== verification/Entropy.thy ===== *)
theory Entropy
  imports Hmac "HOL-Library.Sublist"
begin

text \<open>
  Entropy gathering (crypto/entropy.c, include/ipxe/entropy.h): the continuous health tests of the
  noise samples, the startup tests, the choice of a source and the entropy input for the generator.
  The hardware behind the methods of a source is the state of type \<open>'w\<close>; a method that enables a
  source ends with a call of \<open>entropy_init\<close>, so that its result is the min-entropy it passes.
\<close>

section \<open>Model\<close>

subsection \<open>Sources\<close>

record entropy_repetition_count_test =
  most_recent_sample :: u8
  rct_repetition_count :: u32
  rct_cutoff :: u32

record entropy_adaptive_proportion_test =
  current_counted_sample :: u8
  apt_sample_count :: u32
  apt_repetition_count :: u32
  apt_cutoff :: u32

record entropy_startup_test =
  startup_tested :: u32
  startup_count :: u32

record 'w entropy_source =
  min_entropy_per_sample :: u32
  es_repetition_count_test :: entropy_repetition_count_test
  es_adaptive_proportion_test :: entropy_adaptive_proportion_test
  es_startup_test :: entropy_startup_test
  es_rc :: "errno option"
  es_enable :: "'w \<Rightarrow> 'w \<times> u32 result"
  es_disable :: "('w \<Rightarrow> 'w) option"
  es_get_noise :: "'w \<Rightarrow> 'w \<times> u8 result"

definition MIN_ENTROPY_SCALE :: u32 where
  "MIN_ENTROPY_SCALE = push_bit 16 1"

definition MIN_ENTROPY :: "u32 \<Rightarrow> u32" where
  "MIN_ENTROPY bits = bits * MIN_ENTROPY_SCALE"

definition ADAPTIVE_PROPORTION_WINDOW_SIZE :: u32 where
  "ADAPTIVE_PROPORTION_WINDOW_SIZE = 64"

subsection \<open>Cutoff values\<close>

definition entropy_repetition_count_cutoff :: "u32 \<Rightarrow> u32" where
  "entropy_repetition_count_cutoff min_entropy =
     (let max_repetitions = 1 + MIN_ENTROPY 30 div min_entropy;
          cutoff = max_repetitions
      in if cutoff < max_repetitions then cutoff + 1 else cutoff)"

definition apc_windows :: "u32 list" where
  "apc_windows = [16, 64, 256, 4096, 65536]"

definition apc_table :: "(u32 \<times> u32 list) list" where
  "apc_table =
     [( 1, [ 0, 51, 168, 2240, 33537]),
      ( 2, [ 0, 35, 100, 1193, 17053]),
      ( 3, [10, 24,  61,  643,  8705]),
      ( 4, [ 8, 16,  38,  354,  4473]),
      ( 5, [ 6, 12,  25,  200,  2321]),
      ( 6, [ 5,  9,  17,  117,  1220]),
      ( 7, [ 4,  7,  15,   71,   653]),
      ( 8, [ 4,  5,   9,   45,   358]),
      ( 9, [ 3,  4,   7,   30,   202]),
      (10, [ 3,  4,   5,   21,   118]),
      (11, [ 2,  3,   4,   15,    71]),
      (12, [ 2,  3,   4,   11,    45]),
      (13, [ 2,  2,   3,    9,    30]),
      (14, [ 2,  2,   3,    7,    21]),
      (15, [ 1,  2,   2,    6,    15]),
      (16, [ 1,  2,   2,    5,    11]),
      (17, [ 1,  1,   2,    4,     9]),
      (18, [ 1,  1,   2,    4,     7]),
      (19, [ 1,  1,   1,    3,     6]),
      (20, [ 1,  1,   1,    3,     5])]"

definition entropy_adaptive_proportion_cutoff_lookup :: "u32 \<Rightarrow> u32 \<Rightarrow> u32" where
  "entropy_adaptive_proportion_cutoff_lookup n h =
     (case map_of apc_table h of
        None \<Rightarrow> 0
      | Some row \<Rightarrow> (case map_of (zip apc_windows row) n of None \<Rightarrow> 0 | Some cutoff \<Rightarrow> cutoff))"

definition entropy_adaptive_proportion_cutoff :: "u32 \<Rightarrow> u32" where
  "entropy_adaptive_proportion_cutoff min_entropy =
     entropy_adaptive_proportion_cutoff_lookup ADAPTIVE_PROPORTION_WINDOW_SIZE (min_entropy div MIN_ENTROPY_SCALE)"

definition entropy_startup_test_count :: "u32 \<Rightarrow> u32 \<Rightarrow> u32" where
  "entropy_startup_test_count repetition_count_cutoff adaptive_proportion_cutoff =
     (let num_samples = repetition_count_cutoff
      in if num_samples < adaptive_proportion_cutoff then adaptive_proportion_cutoff else num_samples)"

definition entropy_init :: "u32 \<Rightarrow> 'w entropy_source \<Rightarrow> 'w entropy_source" where
  "entropy_init min_entropy source =
     (let repetition_count_cutoff = entropy_repetition_count_cutoff min_entropy;
          adaptive_proportion_cutoff = entropy_adaptive_proportion_cutoff min_entropy;
          startup_test_count = entropy_startup_test_count repetition_count_cutoff adaptive_proportion_cutoff
      in source\<lparr>min_entropy_per_sample := min_entropy,
           es_repetition_count_test := (es_repetition_count_test source)\<lparr>rct_cutoff := repetition_count_cutoff\<rparr>,
           es_adaptive_proportion_test := (es_adaptive_proportion_test source)\<lparr>apt_cutoff := adaptive_proportion_cutoff\<rparr>,
           es_startup_test := (es_startup_test source)\<lparr>startup_count := startup_test_count\<rparr>\<rparr>)"

subsection \<open>Continuous tests\<close>

definition repetition_count_test :: "'w entropy_source \<Rightarrow> u8 \<Rightarrow> 'w entropy_source \<times> unit result" where
  "repetition_count_test source sample =
     (let test = es_repetition_count_test source
      in if sample = most_recent_sample test \<and> rct_repetition_count test > 0 then
           let test = test\<lparr>rct_repetition_count := rct_repetition_count test + 1\<rparr>;
               source = source\<lparr>es_repetition_count_test := test\<rparr>
           in if rct_repetition_count test \<ge> rct_cutoff test then (source, Inl EPIPE_REPETITION_COUNT_TEST)
              else (source, Inr ())
         else (source\<lparr>es_repetition_count_test := test\<lparr>most_recent_sample := sample, rct_repetition_count := 1\<rparr>\<rparr>, Inr ()))"

definition adaptive_proportion_test_init :: "'w entropy_source \<Rightarrow> 'w entropy_source" where
  "adaptive_proportion_test_init source = source\<lparr>es_adaptive_proportion_test :=
     (es_adaptive_proportion_test source)\<lparr>apt_sample_count := ADAPTIVE_PROPORTION_WINDOW_SIZE\<rparr>\<rparr>"

definition adaptive_proportion_test :: "'w entropy_source \<Rightarrow> u8 \<Rightarrow> 'w entropy_source \<times> unit result" where
  "adaptive_proportion_test source sample =
     (let test = es_adaptive_proportion_test source
      in if apt_sample_count test = ADAPTIVE_PROPORTION_WINDOW_SIZE then
           (source\<lparr>es_adaptive_proportion_test :=
              test\<lparr>current_counted_sample := sample, apt_sample_count := 0, apt_repetition_count := 0\<rparr>\<rparr>, Inr ())
         else
           let test = test\<lparr>apt_sample_count := apt_sample_count test + 1\<rparr>
           in if sample = current_counted_sample test then
                let test = test\<lparr>apt_repetition_count := apt_repetition_count test + 1\<rparr>;
                    source = source\<lparr>es_adaptive_proportion_test := test\<rparr>
                in if apt_repetition_count test > apt_cutoff test then (source, Inl EPIPE_ADAPTIVE_PROPORTION_TEST)
                   else (source, Inr ())
              else (source\<lparr>es_adaptive_proportion_test := test\<rparr>, Inr ()))"

definition get_entropy :: "'w entropy_source \<Rightarrow> 'w \<Rightarrow> 'w entropy_source \<times> 'w \<times> u8 result" where
  "get_entropy source w =
     (case es_rc source of
        Some rc \<Rightarrow> (source, w, Inl rc)
      | None \<Rightarrow>
          (case es_get_noise source w of
             (w, Inl rc) \<Rightarrow> (source\<lparr>es_rc := Some rc\<rparr>, w, Inl rc)
           | (w, Inr noise) \<Rightarrow>
               (case repetition_count_test source noise of
                  (source, Inl rc) \<Rightarrow> (source\<lparr>es_rc := Some rc\<rparr>, w, Inl rc)
                | (source, Inr _) \<Rightarrow>
                    (case adaptive_proportion_test source noise of
                       (source, Inl rc) \<Rightarrow> (source\<lparr>es_rc := Some rc\<rparr>, w, Inl rc)
                     | (source, Inr _) \<Rightarrow> (source, w, Inr noise)))))"

text \<open>What the tests leave alone.\<close>

lemma repetition_count_test_keeps:
  assumes "repetition_count_test source x = (source', r)"
  shows "min_entropy_per_sample source' = min_entropy_per_sample source \<and> es_startup_test source' = es_startup_test source \<and> es_rc source' = es_rc source \<and> es_enable source' = es_enable source \<and> es_disable source' = es_disable source \<and> es_get_noise source' = es_get_noise source \<and> es_adaptive_proportion_test source' = es_adaptive_proportion_test source"
  using assms by (auto simp: repetition_count_test_def Let_def split: if_splits)

lemma adaptive_proportion_test_keeps:
  assumes "adaptive_proportion_test source x = (source', r)"
  shows "min_entropy_per_sample source' = min_entropy_per_sample source \<and> es_startup_test source' = es_startup_test source \<and> es_rc source' = es_rc source \<and> es_enable source' = es_enable source \<and> es_disable source' = es_disable source \<and> es_get_noise source' = es_get_noise source \<and> es_repetition_count_test source' = es_repetition_count_test source"
  using assms by (auto simp: adaptive_proportion_test_def Let_def split: if_splits)

lemma get_entropy_cases:
  assumes "get_entropy source w = (source', w', r)"
  obtains (broken) rc where "es_rc source = Some rc" "source' = source" "w' = w" "r = Inl rc"
    | (no_noise) rc where "es_rc source = None" "es_get_noise source w = (w', Inl rc)" "source' = source\<lparr>es_rc := Some rc\<rparr>" "r = Inl rc"
    | (repeated) x source1 rc where "es_rc source = None" "es_get_noise source w = (w', Inr x)"
        "repetition_count_test source x = (source1, Inl rc)" "source' = source1\<lparr>es_rc := Some rc\<rparr>" "r = Inl rc"
    | (frequent) x source1 source2 rc where "es_rc source = None" "es_get_noise source w = (w', Inr x)"
        "repetition_count_test source x = (source1, Inr ())" "adaptive_proportion_test source1 x = (source2, Inl rc)"
        "source' = source2\<lparr>es_rc := Some rc\<rparr>" "r = Inl rc"
    | (sample) x source1 where "es_rc source = None" "es_get_noise source w = (w', Inr x)"
        "repetition_count_test source x = (source1, Inr ())" "adaptive_proportion_test source1 x = (source', Inr ())" "r = Inr x"
  using assms unfolding get_entropy_def
  by (simp split: option.split_asm sum.split_asm prod.split_asm)

lemma get_entropy_keeps:
  assumes "get_entropy source w = (source', w', r)"
  shows "min_entropy_per_sample source' = min_entropy_per_sample source \<and> es_startup_test source' = es_startup_test source \<and> es_enable source' = es_enable source \<and> es_disable source' = es_disable source \<and> es_get_noise source' = es_get_noise source"
  using assms
proof (cases rule: get_entropy_cases)
  case repeated
  then show ?thesis using repetition_count_test_keeps [OF repeated(3)] by simp
next
  case frequent
  then show ?thesis using repetition_count_test_keeps [OF frequent(3)] adaptive_proportion_test_keeps [OF frequent(4)] by simp
next
  case sample
  then show ?thesis using repetition_count_test_keeps [OF sample(3)] adaptive_proportion_test_keeps [OF sample(4)] by simp
qed simp_all

subsection \<open>Startup\<close>

lemma unat_next: "x < y \<Longrightarrow> unat (x + 1) = Suc (unat x) \<and> unat x < unat y" for x y :: u32
  using unat_add_no_wrap [of x 1] unat_u32_less [of y] by (simp add: word_less_nat_alt)

lemma startup_progress: "x < y \<Longrightarrow> unat y - unat (x + 1) < unat y - unat x" for x y :: u32
  using unat_next [of x y] by linarith

function startup_test :: "'w entropy_source \<Rightarrow> 'w \<Rightarrow> 'w entropy_source \<times> 'w \<times> unit result" where
  "startup_test source w =
     (if startup_tested (es_startup_test source) < startup_count (es_startup_test source) then
        (case get_entropy source w of
           (source, w, Inl rc) \<Rightarrow> (source, w, Inl rc)
         | (source, w, Inr sample) \<Rightarrow>
             startup_test (source\<lparr>es_startup_test := (es_startup_test source)\<lparr>
               startup_tested := startup_tested (es_startup_test source) + 1\<rparr>\<rparr>) w)
      else (source, w, Inr ()))"
  by pat_completeness auto

termination
  by (relation "measure (\<lambda>(source, w). unat (startup_count (es_startup_test source)) - unat (startup_tested (es_startup_test source)))")
    (auto dest!: get_entropy_keeps [OF sym] simp: startup_progress)

declare startup_test.simps [simp del]

definition entropy_enable :: "'w entropy_source \<Rightarrow> 'w \<Rightarrow> 'w entropy_source \<times> 'w \<times> unit result" where
  "entropy_enable source w =
     (case es_rc source of
        Some rc \<Rightarrow> (source, w, Inl rc)
      | None \<Rightarrow>
          (case es_enable source w of
             (w, Inl rc) \<Rightarrow> (source\<lparr>es_rc := Some rc\<rparr>, w, Inl rc)
           | (w, Inr min_entropy) \<Rightarrow>
               let source = entropy_init min_entropy source;
                   source = (if startup_tested (es_startup_test source) = 0 then adaptive_proportion_test_init source else source)
               in (source, w, Inr ())))"

definition entropy_disable :: "'w entropy_source \<Rightarrow> 'w \<Rightarrow> 'w" where
  "entropy_disable source w = (case es_disable source of None \<Rightarrow> w | Some disable \<Rightarrow> disable w)"

definition entropy_enable_and_test :: "'w entropy_source \<Rightarrow> 'w \<Rightarrow> 'w entropy_source \<times> 'w \<times> unit result" where
  "entropy_enable_and_test source w =
     (case entropy_enable source w of
        (source, w, Inl rc) \<Rightarrow> (source, w, Inl rc)
      | (source, w, Inr _) \<Rightarrow>
          (case startup_test source w of
             (source, w, Inl rc) \<Rightarrow> (source, entropy_disable source w, Inl rc)
           | (source, w, Inr _) \<Rightarrow> (source, w, Inr ())))"

text \<open>The table of sources is searched in its order; the result is the place of the source.\<close>

fun entropy_enable_from :: "errno \<Rightarrow> 'w entropy_source list \<Rightarrow> 'w \<Rightarrow> 'w entropy_source list \<times> 'w \<times> nat result" where
  "entropy_enable_from rc [] w = ([], w, Inl rc)"
| "entropy_enable_from rc (source # sources) w =
     (case entropy_enable_and_test source w of
        (source, w, Inr _) \<Rightarrow> (source # sources, w, Inr 0)
      | (source, w, Inl rc) \<Rightarrow>
          (case entropy_enable_from rc sources w of
             (sources, w, r) \<Rightarrow> (source # sources, w, map_sum id Suc r)))"

definition entropy_enable_working :: "'w entropy_source list \<Rightarrow> 'w \<Rightarrow> 'w entropy_source list \<times> 'w \<times> nat result" where
  "entropy_enable_working sources w = entropy_enable_from ENOENT sources w"

subsection \<open>Entropy input\<close>

record 'w entropy_state =
  ent_sources :: "'w entropy_source list"
  ent_nonce :: u32
  ent_world :: 'w

definition make_next_nonce :: "u32 \<Rightarrow> u32 \<times> u32" where
  "make_next_nonce nonce = (let nonce = nonce + 1 in (nonce, nonce))"

text \<open>The loop that condenses samples, with a context of the digest on the stack.\<close>

partial_function (option) gather_entropy ::
  "u32 sha2_context \<Rightarrow> u32 \<Rightarrow> u32 \<Rightarrow> bytes \<Rightarrow> 'w entropy_source \<Rightarrow> u32 \<Rightarrow> 'w
    \<Rightarrow> ('w entropy_source \<times> u32 \<times> 'w \<times> bytes result) option" where
  "gather_entropy context min_entropy entropy_total tmp source nonce w =
     (if entropy_total < min_entropy then
        (case get_entropy source w of
           (source, w, Inl rc) \<Rightarrow> Some (source, nonce, w, Inl rc)
         | (source, w, Inr sample) \<Rightarrow>
             (case make_next_nonce nonce of
                (nonce, data_nonce) \<Rightarrow>
                  (case hash_df sha256_algorithm context (bytes_u32 data_nonce @ [sample]) (length tmp) of
                     None \<Rightarrow> None
                   | Some df_buf \<Rightarrow>
                       gather_entropy context min_entropy (entropy_total + min_entropy_per_sample source)
                         (map2 (XOR) tmp df_buf) source nonce w)))
      else Some (source, nonce, w, Inr tmp))"

declare gather_entropy.simps [code]

definition get_entropy_input_tmp ::
  "u32 sha2_context \<Rightarrow> u32 \<Rightarrow> nat \<Rightarrow> 'w entropy_state \<Rightarrow> ('w entropy_state \<times> bytes result) option" where
  "get_entropy_input_tmp context min_entropy tmp_len st =
     (case entropy_enable_working (ent_sources st) (ent_world st) of
        (sources, w, Inl rc) \<Rightarrow> Some (st\<lparr>ent_sources := sources, ent_world := w\<rparr>, Inl rc)
      | (sources, w, Inr i) \<Rightarrow>
          (case gather_entropy context min_entropy (MIN_ENTROPY 0) (replicate tmp_len 0) (sources ! i) (ent_nonce st) w of
             None \<Rightarrow> None
           | Some (source, nonce, w, r) \<Rightarrow>
               Some (\<lparr>ent_sources = sources[i := source], ent_nonce = nonce, ent_world = entropy_disable source w\<rparr>, r)))"

definition get_entropy_input ::
  "u32 sha2_context \<Rightarrow> u32 \<Rightarrow> nat \<Rightarrow> nat \<Rightarrow> 'w entropy_state \<Rightarrow> ('w entropy_state \<times> bytes result) option" where
  "get_entropy_input context min_entropy_bits min_len max_len st =
     (let tmp_len = unat ((min_entropy_bits * 2 + 7) div 8);
          min_entropy_bits = (min_entropy_bits + 7) AND NOT 7
      in case get_entropy_input_tmp context (MIN_ENTROPY min_entropy_bits) tmp_len st of
           None \<Rightarrow> None
         | Some (st, Inl rc) \<Rightarrow> Some (st, Inl rc)
         | Some (st, Inr tmp) \<Rightarrow>
             if tmp_len < min_len then Some (st, Inr (tmp @ replicate (min_len - tmp_len) 0))
             else if tmp_len > max_len then
               (case hash_df sha256_algorithm context tmp max_len of
                  None \<Rightarrow> None
                | Some data \<Rightarrow> Some (st, Inr data))
             else Some (st, Inr tmp))"

section \<open>Health tests\<close>

text \<open>
  What the tests demand of the samples: no value is repeated as often as the cutoff in a row, and
  in no window of 65 samples is the first one seen again more often than the cutoff.
\<close>

definition no_long_run :: "nat \<Rightarrow> u8 list \<Rightarrow> bool" where
  "no_long_run c ys \<longleftrightarrow> (\<forall>x\<in>set ys. \<not> sublist (replicate c x) ys)"

fun windows :: "'a list \<Rightarrow> 'a list list" where
  "windows [] = []"
| "windows (x # xs) = (x # take 64 xs) # windows (drop 64 xs)"

definition proportion_ok :: "nat \<Rightarrow> u8 list \<Rightarrow> bool" where
  "proportion_ok c ys \<longleftrightarrow> (\<forall>win\<in>set (windows ys). count_list (tl win) (hd win) \<le> c)"

definition healthy :: "'w entropy_source \<Rightarrow> u8 list \<Rightarrow> bool" where
  "healthy source ys \<longleftrightarrow> no_long_run (unat (rct_cutoff (es_repetition_count_test source))) ys
     \<and> proportion_ok (unat (apt_cutoff (es_adaptive_proportion_test source))) ys"

text \<open>The run of equal samples that ends a sequence.\<close>

definition last_run :: "u8 list \<Rightarrow> nat" where
  "last_run ys = (case rev ys of [] \<Rightarrow> 0 | x # zs \<Rightarrow> length (takeWhile ((=) x) (x # zs)))"

lemma prefix_replicate: "prefix (replicate c x) zs \<longleftrightarrow> c \<le> length (takeWhile ((=) x) zs)"
proof (induction c arbitrary: zs)
  case (Suc c)
  then show ?case by (cases zs) auto
qed simp

lemma no_long_run_snoc:
  assumes "0 < c"
  shows "no_long_run c (ys @ [x]) \<longleftrightarrow> no_long_run c ys \<and> last_run (ys @ [x]) < c"
proof -
  have r: "sublist (replicate c z) l \<longleftrightarrow> sublist (replicate c z) (rev l)" for z and l :: "u8 list"
    using sublist_rev [of "replicate c z" l] by simp
  have mem: "z \<in> set l" if "sublist (replicate c z) l" for z and l :: "u8 list"
    using set_mono_sublist [OF that] assms by auto
  have all: "no_long_run c l \<longleftrightarrow> (\<forall>z. \<not> sublist (replicate c z) (rev l))" for l
    using mem r by (auto simp: no_long_run_def)
  have "prefix (replicate c z) (x # rev ys) \<Longrightarrow> z = x" for z using assms by (cases c) auto
  then have p: "(\<exists>z. prefix (replicate c z) (x # rev ys)) \<longleftrightarrow> c \<le> last_run (ys @ [x])"
    unfolding last_run_def by (auto simp only: prefix_replicate rev_append rev.simps append.simps list.case)
  have "(\<exists>z. sublist (replicate c z) (rev (ys @ [x]))) \<longleftrightarrow> (\<exists>z. prefix (replicate c z) (x # rev ys)) \<or> (\<exists>z. sublist (replicate c z) (rev ys))"
    by (auto simp: sublist_Cons_right)
  then show ?thesis unfolding all using p by (meson not_le)
qed

lemma last_run_snoc: "last_run (ys @ [x]) = (if ys \<noteq> [] \<and> last ys = x then last_run ys + 1 else 1)"
  by (cases ys rule: rev_cases) (auto simp: last_run_def)

lemma windows_snoc:
  "windows (ys @ [x]) = (if length ys mod 65 = 0 then windows ys @ [[x]] else butlast (windows ys) @ [last (windows ys) @ [x]])
   \<and> (ys \<noteq> [] \<longrightarrow> windows ys \<noteq> [] \<and> last (windows ys) \<noteq> [] \<and> length (last (windows ys)) = (length ys - 1) mod 65 + 1)"
proof (induction ys rule: windows.induct)
  case (2 y ys)
  show ?case
  proof (cases "length ys < 64")
    case True
    then show ?thesis by (simp add: take_Suc_nth)
  next
    case False
    have n: "length ys = length (drop 64 ys) + 64" using False by simp
    have m: "Suc (length ys) mod 65 = length (drop 64 ys) mod 65" unfolding n by simp
    show ?thesis
    proof (cases "drop 64 ys = []")
      case True
      then have "length ys = 64" using False by simp
      then show ?thesis using 2 True by simp
    next
      case ne: False
      have l: "length ys mod 65 = (length (drop 64 ys) - 1) mod 65"
      proof -
        have "length ys = (length (drop 64 ys) - 1) + 65" using n ne by (cases "drop 64 ys") simp_all
        then have "length ys mod 65 = (length (drop 64 ys) - 1 + 65) mod 65" by (rule arg_cong)
        then show ?thesis unfolding mod_add_self2 .
      qed
      have c: "(y # ys) @ [x] = y # (ys @ [x])" "drop 64 (ys @ [x]) = drop 64 ys @ [x]" "take 64 (ys @ [x]) = take 64 ys" using False by simp_all
      show ?thesis using 2 ne m l by (auto simp: c butlast_append)
    qed
  qed
qed simp

lemma no_long_run_last: "no_long_run c ys \<Longrightarrow> 0 < c \<Longrightarrow> last_run ys < c"
  using no_long_run_snoc by (cases ys rule: rev_cases) (auto simp: last_run_def)

lemma proportion_ok_snoc:
  "proportion_ok c (ys @ [x]) \<longleftrightarrow> proportion_ok c ys
     \<and> (length ys mod 65 \<noteq> 0 \<longrightarrow> count_list (tl (last (windows ys)) @ [x]) (hd (last (windows ys))) \<le> c)"
proof (cases "length ys mod 65 = 0")
  case True
  then show ?thesis using windows_snoc [of ys x] by (simp add: proportion_ok_def)
next
  case False
  then have "ys \<noteq> []" by auto
  then obtain ws w where w: "windows ys = ws @ [w]" "w \<noteq> []"
    using windows_snoc [of ys x] by (cases "windows ys" rule: rev_cases) auto
  then show ?thesis using windows_snoc [of ys x] False by (auto simp: proportion_ok_def)
qed

text \<open>The state of the tests after the samples, newest last.\<close>

definition rct_state :: "entropy_repetition_count_test \<Rightarrow> u8 list \<Rightarrow> bool" where
  "rct_state t ys \<longleftrightarrow> unat (rct_repetition_count t) = last_run ys \<and> (ys \<noteq> [] \<longrightarrow> most_recent_sample t = last ys)"

definition apt_state :: "entropy_adaptive_proportion_test \<Rightarrow> u8 list \<Rightarrow> bool" where
  "apt_state t ys \<longleftrightarrow>
     (if length ys mod 65 = 0 then apt_sample_count t = 64
      else current_counted_sample t = hd (last (windows ys)) \<and> unat (apt_sample_count t) = length ys mod 65 - 1
        \<and> unat (apt_repetition_count t) = count_list (tl (last (windows ys))) (hd (last (windows ys))))"

lemma repetition_count_test_step:
  assumes "rct_state (es_repetition_count_test s) ys" and "no_long_run c ys" and c: "c = unat (rct_cutoff (es_repetition_count_test s))"
    and "2 \<le> c" and t: "repetition_count_test s x = (s', r)"
  shows "rct_state (es_repetition_count_test s') (ys @ [x])" and "rct_cutoff (es_repetition_count_test s') = rct_cutoff (es_repetition_count_test s)"
    and "r = (if no_long_run c (ys @ [x]) then Inr () else Inl EPIPE_REPETITION_COUNT_TEST)"
proof -
  let ?t = "es_repetition_count_test s"
  have l: "last_run ys < c" using no_long_run_last [OF assms(2)] assms(4) by simp
  have cnt: "unat (rct_repetition_count ?t) = last_run ys" using assms(1) by (simp add: rct_state_def)
  have ru: "last_run (ys @ [x]) = (if x = most_recent_sample ?t \<and> 0 < rct_repetition_count ?t then last_run ys + 1 else 1)"
    using assms(1) last_run_snoc [of ys x] by (cases ys rule: rev_cases) (auto simp: rct_state_def last_run_def word_less_nat_alt unat_eq_0)
  have p: "unat (rct_repetition_count ?t + 1) = last_run ys + 1"
    using unat_next [of "rct_repetition_count ?t" "rct_cutoff ?t"] l cnt c by (simp add: word_less_nat_alt)
  have g: "rct_cutoff ?t \<le> rct_repetition_count ?t + 1 \<longleftrightarrow> c \<le> last_run ys + 1"
    unfolding word_le_nat_alt p c ..
  have ok: "no_long_run c (ys @ [x]) \<longleftrightarrow> last_run (ys @ [x]) < c" using no_long_run_snoc [of c ys x] assms(2,4) by simp
  show "rct_state (es_repetition_count_test s') (ys @ [x])" "rct_cutoff (es_repetition_count_test s') = rct_cutoff ?t"
    "r = (if no_long_run c (ys @ [x]) then Inr () else Inl EPIPE_REPETITION_COUNT_TEST)"
    using t ru p g assms(4) unfolding ok
    by (auto simp: repetition_count_test_def rct_state_def Let_def split: if_splits)
qed

lemma adaptive_proportion_test_step:
  assumes "apt_state (es_adaptive_proportion_test s) ys" and "proportion_ok c ys"
    and c: "c = unat (apt_cutoff (es_adaptive_proportion_test s))" and t: "adaptive_proportion_test s x = (s', r)"
  shows "apt_state (es_adaptive_proportion_test s') (ys @ [x])" and "apt_cutoff (es_adaptive_proportion_test s') = apt_cutoff (es_adaptive_proportion_test s)"
    and "r = (if proportion_ok c (ys @ [x]) then Inr () else Inl EPIPE_ADAPTIVE_PROPORTION_TEST)"
proof -
  let ?t = "es_adaptive_proportion_test s"
  have "apt_state (es_adaptive_proportion_test s') (ys @ [x]) \<and> apt_cutoff (es_adaptive_proportion_test s') = apt_cutoff ?t
    \<and> r = (if proportion_ok c (ys @ [x]) then Inr () else Inl EPIPE_ADAPTIVE_PROPORTION_TEST)"
  proof (cases "length ys mod 65 = 0")
    case True
    have "last (windows (ys @ [x])) = [x]" "Suc (length ys) mod 65 = 1" using windows_snoc [of ys x] True by (auto simp: mod_Suc)
    then show ?thesis
      using t True assms(1,2) proportion_ok_snoc [of c ys x]
      by (auto simp: adaptive_proportion_test_def apt_state_def ADAPTIVE_PROPORTION_WINDOW_SIZE_def)
  next
    case False
    define m where "m = length ys mod 65"
    define w where "w = last (windows ys)"
    have m: "0 < m" "m < 65" using False by (simp_all add: m_def)
    have "ys \<noteq> []" using False by auto
    then have lw: "length w = m" "w \<noteq> []"
      using windows_snoc [of ys x] m mod_Suc [of "length ys - 1" 65] by (auto simp: w_def m_def)
    have w': "last (windows (ys @ [x])) = w @ [x]" using windows_snoc [of ys x] False by (simp add: w_def)
    have st: "current_counted_sample ?t = hd w" "unat (apt_sample_count ?t) = m - 1" "unat (apt_repetition_count ?t) = count_list (tl w) (hd w)"
      using assms(1) False by (simp_all add: apt_state_def m_def w_def)
    have "count_list (tl w) (hd w) \<le> 64" using count_le_length [of "tl w" "hd w"] lw m by simp
    then have n: "unat (apt_sample_count ?t + 1) = m" "unat (apt_repetition_count ?t + 1) = count_list (tl w) (hd w) + 1"
      using st m by (simp_all add: unat_add_no_wrap)
    have ne: "apt_sample_count ?t \<noteq> 64" using st(2) m by auto
    have ok: "proportion_ok c (ys @ [x]) \<longleftrightarrow> count_list (tl w @ [x]) (hd w) \<le> c"
      using proportion_ok_snoc [of c ys x] assms(2) False by (simp add: w_def)
    have t': "es_adaptive_proportion_test s' = ?t\<lparr>apt_sample_count := apt_sample_count ?t + 1,
          apt_repetition_count := apt_repetition_count ?t + (if x = hd w then 1 else 0)\<rparr>"
      "r = (if x = hd w \<and> apt_cutoff ?t < apt_repetition_count ?t + 1 then Inl EPIPE_ADAPTIVE_PROPORTION_TEST else Inr ())"
      using t ne st(1) by (auto simp: adaptive_proportion_test_def ADAPTIVE_PROPORTION_WINDOW_SIZE_def Let_def split: if_splits)
    have "unat (apt_sample_count ?t + 1) = (length ys + 1) mod 65 - 1" if "(length ys + 1) mod 65 \<noteq> 0"
      using n(1) m that by (simp add: mod_Suc m_def split: if_splits)
    moreover have "apt_sample_count ?t + 1 = 64" if "(length ys + 1) mod 65 = 0"
      using n(1) m that by (auto simp: mod_Suc m_def word_unat_eq_iff split: if_splits)
    moreover have "count_list (tl w @ [x]) (hd w) = count_list (tl w) (hd w) + (if x = hd w then 1 else 0)" by simp
    ultimately have "apt_state (es_adaptive_proportion_test s') (ys @ [x])"
      unfolding apt_state_def w' t'(1) using st n lw(2) by simp
    moreover have "apt_cutoff ?t < apt_repetition_count ?t + 1 \<longleftrightarrow> \<not> count_list (tl w) (hd w) + 1 \<le> c"
      unfolding word_less_nat_alt n(2) c by auto
    moreover have "count_list (tl w) (hd w) \<le> c"
      using assms(2) \<open>ys \<noteq> []\<close> windows_snoc [of ys x] by (simp add: proportion_ok_def w_def)
    ultimately show ?thesis unfolding ok t'(2) t'(1) by simp
  qed
  then show "apt_state (es_adaptive_proportion_test s') (ys @ [x])" "apt_cutoff (es_adaptive_proportion_test s') = apt_cutoff ?t"
    "r = (if proportion_ok c (ys @ [x]) then Inr () else Inl EPIPE_ADAPTIVE_PROPORTION_TEST)" by blast+
qed

definition tests_passed :: "'w entropy_source \<Rightarrow> u8 list \<Rightarrow> bool" where
  "tests_passed s ys \<longleftrightarrow> es_rc s = None \<and> rct_state (es_repetition_count_test s) ys \<and> apt_state (es_adaptive_proportion_test s) ys
     \<and> healthy s ys \<and> 2 \<le> unat (rct_cutoff (es_repetition_count_test s))"

lemma get_entropy_step:
  assumes ok: "tests_passed s ys" and g: "get_entropy s w = (s', w', r)"
  shows "(\<exists>x. es_get_noise s w = (w', Inr x) \<and> healthy s (ys @ [x]) \<and> r = Inr x \<and> tests_passed s' (ys @ [x])
      \<and> healthy s' = healthy s \<and> es_get_noise s' = es_get_noise s)
    \<or> (\<exists>rc. r = Inl rc \<and> es_rc s' = Some rc \<and> (\<forall>x. es_get_noise s w = (w', Inr x) \<longrightarrow> \<not> healthy s (ys @ [x])))"
  using g
proof (cases rule: get_entropy_cases)
  case (repeated x s1 rc)
  have "\<not> no_long_run (unat (rct_cutoff (es_repetition_count_test s))) (ys @ [x])"
    using repetition_count_test_step(3) [OF _ _ refl _ repeated(3), of ys] ok by (auto simp: tests_passed_def healthy_def split: if_splits)
  then show ?thesis using repeated by (simp add: healthy_def)
next
  case (frequent x s1 s2 rc)
  have "\<not> proportion_ok (unat (apt_cutoff (es_adaptive_proportion_test s))) (ys @ [x])"
    using adaptive_proportion_test_step(3) [OF _ _ refl frequent(4), of ys] repetition_count_test_keeps [OF frequent(3)] ok
    by (auto simp: tests_passed_def healthy_def split: if_splits)
  then show ?thesis using frequent by (simp add: healthy_def)
next
  case (sample x s1)
  have k: "es_adaptive_proportion_test s1 = es_adaptive_proportion_test s" "es_repetition_count_test s' = es_repetition_count_test s1"
    "es_rc s' = es_rc s" "es_get_noise s' = es_get_noise s"
    using repetition_count_test_keeps [OF sample(3)] adaptive_proportion_test_keeps [OF sample(4)] by simp_all
  have inv: "rct_state (es_repetition_count_test s) ys" "no_long_run (unat (rct_cutoff (es_repetition_count_test s))) ys"
    "2 \<le> unat (rct_cutoff (es_repetition_count_test s))" "apt_state (es_adaptive_proportion_test s1) ys"
    "proportion_ok (unat (apt_cutoff (es_adaptive_proportion_test s1))) ys"
    using ok k by (simp_all add: tests_passed_def healthy_def)
  note rct = repetition_count_test_step [OF inv(1,2) refl inv(3) sample(3)]
  note apt = adaptive_proportion_test_step [OF inv(4,5) refl sample(4)]
  have "healthy s' = healthy s" using rct(2) apt(2) k by (auto simp: healthy_def)
  moreover have "healthy s (ys @ [x])" using rct(3) apt(3) k by (auto simp: healthy_def split: if_splits)
  ultimately have "tests_passed s' (ys @ [x])" using rct(1,2) apt(1) k inv(3) sample(1) by (simp add: tests_passed_def)
  then show ?thesis using sample k \<open>healthy s' = healthy s\<close> \<open>healthy s (ys @ [x])\<close> by blast
qed (use ok in \<open>auto simp: tests_passed_def\<close>)

text \<open>The results of a number of calls.\<close>

fun draws :: "nat \<Rightarrow> 'w entropy_source \<Rightarrow> 'w \<Rightarrow> u8 result list" where
  "draws 0 source w = []"
| "draws (Suc n) source w = (case get_entropy source w of (source, w, r) \<Rightarrow> r # draws n source w)"

lemma draws_broken: "es_rc s = Some rc \<Longrightarrow> draws n s w = replicate n (Inl rc)"
  by (induction n) (simp_all add: get_entropy_def)

text \<open>A source whose noise is a given sequence of samples and errors.\<close>

fun next_noise :: "u8 result list \<Rightarrow> u8 result list \<times> u8 result" where
  "next_noise [] = ([], Inl EIO)"
| "next_noise (r # rs) = (rs, r)"

lemma draws_noise:
  assumes "tests_passed s ys" and "es_get_noise s = next_noise"
  shows "\<exists>xs rc. draws (length rs) s rs = map Inr xs @ replicate (length rs - length xs) (Inl rc) \<and> prefix (map Inr xs) rs
    \<and> healthy s (ys @ xs) \<and> (\<forall>r zs. rs = map Inr xs @ r # zs \<longrightarrow> r = Inl rc \<or> (\<exists>x. r = Inr x \<and> \<not> healthy s (ys @ xs @ [x])))"
  using assms
proof (induction rs arbitrary: s ys)
  case Nil
  then show ?case by (simp add: tests_passed_def)
next
  case (Cons n rs)
  obtain s' w' r where g: "get_entropy s (n # rs) = (s', w', r)" by (metis prod_cases3)
  have w: "w' = rs" using g by (cases rule: get_entropy_cases) (use Cons.prems in \<open>auto simp: tests_passed_def\<close>)
  have err: "n = Inl rc \<or> (\<exists>x. n = Inr x)" if "r = Inl rc" for rc
    using g by (cases rule: get_entropy_cases) (use Cons.prems that in \<open>auto simp: tests_passed_def\<close>)
  from get_entropy_step [OF Cons.prems(1) g] show ?case
  proof (elim disjE exE conjE)
    fix x assume x: "es_get_noise s (n # rs) = (w', Inr x)" "r = Inr x" "tests_passed s' (ys @ [x])" "healthy s' = healthy s"
      "es_get_noise s' = es_get_noise s"
    obtain xs rc where "draws (length rs) s' rs = map Inr xs @ replicate (length rs - length xs) (Inl rc)" "prefix (map Inr xs) rs"
      "healthy s' ((ys @ [x]) @ xs)"
      "\<forall>r zs. rs = map Inr xs @ r # zs \<longrightarrow> r = Inl rc \<or> (\<exists>z. r = Inr z \<and> \<not> healthy s' ((ys @ [x]) @ xs @ [z]))"
      using Cons.IH [OF x(3)] Cons.prems(2) x(5) by auto
    then show ?thesis using g x w Cons.prems(2) by (intro exI [of _ "x # xs"] exI [of _ rc]) simp
  next
    fix rc assume "r = Inl rc" "es_rc s' = Some rc" "\<forall>x. es_get_noise s (n # rs) = (w', Inr x) \<longrightarrow> \<not> healthy s (ys @ [x])"
    then show ?thesis using g w err [of rc] draws_broken [of s' rc "length rs" rs] Cons.prems
      by (intro exI [of _ "[]"] exI [of _ rc]) (auto simp: tests_passed_def)
  qed
qed

text \<open>A source that was never used, when it is enabled.\<close>

definition unused :: "'w entropy_source \<Rightarrow> bool" where
  "unused source \<longleftrightarrow> es_rc source = None \<and> rct_repetition_count (es_repetition_count_test source) = 0
     \<and> startup_tested (es_startup_test source) = 0"

lemma repetition_cutoff_bounds:
  assumes "0 < h" and "h \<le> MIN_ENTROPY 8"
  shows "4 \<le> unat (entropy_repetition_count_cutoff h)"
proof -
  have e: "unat (MIN_ENTROPY 8) = 524288" "unat (MIN_ENTROPY 30) = 1966080"
    by (simp_all add: MIN_ENTROPY_def MIN_ENTROPY_SCALE_def)
  have h: "0 < unat h" "unat h \<le> 524288" using assms e by (simp_all add: word_less_nat_alt word_le_nat_alt)
  have d: "3 \<le> 1966080 div unat h" using h div_le_mono2 [of "unat h" 524288 1966080] by simp
  have "1966080 div unat h \<le> 1966080" by (rule div_le_dividend)
  then have "1966080 div unat h < 4294967295" by linarith
  then have "unat (1 + MIN_ENTROPY 30 div h) = 1 + 1966080 div unat h"
    by (subst unat_add_no_wrap) (simp_all add: unat_div_distrib e)
  then show ?thesis using d by (simp add: entropy_repetition_count_cutoff_def Let_def)
qed

lemma enabled_tests_passed:
  assumes "unused s" and "es_enable s w = (w1, Inr h)" and "0 < h" and "h \<le> MIN_ENTROPY 8"
  shows "\<exists>s1. entropy_enable s w = (s1, w1, Inr ()) \<and> tests_passed s1 [] \<and> es_get_noise s1 = es_get_noise s
    \<and> rct_cutoff (es_repetition_count_test s1) = entropy_repetition_count_cutoff h
    \<and> apt_cutoff (es_adaptive_proportion_test s1) = entropy_adaptive_proportion_cutoff h"
  using assms repetition_cutoff_bounds [OF assms(3,4)]
  by (simp add: entropy_enable_def unused_def entropy_init_def adaptive_proportion_test_init_def tests_passed_def rct_state_def apt_state_def
      healthy_def no_long_run_def proportion_ok_def last_run_def ADAPTIVE_PROPORTION_WINDOW_SIZE_def Let_def)

section \<open>Entropy input\<close>

text \<open>
  Condensing samples: each one is hashed with a nonce and exclusive-ored to the result. The first
  error is the result if there is one.
\<close>

fun condense :: "u32 \<Rightarrow> u8 result list \<Rightarrow> bytes \<Rightarrow> bytes result" where
  "condense nonce [] tmp = Inr tmp"
| "condense nonce (Inl rc # rs) tmp = Inl rc"
| "condense nonce (Inr x # rs) tmp =
     condense (nonce + 1) rs (map2 (XOR) tmp (Hash_df SHA256 32 (bytes_u32 (nonce + 1) @ [x]) (length tmp)))"

lemma Hash_df_32_length [simp]: "length (Hash_df SHA256 32 i n) = n"
proof -
  have l: "length (SHA256 m) = 32" for m using sha256a.H_length [of m] by (simp add: SHA256_eq algorithm_sizes)
  have "length (concat (map (\<lambda>i. SHA256 (f i)) ks)) = 32 * length ks" for f :: "nat \<Rightarrow> bytes" and ks by (induction ks) (simp_all add: l)
  moreover have "n \<le> 32 * blocks_needed 32 n" by (simp add: blocks_needed_def)
  ultimately show ?thesis by (simp add: Hash_df_def)
qed

lemma condense_length: "condense nonce rs tmp = Inr out \<Longrightarrow> length out = length tmp"
  by (induction nonce rs tmp arbitrary: out rule: condense.induct) simp_all

text \<open>The loop takes as many samples as their min-entropy requires.\<close>

lemma gather_condenses:
  assumes "length (ctx_data c) = 64" and h: "0 < unat (min_entropy_per_sample s)"
    and room: "unat min_entropy + unat (min_entropy_per_sample s) < 2 ^ 32"
  shows "\<exists>s' nonce' w'. gather_entropy c min_entropy acc tmp s nonce w = Some (s', nonce', w',
      condense nonce (draws (blocks_needed (unat (min_entropy_per_sample s)) (unat min_entropy - unat acc)) s w) tmp)
    \<and> es_enable s' = es_enable s"
  using h room
proof (induction "unat min_entropy - unat acc" arbitrary: acc tmp s nonce w rule: less_induct)
  case less
  let ?h = "min_entropy_per_sample s" and ?n = "unat min_entropy - unat acc"
  show ?case
  proof (cases "acc < min_entropy")
    case False
    then have "blocks_needed (unat ?h) ?n = 0" using less.prems(1) by (simp add: word_less_nat_alt blocks_needed_def)
    then show ?thesis using False by (subst gather_entropy.simps) simp
  next
    case True
    then have n: "0 < ?n" by (simp add: word_less_nat_alt)
    have t: "unat (acc + ?h) = unat acc + unat ?h" using True less.prems(2) by (intro unat_add_no_wrap) (simp add: word_less_nat_alt)
    have b: "blocks_needed (unat ?h) ?n = Suc (blocks_needed (unat ?h) (unat min_entropy - unat (acc + ?h)))"
      unfolding blocks_needed_step [OF less.prems(1) n] t by simp
    obtain s' w' r where g: "get_entropy s w = (s', w', r)" by (metis prod_cases3)
    note k = get_entropy_keeps [OF g]
    show ?thesis
    proof (cases r)
      case (Inl rc)
      then show ?thesis using True g k unfolding b by (subst gather_entropy.simps) simp
    next
      case (Inr x)
      have lt: "unat min_entropy - unat (acc + ?h) < ?n" using n less.prems(1) t by simp
      have df: "hash_df sha256_algorithm c i m = Some (Hash_df SHA256 32 i m)" for i m
        using sha256a.hash_df_correct [OF assms(1), of i m] by (simp add: SHA256_eq algorithm_sizes)
      let ?tmp = "map2 (XOR) tmp (Hash_df SHA256 32 (bytes_u32 (nonce + 1) @ [x]) (length tmp))"
      have h: "min_entropy_per_sample s' = ?h" "es_enable s' = es_enable s" using k by simp_all
      obtain s2 nonce2 w2 where "gather_entropy c min_entropy (acc + ?h) ?tmp s' (nonce + 1) w' = Some (s2, nonce2, w2,
          condense (nonce + 1) (draws (blocks_needed (unat ?h) (unat min_entropy - unat (acc + ?h))) s' w') ?tmp)" "es_enable s2 = es_enable s'"
        using less.hyps [OF lt, of s'] less.prems unfolding h(1) by blast
      then show ?thesis
        using True g Inr h unfolding b by (subst gather_entropy.simps) (simp add: make_next_nonce_def Let_def df)
    qed
  qed
qed

text \<open>
  Sources enable themselves with a min-entropy that the assertions of \<open>entropy_init\<close> allow; no
  operation changes their methods.
\<close>

definition source_ok :: "'w entropy_source \<Rightarrow> bool" where
  "source_ok s \<longleftrightarrow> (\<forall>w w' h. es_enable s w = (w', Inr h) \<longrightarrow> 0 < h \<and> h \<le> MIN_ENTROPY 8)"

definition sources_ok :: "'w entropy_state \<Rightarrow> bool" where
  "sources_ok st \<longleftrightarrow> (\<forall>s\<in>set (ent_sources st). source_ok s)"

lemma startup_test_keeps:
  "startup_test s w = (s', w', r) \<Longrightarrow> es_enable s' = es_enable s \<and> min_entropy_per_sample s' = min_entropy_per_sample s"
proof (induction s w rule: startup_test.induct)
  case (1 s w)
  obtain s1 w1 r1 where g: "get_entropy s w = (s1, w1, r1)" by (metis prod_cases3)
  show ?case
  proof (cases "startup_tested (es_startup_test s) < startup_count (es_startup_test s)")
    case True
    then show ?thesis using 1 g get_entropy_keeps [OF g] by (cases r1) (auto simp: startup_test.simps [of s w])
  qed (use 1(2) in \<open>simp add: startup_test.simps [of s w]\<close>)
qed

lemma enable_and_test_keeps:
  assumes "entropy_enable_and_test s w = (s', w', r)" and "source_ok s"
  shows "source_ok s' \<and> (r = Inr () \<longrightarrow> 0 < min_entropy_per_sample s' \<and> min_entropy_per_sample s' \<le> MIN_ENTROPY 8)"
proof -
  obtain s1 w1 r1 where e: "entropy_enable s w = (s1, w1, r1)" by (metis prod_cases3)
  have 1: "es_enable s1 = es_enable s" "r1 = Inr () \<longrightarrow> 0 < min_entropy_per_sample s1 \<and> min_entropy_per_sample s1 \<le> MIN_ENTROPY 8"
    using e assms(2)
    by (auto simp: entropy_enable_def entropy_init_def adaptive_proportion_test_init_def source_ok_def Let_def
        split: option.splits prod.splits sum.splits)
  obtain s2 w2 r2 where t: "startup_test s1 w1 = (s2, w2, r2)" by (metis prod_cases3)
  show ?thesis
    using assms e t 1 startup_test_keeps [OF t]
    by (cases r1; cases r2) (auto simp: entropy_enable_and_test_def source_ok_def)
qed

lemma enable_from_keeps:
  assumes "entropy_enable_from rc ss w = (ss', w', r)" and "\<forall>s\<in>set ss. source_ok s"
  shows "(\<forall>s\<in>set ss'. source_ok s)
    \<and> (\<forall>i. r = Inr i \<longrightarrow> i < length ss' \<and> 0 < min_entropy_per_sample (ss' ! i) \<and> min_entropy_per_sample (ss' ! i) \<le> MIN_ENTROPY 8)"
  using assms
proof (induction rc ss w arbitrary: ss' w' r rule: entropy_enable_from.induct)
  case (2 rc s ss w)
  obtain s1 w1 r1 where e: "entropy_enable_and_test s w = (s1, w1, r1)" by (metis prod_cases3)
  note k = enable_and_test_keeps [OF e]
  show ?case
  proof (cases r1)
    case (Inl rc1)
    obtain ss2 w2 r2 where f: "entropy_enable_from rc1 ss w1 = (ss2, w2, r2)" by (metis prod_cases3)
    show ?thesis using "2.IH" [OF e [symmetric] refl Inl f] "2.prems" e f Inl k by (cases r2) auto
  next
    case (Inr u)
    then show ?thesis using "2.prems" e k by auto
  qed
qed simp

lemma get_entropy_input_total:
  assumes "length (ctx_data c) = 64" and "sources_ok st" and bits: "bits = 128 \<or> bits = 192"
  shows "\<exists>st' r. get_entropy_input c bits 16 32 st = Some (st', r) \<and> sources_ok st' \<and> (\<forall>data. r = Inr data \<longrightarrow> length data = 32)"
proof -
  obtain ss w r where e: "entropy_enable_working (ent_sources st) (ent_world st) = (ss, w, r)" by (metis prod_cases3)
  note k = enable_from_keeps [OF e [unfolded entropy_enable_working_def]]
  define m where "m = MIN_ENTROPY ((bits + 7) AND NOT 7)"
  have tmp: "\<exists>st' r. get_entropy_input_tmp c m n st = Some (st', r) \<and> sources_ok st' \<and> (\<forall>data. r = Inr data \<longrightarrow> length data = n)" for n
  proof (cases r)
    case (Inl rc)
    then show ?thesis using e k assms(2) by (simp add: get_entropy_input_tmp_def sources_ok_def)
  next
    case (Inr i)
    have i: "i < length ss" "0 < min_entropy_per_sample (ss ! i)" "min_entropy_per_sample (ss ! i) \<le> MIN_ENTROPY 8"
      using k Inr assms(2) by (auto simp: sources_ok_def)
    have b: "unat (MIN_ENTROPY 8) = 524288" "unat m \<le> 12582912" using bits by (auto simp: m_def MIN_ENTROPY_def MIN_ENTROPY_SCALE_def)
    have "0 < unat (min_entropy_per_sample (ss ! i))" "unat m + unat (min_entropy_per_sample (ss ! i)) < 2 ^ 32"
      using i(2,3) b by (simp_all add: word_less_nat_alt word_le_nat_alt)
    from gather_condenses [OF assms(1) this, of 0 "replicate n 0" "ent_nonce st" w]
    obtain s' nonce' w' rs where "gather_entropy c m 0 (replicate n 0) (ss ! i) (ent_nonce st) w = Some (s', nonce', w', condense (ent_nonce st) rs (replicate n 0))"
      "es_enable s' = es_enable (ss ! i)" by auto
    moreover have "\<forall>s\<in>set ss. source_ok s" using k assms(2) by (simp add: sources_ok_def)
    then have "\<forall>s\<in>set (ss[i := s']). source_ok s"
      using calculation(2) i(1) by (auto simp: source_ok_def set_conv_nth nth_list_update)
    moreover have "\<forall>data. condense (ent_nonce st) rs (replicate n 0) = Inr data \<longrightarrow> length data = n" using condense_length by fastforce
    ultimately show ?thesis using e Inr by (simp add: get_entropy_input_tmp_def sources_ok_def MIN_ENTROPY_def)
  qed
  have df: "hash_df sha256_algorithm c i n = Some (Hash_df SHA256 32 i n)" for i n
    using sha256a.hash_df_correct [OF assms(1), of i n] by (simp add: SHA256_eq algorithm_sizes)
  have len: "unat ((bits * 2 + 7) div 8) = (if bits = 128 then 32 else 48)" using bits by auto
  obtain st' r' where "get_entropy_input_tmp c m (if bits = 128 then 32 else 48) st = Some (st', r')" "sources_ok st'"
    "\<forall>data. r' = Inr data \<longrightarrow> length data = (if bits = 128 then 32 else 48)" using tmp by blast
  then show ?thesis using bits unfolding get_entropy_input_def Let_def len m_def [symmetric]
    by (cases r') (auto simp: df Hash_df_32_length split: if_splits)
qed

section \<open>Properties\<close>


definition example_source :: "u8 result list entropy_source" where
  "example_source = \<lparr>min_entropy_per_sample = 0, es_repetition_count_test = \<lparr>most_recent_sample = 0, rct_repetition_count = 0, rct_cutoff = 0\<rparr>,
     es_adaptive_proportion_test = \<lparr>current_counted_sample = 0, apt_sample_count = 0, apt_repetition_count = 0, apt_cutoff = 0\<rparr>,
     es_startup_test = \<lparr>startup_tested = 0, startup_count = 0\<rparr>, es_rc = None, es_enable = (\<lambda>w. (w, Inr (MIN_ENTROPY 8))), es_disable = None,
     es_get_noise = next_noise\<rparr>"


text \<open>The cutoffs and the number of startup tests for the min-entropies that the sources of the code have.\<close>

lemma startup_below_window:
  "map (\<lambda>h. entropy_startup_test_count (entropy_repetition_count_cutoff h) (entropy_adaptive_proportion_cutoff h)) [85196, MIN_ENTROPY 1, MIN_ENTROPY 8]
     = [51, 51, 5]"
  by code_simp

text \<open>
  The repetition cutoff for 1.3 bits, of which 85196 is the fixed-point value: the quotient in
  1 + 30 / 1.3 = 24.07... is rounded down, not up.
\<close>

lemma repetition_cutoff_rounds_down: "entropy_repetition_count_cutoff 85196 = 24 \<and> 85196 * (24 - 1) < (30 * 65536 :: nat)"
  by (simp add: entropy_repetition_count_cutoff_def MIN_ENTROPY_def MIN_ENTROPY_SCALE_def)

end
