(* ===== verification/Drbg.thy ===== *)
theory Drbg
  imports Entropy
begin

text \<open>
  The generator of random bits (crypto/drbg.c, include/ipxe/drbg.h, crypto/rbg.c,
  crypto/random\_nz.c) over HMAC\_DRBG with SHA-256 and the entropy sources. The contexts that the
  code has on the stack are arguments: one of the digest and one of HMAC.
\<close>

section \<open>Model\<close>

subsection \<open>DRBG mechanism\<close>

record drbg_state =
  drbg_internal :: hmac_drbg_state
  reseed_required :: bool
  drbg_valid :: bool

record drbg_stack =
  stack_digest :: "u32 sha2_context"
  stack_hmac :: "u32 sha2_context hmac_context"

definition DRBG_SECURITY_STRENGTH :: u32 where
  "DRBG_SECURITY_STRENGTH = 128"

definition DRBG_MAX_SECURITY_STRENGTH :: u32 where
  "DRBG_MAX_SECURITY_STRENGTH = 256"

definition DRBG_MIN_ENTROPY_LEN_BYTES :: nat where
  "DRBG_MIN_ENTROPY_LEN_BYTES = unat (DRBG_SECURITY_STRENGTH div 8)"

definition DRBG_MAX_ENTROPY_LEN_BYTES :: nat where
  "DRBG_MAX_ENTROPY_LEN_BYTES = 32"

definition DRBG_MAX_PERSONAL_LEN_BYTES :: nat where
  "DRBG_MAX_PERSONAL_LEN_BYTES = 0xffffffff"

definition DRBG_MAX_ADDITIONAL_LEN_BYTES :: nat where
  "DRBG_MAX_ADDITIONAL_LEN_BYTES = 0xffffffff"

definition DRBG_MAX_GENERATED_LEN_BYTES :: nat where
  "DRBG_MAX_GENERATED_LEN_BYTES = 0x0000ffff"

definition drbg_instantiate_algorithm :: "drbg_stack \<Rightarrow> bytes \<Rightarrow> bytes \<Rightarrow> drbg_state \<Rightarrow> drbg_state option" where
  "drbg_instantiate_algorithm stack entropy personal state = do {
     internal \<leftarrow> hmac_drbg_instantiate sha256_algorithm (stack_hmac stack) entropy personal (drbg_internal state);
     Some (state\<lparr>drbg_internal := internal\<rparr>)
   }"

definition drbg_reseed_algorithm :: "drbg_stack \<Rightarrow> bytes \<Rightarrow> bytes \<Rightarrow> drbg_state \<Rightarrow> drbg_state option" where
  "drbg_reseed_algorithm stack entropy additional state = do {
     internal \<leftarrow> hmac_drbg_reseed sha256_algorithm (stack_hmac stack) entropy additional (drbg_internal state);
     Some (state\<lparr>drbg_internal := internal\<rparr>)
   }"

definition drbg_generate_algorithm :: "drbg_stack \<Rightarrow> bytes \<Rightarrow> nat \<Rightarrow> drbg_state \<Rightarrow> (drbg_state \<times> bytes result) option" where
  "drbg_generate_algorithm stack additional len state = do {
     (internal, r) \<leftarrow> hmac_drbg_generate sha256_algorithm (stack_hmac stack) additional len (drbg_internal state);
     Some (state\<lparr>drbg_internal := internal\<rparr>, r)
   }"

definition drbg_instantiate ::
  "drbg_stack \<Rightarrow> bytes \<Rightarrow> drbg_state \<Rightarrow> 'w entropy_state \<Rightarrow> (drbg_state \<times> 'w entropy_state \<times> unit result) option" where
  "drbg_instantiate stack personal state ent =
     (let entropy_bits = (3 * DRBG_SECURITY_STRENGTH + 1) div 2;
          min_len = DRBG_MIN_ENTROPY_LEN_BYTES;
          max_len = DRBG_MAX_ENTROPY_LEN_BYTES
      in if DRBG_SECURITY_STRENGTH > DRBG_MAX_SECURITY_STRENGTH then Some (state, ent, Inl ENOTSUP)
         else if length personal > DRBG_MAX_PERSONAL_LEN_BYTES then Some (state, ent, Inl ERANGE)
         else
           (case get_entropy_input (stack_digest stack) entropy_bits min_len max_len ent of
              None \<Rightarrow> None
            | Some (ent, Inl rc) \<Rightarrow> Some (state, ent, Inl rc)
            | Some (ent, Inr data) \<Rightarrow> do {
                state \<leftarrow> drbg_instantiate_algorithm stack data personal state;
                Some (state\<lparr>reseed_required := False, drbg_valid := True\<rparr>, ent, Inr ())
              }))"

definition drbg_reseed ::
  "drbg_stack \<Rightarrow> bytes \<Rightarrow> drbg_state \<Rightarrow> 'w entropy_state \<Rightarrow> (drbg_state \<times> 'w entropy_state \<times> unit result) option" where
  "drbg_reseed stack additional state ent =
     (let entropy_bits = DRBG_SECURITY_STRENGTH;
          min_len = DRBG_MIN_ENTROPY_LEN_BYTES;
          max_len = DRBG_MAX_ENTROPY_LEN_BYTES
      in if \<not> drbg_valid state then Some (state, ent, Inl EINVAL)
         else if length additional > DRBG_MAX_ADDITIONAL_LEN_BYTES then Some (state, ent, Inl ERANGE)
         else
           (case get_entropy_input (stack_digest stack) entropy_bits min_len max_len ent of
              None \<Rightarrow> None
            | Some (ent, Inl rc) \<Rightarrow> Some (state, ent, Inl rc)
            | Some (ent, Inr data) \<Rightarrow> do {
                state \<leftarrow> drbg_reseed_algorithm stack data additional state;
                Some (state, ent, Inr ())
              }))"

text \<open>From the label \<open>step_7\<close> on.\<close>

partial_function (option) drbg_generate_step_7 ::
  "drbg_stack \<Rightarrow> bytes \<Rightarrow> bool \<Rightarrow> nat \<Rightarrow> drbg_state \<Rightarrow> 'w entropy_state \<Rightarrow> (drbg_state \<times> 'w entropy_state \<times> bytes result) option" where
  "drbg_generate_step_7 stack additional prediction_resist len state ent =
     (case (if reseed_required state \<or> prediction_resist then
              (case drbg_reseed stack additional state ent of
                 None \<Rightarrow> None
               | Some (state, ent, Inl rc) \<Rightarrow> Some (state, ent, Inl rc)
               | Some (state, ent, Inr _) \<Rightarrow> Some (state\<lparr>reseed_required := False\<rparr>, ent, Inr []))
            else Some (state, ent, Inr additional)) of
        None \<Rightarrow> None
      | Some (state, ent, Inl rc) \<Rightarrow> Some (state, ent, Inl rc)
      | Some (state, ent, Inr additional) \<Rightarrow>
          (case drbg_generate_algorithm stack additional len state of
             None \<Rightarrow> None
           | Some (state, Inl rc) \<Rightarrow>
               drbg_generate_step_7 stack additional True len (state\<lparr>reseed_required := True\<rparr>) ent
           | Some (state, Inr data) \<Rightarrow> Some (state, ent, Inr data)))"

declare drbg_generate_step_7.simps [code]

definition drbg_generate ::
  "drbg_stack \<Rightarrow> bytes \<Rightarrow> bool \<Rightarrow> nat \<Rightarrow> drbg_state \<Rightarrow> 'w entropy_state \<Rightarrow> (drbg_state \<times> 'w entropy_state \<times> bytes result) option" where
  "drbg_generate stack additional prediction_resist len state ent =
     (if \<not> drbg_valid state then Some (state, ent, Inl EINVAL)
      else if len > DRBG_MAX_GENERATED_LEN_BYTES then Some (state, ent, Inl ERANGE)
      else if length additional > DRBG_MAX_ADDITIONAL_LEN_BYTES then Some (state, ent, Inl ERANGE)
      else drbg_generate_step_7 stack additional prediction_resist len (state\<lparr>reseed_required := False\<rparr>) ent)"

definition drbg_uninstantiate :: "drbg_state \<Rightarrow> drbg_state" where
  "drbg_uninstantiate state = \<lparr>
     drbg_internal = \<lparr>drbg_value = replicate 64 0, drbg_key = replicate 64 0, reseed_counter = 0\<rparr>,
     reseed_required = False, drbg_valid = False\<rparr>"

subsection \<open>RBG mechanism\<close>

record random_bit_generator =
  rbg_state :: drbg_state
  rbg_started :: bool

text \<open>The system UUID, as the result of fetching the setting.\<close>

definition rbg_startup ::
  "drbg_stack \<Rightarrow> bytes result \<Rightarrow> random_bit_generator \<Rightarrow> 'w entropy_state
    \<Rightarrow> (random_bit_generator \<times> 'w entropy_state \<times> unit result) option" where
  "rbg_startup stack uuid rbg ent =
     (let rbg = rbg\<lparr>rbg_started := True\<rparr>;
          personal = (case uuid of Inl rc \<Rightarrow> [] | Inr uuid \<Rightarrow> uuid)
      in case drbg_instantiate stack personal (rbg_state rbg) ent of
           None \<Rightarrow> None
         | Some (state, ent, r) \<Rightarrow> Some (rbg\<lparr>rbg_state := state\<rparr>, ent, r))"

definition rbg_generate ::
  "drbg_stack \<Rightarrow> bytes result \<Rightarrow> bytes \<Rightarrow> bool \<Rightarrow> nat \<Rightarrow> random_bit_generator \<Rightarrow> 'w entropy_state
    \<Rightarrow> (random_bit_generator \<times> 'w entropy_state \<times> bytes result) option" where
  "rbg_generate stack uuid additional prediction_resist len rbg ent =
     (case (if \<not> rbg_started rbg then map_option (\<lambda>(rbg, ent, r). (rbg, ent)) (rbg_startup stack uuid rbg ent)
            else Some (rbg, ent)) of
        None \<Rightarrow> None
      | Some (rbg, ent) \<Rightarrow>
          (case drbg_generate stack additional prediction_resist len (rbg_state rbg) ent of
             None \<Rightarrow> None
           | Some (state, ent, r) \<Rightarrow> Some (rbg\<lparr>rbg_state := state\<rparr>, ent, r)))"

definition rbg_shutdown :: "random_bit_generator \<Rightarrow> random_bit_generator" where
  "rbg_shutdown rbg = rbg\<lparr>rbg_state := drbg_uninstantiate (rbg_state rbg), rbg_started := False\<rparr>"

definition rbg_startup_fn ::
  "drbg_stack \<Rightarrow> bytes result \<Rightarrow> random_bit_generator \<Rightarrow> 'w entropy_state \<Rightarrow> (random_bit_generator \<times> 'w entropy_state) option" where
  "rbg_startup_fn stack uuid rbg ent =
     (if \<not> rbg_started rbg then map_option (\<lambda>(rbg, ent, r). (rbg, ent)) (rbg_startup stack uuid rbg ent)
      else Some (rbg, ent))"

text \<open>Non-zero bytes: a byte that is zero is generated again.\<close>

partial_function (option) get_random_nz ::
  "drbg_stack \<Rightarrow> bytes result \<Rightarrow> nat \<Rightarrow> bytes \<Rightarrow> random_bit_generator \<Rightarrow> 'w entropy_state
    \<Rightarrow> (random_bit_generator \<times> 'w entropy_state \<times> bytes result) option" where
  "get_random_nz stack uuid len data rbg ent =
     (if len = 0 then Some (rbg, ent, Inr data)
      else
        (case rbg_generate stack uuid [] False 1 rbg ent of
           None \<Rightarrow> None
         | Some (rbg, ent, Inl rc) \<Rightarrow> Some (rbg, ent, Inl rc)
         | Some (rbg, ent, Inr byte) \<Rightarrow>
             if byte \<noteq> [0] then get_random_nz stack uuid (len - 1) (data @ byte) rbg ent
             else get_random_nz stack uuid len data rbg ent))"

declare get_random_nz.simps [code]

section \<open>Specification\<close>

abbreviation HMAC_SHA256 :: "bytes \<Rightarrow> bytes \<Rightarrow> bytes" where
  "HMAC_SHA256 \<equiv> HMAC SHA256 64"

text \<open>The key and the value, of which the buffers have room for the longest digests.\<close>

definition key_value :: "drbg_state \<Rightarrow> bytes \<times> bytes" where
  "key_value state = (take 32 (drbg_key (drbg_internal state)), take 32 (drbg_value (drbg_internal state)))"

definition drbg_wf :: "drbg_state \<Rightarrow> bool" where
  "drbg_wf state \<longleftrightarrow> 32 \<le> length (drbg_key (drbg_internal state)) \<and> 32 \<le> length (drbg_value (drbg_internal state))"

definition stack_ok :: "drbg_stack \<Rightarrow> bool" where
  "stack_ok stack \<longleftrightarrow> length (ctx_data (stack_digest stack)) = 64 \<and> length (ctx_data (hc_ctx (stack_hmac stack))) = 64"

abbreviation counter :: "drbg_state \<Rightarrow> u32" where
  "counter state \<equiv> reseed_counter (drbg_internal state)"

section \<open>The algorithm\<close>

lemmas drbg_refines = sha256a.drbg_refines_def sha256a.drbg_room_def sha256a.drbg_abs_def algorithm_sizes

lemma instantiate_algorithm_refines:
  assumes "stack_ok stack" and "drbg_wf state"
  shows "\<exists>state'. drbg_instantiate_algorithm stack entropy personal state = Some state' \<and> drbg_wf state' \<and> counter state' = 1
    \<and> key_value state' = DRBG_Instantiate HMAC_SHA256 32 (entropy @ personal)"
  using sha256a.instantiate_refines [of "stack_hmac stack" "drbg_internal state" entropy personal] assms
  by (auto simp: drbg_refines stack_ok_def drbg_wf_def drbg_instantiate_algorithm_def key_value_def SHA256_eq)

lemma reseed_algorithm_refines:
  assumes "stack_ok stack" and "drbg_wf state"
  shows "\<exists>state'. drbg_reseed_algorithm stack entropy additional state = Some state' \<and> drbg_wf state' \<and> counter state' = 1
    \<and> drbg_valid state' = drbg_valid state \<and> key_value state' = DRBG_Update HMAC_SHA256 (entropy @ additional) (key_value state)"
  using sha256a.reseed_refines [of "stack_hmac stack" "drbg_internal state" entropy additional] assms
  by (auto simp: drbg_refines stack_ok_def drbg_wf_def drbg_reseed_algorithm_def key_value_def SHA256_eq)

lemma generate_algorithm_refines:
  assumes "stack_ok stack" and "drbg_wf state" and "counter state \<le> HMAC_DRBG_RESEED_INTERVAL"
    and "DRBG_Generate HMAC_SHA256 32 additional len (key_value state) = (kv, data)"
  shows "\<exists>state'. drbg_generate_algorithm stack additional len state = Some (state', Inr data) \<and> drbg_wf state'
    \<and> counter state' = counter state + 1 \<and> drbg_valid state' = drbg_valid state \<and> key_value state' = kv"
  using sha256a.generate_refines [of "stack_hmac stack" "drbg_internal state" additional len kv data] assms
  by (auto simp: drbg_refines stack_ok_def drbg_wf_def drbg_generate_algorithm_def key_value_def SHA256_eq)

lemma generate_algorithm_stale:
  "HMAC_DRBG_RESEED_INTERVAL < counter state \<Longrightarrow> drbg_generate_algorithm stack additional len state = Some (state, Inl ESTALE)"
  by (simp add: drbg_generate_algorithm_def hmac_drbg_generate_def)

lemma generated_length:
  assumes "DRBG_Generate HMAC_SHA256 32 additional len kv = (kv', data)"
  shows "length data = len"
proof -
  have l: "length (HMAC_SHA256 K m) = 32" for K m
    using sha256a.length_HM [of K m] by (simp add: SHA256_eq algorithm_sizes)
  have "length (concat (map (\<lambda>i. (HMAC_SHA256 K ^^ (i + 1)) V) ks)) = 32 * length ks" for K V ks
    by (induction ks) (simp_all add: l)
  moreover have "len \<le> 32 * blocks_needed 32 len" by (simp add: blocks_needed_def)
  ultimately show ?thesis using assms by (auto simp: DRBG_Generate_def Let_def split: prod.splits)
qed

section \<open>The mechanism\<close>

text \<open>Reseeding, and generating after it.\<close>

definition entropy_input :: "drbg_stack \<Rightarrow> 'w entropy_state \<Rightarrow> ('w entropy_state \<times> bytes result) option" where
  "entropy_input stack ent = get_entropy_input (stack_digest stack) 128 16 32 ent"

lemma drbg_reseed_cases:
  assumes "stack_ok stack" and "drbg_wf state" and "drbg_valid state" and "length additional \<le> DRBG_MAX_ADDITIONAL_LEN_BYTES"
    and "entropy_input stack ent = Some (ent', r)"
  shows "case r of Inl rc \<Rightarrow> drbg_reseed stack additional state ent = Some (state, ent', Inl rc)
    | Inr entropy \<Rightarrow> \<exists>state'. drbg_reseed stack additional state ent = Some (state', ent', Inr ()) \<and> drbg_wf state' \<and> drbg_valid state'
        \<and> counter state' = 1 \<and> key_value state' = DRBG_Update HMAC_SHA256 (entropy @ additional) (key_value state)"
proof -
  have e: "get_entropy_input (stack_digest stack) DRBG_SECURITY_STRENGTH DRBG_MIN_ENTROPY_LEN_BYTES DRBG_MAX_ENTROPY_LEN_BYTES ent = Some (ent', r)"
    using assms(5) by (simp add: entropy_input_def DRBG_SECURITY_STRENGTH_def DRBG_MIN_ENTROPY_LEN_BYTES_def DRBG_MAX_ENTROPY_LEN_BYTES_def)
  show ?thesis
  proof (cases r)
    case (Inr entropy)
    then show ?thesis
      using reseed_algorithm_refines [OF assms(1,2), of entropy additional] assms(3,4) e by (auto simp: drbg_reseed_def Let_def)
  qed (use assms(3,4) e in \<open>simp add: drbg_reseed_def Let_def\<close>)
qed

lemma generate_after_reseed:
  assumes "stack_ok stack" and "drbg_wf state" and "drbg_valid state" and "length additional \<le> DRBG_MAX_ADDITIONAL_LEN_BYTES"
    and "reseed_required state \<or> pr" and "entropy_input stack ent = Some (ent', r)"
  shows "case r of Inl rc \<Rightarrow> drbg_generate_step_7 stack additional pr len state ent = Some (state, ent', Inl rc)
    | Inr entropy \<Rightarrow> \<exists>state' data. drbg_generate_step_7 stack additional pr len state ent = Some (state', ent', Inr data)
        \<and> drbg_wf state' \<and> drbg_valid state' \<and> counter state' = 2
        \<and> DRBG_Generate HMAC_SHA256 32 [] len (DRBG_Update HMAC_SHA256 (entropy @ additional) (key_value state)) = (key_value state', data)"
proof (cases r)
  case (Inl rc)
  then show ?thesis
    using drbg_reseed_cases [OF assms(1-4,6)] assms(5) by (subst drbg_generate_step_7.simps) simp
next
  case (Inr entropy)
  obtain state1 where s1: "drbg_reseed stack additional state ent = Some (state1, ent', Inr ())" "drbg_wf state1" "drbg_valid state1"
    "counter state1 = 1" "key_value state1 = DRBG_Update HMAC_SHA256 (entropy @ additional) (key_value state)"
    using drbg_reseed_cases [OF assms(1-4,6)] Inr by auto
  let ?s1 = "state1\<lparr>reseed_required := False\<rparr>"
  obtain kv data where g: "DRBG_Generate HMAC_SHA256 32 [] len (key_value ?s1) = (kv, data)" by fastforce
  have "drbg_wf ?s1" "counter ?s1 \<le> HMAC_DRBG_RESEED_INTERVAL" "key_value ?s1 = key_value state1"
    using s1(2,4) by (simp_all add: drbg_wf_def key_value_def HMAC_DRBG_RESEED_INTERVAL_def)
  with generate_algorithm_refines [OF assms(1) this(1,2) g] obtain state' where
    "drbg_generate_algorithm stack [] len ?s1 = Some (state', Inr data)" "drbg_wf state'" "drbg_valid state'" "counter state' = 2" "key_value state' = kv"
    using s1(3,4) by auto
  then show ?thesis
    using s1(1,5) g assms(5) Inr \<open>key_value ?s1 = key_value state1\<close> by (subst drbg_generate_step_7.simps) simp
qed

lemma drbg_generate_cases:
  assumes "stack_ok stack" and "drbg_wf state" and "drbg_valid state" and "length additional \<le> DRBG_MAX_ADDITIONAL_LEN_BYTES"
    and "len \<le> DRBG_MAX_GENERATED_LEN_BYTES" and e: "entropy_input stack ent = Some (ent', r)"
  shows "if \<not> pr \<and> counter state \<le> HMAC_DRBG_RESEED_INTERVAL
    then \<exists>state' data. drbg_generate stack additional pr len state ent = Some (state', ent, Inr data) \<and> drbg_wf state' \<and> drbg_valid state'
      \<and> counter state' = counter state + 1 \<and> DRBG_Generate HMAC_SHA256 32 additional len (key_value state) = (key_value state', data)
    else case r of Inl rc \<Rightarrow> \<exists>b. drbg_generate stack additional pr len state ent = Some (state\<lparr>reseed_required := b\<rparr>, ent', Inl rc)
      | Inr entropy \<Rightarrow> \<exists>state' data. drbg_generate stack additional pr len state ent = Some (state', ent', Inr data)
        \<and> drbg_wf state' \<and> drbg_valid state' \<and> counter state' = 2
        \<and> DRBG_Generate HMAC_SHA256 32 [] len (DRBG_Update HMAC_SHA256 (entropy @ additional) (key_value state)) = (key_value state', data)"
proof -
  let ?s = "state\<lparr>reseed_required := False\<rparr>"
  have g: "drbg_generate stack additional pr len state ent = drbg_generate_step_7 stack additional pr len ?s ent"
    using assms(3-5) by (simp add: drbg_generate_def)
  have s: "drbg_wf (state\<lparr>reseed_required := b\<rparr>)" "drbg_valid (state\<lparr>reseed_required := b\<rparr>)" "key_value (state\<lparr>reseed_required := b\<rparr>) = key_value state" for b
    using assms(2,3) by (simp_all add: drbg_wf_def key_value_def)
  consider (direct) "\<not> pr" "counter state \<le> HMAC_DRBG_RESEED_INTERVAL" | (asked) pr
    | (stale) "\<not> pr" "HMAC_DRBG_RESEED_INTERVAL < counter state" by fastforce
  then show ?thesis
  proof cases
    case direct
    obtain kv data where "DRBG_Generate HMAC_SHA256 32 additional len (key_value ?s) = (kv, data)" by fastforce
    with generate_algorithm_refines [OF assms(1) s(1) _ this] show ?thesis
      using direct g s by (subst (asm) drbg_generate_step_7.simps) auto
  next
    case asked
    then show ?thesis
      using generate_after_reseed [OF assms(1) s(1,2) assms(4) _ e, of False pr len] g s by (auto split: sum.splits)
  next
    case stale
    have "drbg_generate_step_7 stack additional pr len ?s ent = drbg_generate_step_7 stack additional True len (state\<lparr>reseed_required := True\<rparr>) ent"
      using stale generate_algorithm_stale [of ?s] by (subst drbg_generate_step_7.simps) simp
    then show ?thesis
      using generate_after_reseed [OF assms(1) s(1,2) assms(4) _ e, of True True len] g s stale by (auto split: sum.splits)
  qed
qed

lemma entropy_input_total:
  assumes "stack_ok stack" and "sources_ok ent"
  shows "\<exists>ent' r. entropy_input stack ent = Some (ent', r) \<and> sources_ok ent' \<and> (\<forall>entropy. r = Inr entropy \<longrightarrow> length entropy = 32)"
  using get_entropy_input_total [of "stack_digest stack" ent 128] assms by (simp add: entropy_input_def stack_ok_def)

lemma drbg_instantiate_total:
  assumes "stack_ok stack" and "drbg_wf state" and "sources_ok ent"
  shows "\<exists>state' ent' r. drbg_instantiate stack personal state ent = Some (state', ent', r) \<and> drbg_wf state' \<and> sources_ok ent'
    \<and> (case r of Inl rc \<Rightarrow> state' = state | Inr _ \<Rightarrow> drbg_valid state' \<and> counter state' = 1)"
proof -
  have e: "(3 * DRBG_SECURITY_STRENGTH + 1) div 2 = 192" "DRBG_MIN_ENTROPY_LEN_BYTES = 16" "DRBG_MAX_ENTROPY_LEN_BYTES = 32"
    by (simp_all add: DRBG_SECURITY_STRENGTH_def DRBG_MIN_ENTROPY_LEN_BYTES_def DRBG_MAX_ENTROPY_LEN_BYTES_def)
  obtain ent' r where "get_entropy_input (stack_digest stack) 192 16 32 ent = Some (ent', r)" "sources_ok ent'"
    using get_entropy_input_total [of "stack_digest stack" ent 192] assms by (auto simp: stack_ok_def)
  moreover have "\<not> DRBG_SECURITY_STRENGTH > DRBG_MAX_SECURITY_STRENGTH"
    by (simp add: DRBG_SECURITY_STRENGTH_def DRBG_MAX_SECURITY_STRENGTH_def)
  moreover obtain state' where "drbg_instantiate_algorithm stack (projr r) personal state = Some state'" "drbg_wf state'" "counter state' = 1"
    using instantiate_algorithm_refines [OF assms(1,2)] by blast
  moreover have "drbg_wf (state'\<lparr>reseed_required := False, drbg_valid := True\<rparr>)" using calculation(5) by (simp add: drbg_wf_def)
  ultimately show ?thesis
    using assms(2,3) unfolding drbg_instantiate_def Let_def e by (cases r) simp_all
qed

definition counter_ok :: "drbg_state \<Rightarrow> bool" where
  "counter_ok state \<longleftrightarrow> (drbg_valid state \<longrightarrow> 1 \<le> counter state \<and> counter state \<le> HMAC_DRBG_RESEED_INTERVAL + 1)"

lemma counter_next:
  assumes "counter state \<le> HMAC_DRBG_RESEED_INTERVAL" and "counter state' = counter state + 1"
  shows "counter_ok state'"
proof -
  have "unat (counter state) \<le> 1024" using assms(1) by (simp add: HMAC_DRBG_RESEED_INTERVAL_def word_le_nat_alt)
  then have "unat (counter state') = unat (counter state) + 1" "unat (counter state) + 1 \<le> 1025"
    unfolding assms(2) by (simp_all add: unat_add_no_wrap)
  then show ?thesis by (simp add: counter_ok_def HMAC_DRBG_RESEED_INTERVAL_def word_le_nat_alt)
qed

lemma drbg_generate_total:
  assumes "stack_ok stack" and "drbg_wf state" and "sources_ok ent" and "counter_ok state"
  shows "\<exists>state' ent' r. drbg_generate stack additional pr len state ent = Some (state', ent', r) \<and> drbg_wf state' \<and> sources_ok ent'
    \<and> drbg_valid state' = drbg_valid state \<and> counter_ok state'
    \<and> (\<forall>data. r = Inr data \<longrightarrow> drbg_valid state \<and> length data = len \<and> len \<le> DRBG_MAX_GENERATED_LEN_BYTES)"
proof (cases "drbg_valid state \<and> length additional \<le> DRBG_MAX_ADDITIONAL_LEN_BYTES \<and> len \<le> DRBG_MAX_GENERATED_LEN_BYTES")
  case False
  then show ?thesis using assms(2-4) by (auto simp: drbg_generate_def)
next
  case True
  obtain ent' r where e: "entropy_input stack ent = Some (ent', r)" "sources_ok ent'" using entropy_input_total [OF assms(1,3)] by blast
  have two: "counter_ok state'" if "counter state' = 2" for state' using that by (simp add: counter_ok_def HMAC_DRBG_RESEED_INTERVAL_def)
  have err: "drbg_wf (state\<lparr>reseed_required := b\<rparr>)" "counter_ok (state\<lparr>reseed_required := b\<rparr>)" for b
    using assms(2,4) by (simp_all add: drbg_wf_def counter_ok_def)
  note c = drbg_generate_cases [OF assms(1,2) _ _ _ e(1), of additional len pr]
  show ?thesis
  proof (cases "\<not> pr \<and> counter state \<le> HMAC_DRBG_RESEED_INTERVAL")
    case direct: True
    then obtain state' data where "drbg_generate stack additional pr len state ent = Some (state', ent, Inr data)" "drbg_wf state'" "drbg_valid state'"
      "counter state' = counter state + 1" "DRBG_Generate HMAC_SHA256 32 additional len (key_value state) = (key_value state', data)"
      using c True by auto
    then show ?thesis using True assms(3) generated_length counter_next [of state state'] direct by auto
  next
    case reseed: False
    show ?thesis
    proof (cases r)
      case (Inl rc)
      then obtain b where "drbg_generate stack additional pr len state ent = Some (state\<lparr>reseed_required := b\<rparr>, ent', Inl rc)"
        using c True reseed by auto
      then show ?thesis using err [of b] e(2) by simp
    next
      case (Inr entropy)
      then obtain state' data where "drbg_generate stack additional pr len state ent = Some (state', ent', Inr data)" "drbg_wf state'" "drbg_valid state'"
        "counter state' = 2" "DRBG_Generate HMAC_SHA256 32 [] len (DRBG_Update HMAC_SHA256 (entropy @ additional) (key_value state)) = (key_value state', data)"
        using c True reseed by auto
      then show ?thesis using True e(2) generated_length two by auto
    qed
  qed
qed

section \<open>The random bit generator\<close>

definition rbg_init :: random_bit_generator where
  "rbg_init = \<lparr>rbg_state = \<lparr>drbg_internal = \<lparr>drbg_value = replicate 64 0, drbg_key = replicate 64 0, reseed_counter = 0\<rparr>,
     reseed_required = False, drbg_valid = False\<rparr>, rbg_started = False\<rparr>"

text \<open>The states that the operations reach from the initial one, with any stack, UUID and requests.\<close>

inductive rbg_reachable :: "'w entropy_state \<Rightarrow> random_bit_generator \<Rightarrow> 'w entropy_state \<Rightarrow> bool" for ent0 where
  rbg_initial: "rbg_reachable ent0 rbg_init ent0"
| rbg_start: "rbg_reachable ent0 rbg ent \<Longrightarrow> stack_ok stack \<Longrightarrow> rbg_startup_fn stack uuid rbg ent = Some (rbg', ent')
    \<Longrightarrow> rbg_reachable ent0 rbg' ent'"
| rbg_request: "rbg_reachable ent0 rbg ent \<Longrightarrow> stack_ok stack
    \<Longrightarrow> rbg_generate stack uuid additional pr len rbg ent = Some (rbg', ent', r) \<Longrightarrow> rbg_reachable ent0 rbg' ent'"
| rbg_stop: "rbg_reachable ent0 rbg ent \<Longrightarrow> rbg_reachable ent0 (rbg_shutdown rbg) ent"

definition rbg_ok :: "random_bit_generator \<Rightarrow> bool" where
  "rbg_ok rbg \<longleftrightarrow> drbg_wf (rbg_state rbg) \<and> counter_ok (rbg_state rbg) \<and> (drbg_valid (rbg_state rbg) \<longrightarrow> rbg_started rbg)"

lemma rbg_startup_total:
  assumes "stack_ok stack" and "rbg_ok rbg" and "sources_ok ent" and "\<not> rbg_started rbg"
  shows "\<exists>rbg' ent' r. rbg_startup stack uuid rbg ent = Some (rbg', ent', r) \<and> rbg_ok rbg' \<and> sources_ok ent' \<and> rbg_started rbg'"
proof -
  obtain state' ent' r where "drbg_instantiate stack (case uuid of Inl rc \<Rightarrow> [] | Inr uuid \<Rightarrow> uuid) (rbg_state rbg) ent = Some (state', ent', r)"
    "drbg_wf state'" "sources_ok ent'" "case r of Inl rc \<Rightarrow> state' = rbg_state rbg | Inr _ \<Rightarrow> drbg_valid state' \<and> counter state' = 1"
    using drbg_instantiate_total [OF assms(1) _ assms(3)] assms(2) unfolding rbg_ok_def by meson
  moreover have "counter_ok state'" using calculation(4) assms(2)
    by (auto simp: counter_ok_def rbg_ok_def HMAC_DRBG_RESEED_INTERVAL_def split: sum.splits)
  ultimately show ?thesis by (simp add: rbg_startup_def Let_def rbg_ok_def)
qed

lemma rbg_startup_fn_total:
  assumes "stack_ok stack" and "rbg_ok rbg" and "sources_ok ent"
  shows "\<exists>rbg' ent'. rbg_startup_fn stack uuid rbg ent = Some (rbg', ent') \<and> rbg_ok rbg' \<and> sources_ok ent' \<and> rbg_started rbg'"
  using rbg_startup_total [OF assms, of uuid] assms by (auto simp: rbg_startup_fn_def)

lemma rbg_generate_total:
  assumes "stack_ok stack" and "rbg_ok rbg" and "sources_ok ent"
  shows "\<exists>rbg' ent' r. rbg_generate stack uuid additional pr len rbg ent = Some (rbg', ent', r) \<and> rbg_ok rbg' \<and> sources_ok ent'
    \<and> (\<forall>data. r = Inr data \<longrightarrow> drbg_valid (rbg_state rbg') \<and> length data = len \<and> len \<le> DRBG_MAX_GENERATED_LEN_BYTES)"
proof -
  obtain rbg1 ent1 where 1: "rbg_startup_fn stack uuid rbg ent = Some (rbg1, ent1)" "rbg_ok rbg1" "sources_ok ent1" "rbg_started rbg1"
    using rbg_startup_fn_total [OF assms] by blast
  obtain state' ent' r where "drbg_generate stack additional pr len (rbg_state rbg1) ent1 = Some (state', ent', r)" "drbg_wf state'" "sources_ok ent'"
    "drbg_valid state' = drbg_valid (rbg_state rbg1)" "counter_ok state'"
    "\<forall>data. r = Inr data \<longrightarrow> drbg_valid (rbg_state rbg1) \<and> length data = len \<and> len \<le> DRBG_MAX_GENERATED_LEN_BYTES"
    using drbg_generate_total [OF assms(1) _ 1(3)] 1(2) unfolding rbg_ok_def by meson
  then show ?thesis
    using 1(1,4) by (auto simp: rbg_generate_def rbg_startup_fn_def [symmetric] rbg_ok_def)
qed

lemma rbg_reachable_ok: "rbg_reachable ent0 rbg ent \<Longrightarrow> sources_ok ent0 \<Longrightarrow> rbg_ok rbg \<and> sources_ok ent"
proof (induction rule: rbg_reachable.induct)
  case rbg_initial
  then show ?case by (simp add: rbg_init_def rbg_ok_def drbg_wf_def counter_ok_def)
next
  case (rbg_start rbg ent stack uuid rbg' ent')
  then show ?case using rbg_startup_fn_total [of stack rbg ent uuid] by auto
next
  case (rbg_request rbg ent stack uuid additional pr len rbg' ent' r)
  then show ?case using rbg_generate_total [of stack rbg ent uuid additional pr len] by auto
next
  case (rbg_stop rbg ent)
  then show ?case by (simp add: rbg_shutdown_def drbg_uninstantiate_def rbg_ok_def drbg_wf_def counter_ok_def)
qed

section \<open>Properties\<close>

text \<open>
  Claim C6. A request to an instantiated generator always returns, with at most one reseed. Without
  prediction resistance and within the reseed interval its bits and its new key and value are those
  of HMAC\_DRBG\_Generate of NIST SP 800-90. Otherwise it first takes fresh entropy input: the bits
  are those after HMAC\_DRBG\_Update with the entropy and the additional input, and if the entropy
  sources fail, the error is theirs and the key and the value are unchanged.
\<close>

theorem drbg_generate_refines:
  assumes "stack_ok stack" and "drbg_wf state" and "drbg_valid state" and "length additional \<le> DRBG_MAX_ADDITIONAL_LEN_BYTES"
    and "len \<le> DRBG_MAX_GENERATED_LEN_BYTES" and "sources_ok ent"
  shows "\<exists>ent' r. entropy_input stack ent = Some (ent', r) \<and>
    (if \<not> pr \<and> counter state \<le> HMAC_DRBG_RESEED_INTERVAL
     then \<exists>state' data. drbg_generate stack additional pr len state ent = Some (state', ent, Inr data) \<and> drbg_wf state' \<and> drbg_valid state'
       \<and> counter state' = counter state + 1 \<and> DRBG_Generate HMAC_SHA256 32 additional len (key_value state) = (key_value state', data)
     else case r of Inl rc \<Rightarrow> \<exists>b. drbg_generate stack additional pr len state ent = Some (state\<lparr>reseed_required := b\<rparr>, ent', Inl rc)
       | Inr entropy \<Rightarrow> \<exists>state' data. drbg_generate stack additional pr len state ent = Some (state', ent', Inr data)
         \<and> drbg_wf state' \<and> drbg_valid state' \<and> counter state' = 2
         \<and> DRBG_Generate HMAC_SHA256 32 [] len (DRBG_Update HMAC_SHA256 (entropy @ additional) (key_value state)) = (key_value state', data))"
  using entropy_input_total [OF assms(1,6)] drbg_generate_cases [OF assms(1-5), of ent _ _ pr] by blast

definition example_stack :: drbg_stack where
  "example_stack = \<lparr>stack_digest = \<lparr>ctx_len = 0, ctx_h = [], ctx_data = replicate 64 0, digestsize = 0\<rparr>,
     stack_hmac = \<lparr>hc_ctx = \<lparr>ctx_len = 0, ctx_h = [], ctx_data = replicate 64 0, digestsize = 0\<rparr>, hc_pad = []\<rparr>\<rparr>"

definition example_drbg :: drbg_state where
  "example_drbg = \<lparr>drbg_internal = \<lparr>drbg_value = replicate 64 1, drbg_key = replicate 64 2, reseed_counter = 1024\<rparr>,
     reseed_required = False, drbg_valid = True\<rparr>"

definition example_ent :: "u8 result list entropy_state" where
  "example_ent = \<lparr>ent_sources = [example_source], ent_nonce = 0, ent_world = []\<rparr>"

lemma example_ok: "stack_ok example_stack" "drbg_wf example_drbg" "drbg_valid example_drbg" "sources_ok example_ent"
  by (simp_all add: example_stack_def example_drbg_def example_ent_def stack_ok_def drbg_wf_def sources_ok_def source_ok_def example_source_def
      MIN_ENTROPY_def MIN_ENTROPY_SCALE_def)

theorem drbg_generate_refines_witness:
  "\<exists>state' data. drbg_generate example_stack [1, 2] False 40 example_drbg example_ent = Some (state', example_ent, Inr data)
     \<and> counter state' = 1025
     \<and> DRBG_Generate HMAC_SHA256 32 [1, 2] 40 (replicate 32 2, replicate 32 1) = (key_value state', data)"
proof -
  have "key_value example_drbg = (replicate 32 2, replicate 32 1)" "counter example_drbg = 1024"
    by (simp_all add: key_value_def example_drbg_def)
  then show ?thesis
    using drbg_generate_refines [OF example_ok(1-3) _ _ example_ok(4), of "[1, 2]" 40 False]
    by (auto simp: DRBG_MAX_ADDITIONAL_LEN_BYTES_def DRBG_MAX_GENERATED_LEN_BYTES_def HMAC_DRBG_RESEED_INTERVAL_def)
qed

text \<open>
  Claim C15. In every state that the random bit generator reaches by starting, requests and shutting
  down, its buffers have room for the key and the value, it is instantiated only when started, the
  reseed counter of an instantiated generator is between 1 and the interval plus one, and every
  request returns: with as many bytes as requested from an instantiated generator, or with an error.
\<close>

theorem rbg_reachable_total:
  assumes "rbg_reachable ent0 rbg ent" and "sources_ok ent0" and "stack_ok stack"
  shows "drbg_wf (rbg_state rbg) \<and> (drbg_valid (rbg_state rbg) \<longrightarrow> rbg_started rbg \<and> 1 \<le> counter (rbg_state rbg) \<and> counter (rbg_state rbg) \<le> 1025)
    \<and> (\<exists>rbg' ent' r. rbg_generate stack uuid additional pr len rbg ent = Some (rbg', ent', r)
      \<and> (\<forall>data. r = Inr data \<longrightarrow> drbg_valid (rbg_state rbg') \<and> length data = len \<and> len \<le> DRBG_MAX_GENERATED_LEN_BYTES))"
proof -
  have "rbg_ok rbg" "sources_ok ent" using rbg_reachable_ok [OF assms(1,2)] by simp_all
  then show ?thesis
    using rbg_generate_total [OF assms(3), of rbg ent uuid additional pr len]
    by (auto simp: rbg_ok_def counter_ok_def HMAC_DRBG_RESEED_INTERVAL_def)
qed

theorem rbg_reachable_total_witness:
  "\<exists>rbg' ent' r. rbg_generate example_stack (Inl ENOENT) [] False 16 (rbg_shutdown rbg_init) example_ent = Some (rbg', ent', r)"
  using rbg_reachable_total [OF rbg_stop [OF rbg_initial] example_ok(4,1), of "Inl ENOENT" "[]" False 16] by blast

end
