(* ===== verification/Tcp.thy ===== *)
theory Tcp
  imports Udp Retry "HOL-Library.Monad_Syntax"
begin

text \<open>
  TCP (net/tcp.c, include/ipxe/tcp.h). The state of a connection is a record with the fields of
  the structure; the timers are those of the retry timer component, under three indices for each
  connection; queues of buffers are lists of their data. The current time, allocations, the
  receive window and the reactions of the application and the network layers are an environment.
  What the stack tells the application and takes from it, and the packets it hands to the network
  layer, are a log, oldest first. An operation that C leaves undefined gives no result.
\<close>

section \<open>Constants\<close>

definition IP_TCP :: u8 where "IP_TCP = 6"

definition TCP_OPTION_END :: u8 where "TCP_OPTION_END = 0"
definition TCP_OPTION_NOP :: u8 where "TCP_OPTION_NOP = 1"
definition TCP_OPTION_MSS :: u8 where "TCP_OPTION_MSS = 2"
definition TCP_OPTION_WS :: u8 where "TCP_OPTION_WS = 3"
definition TCP_RX_WINDOW_SCALE :: u8 where "TCP_RX_WINDOW_SCALE = 9"
definition TCP_OPTION_SACK_PERMITTED :: u8 where "TCP_OPTION_SACK_PERMITTED = 4"
definition TCP_SACK_MAX :: nat where "TCP_SACK_MAX = 3"
definition TCP_OPTION_SACK :: u8 where "TCP_OPTION_SACK = 5"
definition TCP_OPTION_TS :: u8 where "TCP_OPTION_TS = 8"

definition TCP_ACK :: u32 where "TCP_ACK = 0x10"
definition TCP_PSH :: u32 where "TCP_PSH = 0x08"
definition TCP_RST :: u32 where "TCP_RST = 0x04"
definition TCP_SYN :: u32 where "TCP_SYN = 0x02"
definition TCP_FIN :: u32 where "TCP_FIN = 0x01"

definition TCP_STATE_SENT :: "u32 \<Rightarrow> u32" where "TCP_STATE_SENT flags = flags"
definition TCP_FLAGS_SENT :: "u32 \<Rightarrow> u32" where "TCP_FLAGS_SENT state = state AND 0xff"
definition TCP_STATE_ACKED :: "u32 \<Rightarrow> u32" where "TCP_STATE_ACKED flags = push_bit 8 flags"
definition TCP_FLAGS_ACKED :: "u32 \<Rightarrow> u32" where "TCP_FLAGS_ACKED state = drop_bit 8 state AND 0xff"
definition TCP_STATE_RCVD :: "u32 \<Rightarrow> u32" where "TCP_STATE_RCVD flags = push_bit 16 flags"
definition TCP_FLAGS_SENDING :: "u32 \<Rightarrow> u32" where
  "TCP_FLAGS_SENDING state = TCP_FLAGS_SENT state AND NOT (TCP_FLAGS_ACKED state)"

definition TCP_CLOSED :: u32 where "TCP_CLOSED = TCP_RST"
definition TCP_SYN_SENT :: u32 where "TCP_SYN_SENT = TCP_STATE_SENT TCP_SYN"
definition TCP_SYN_RCVD :: u32 where "TCP_SYN_RCVD = TCP_STATE_SENT (TCP_SYN OR TCP_ACK) OR TCP_STATE_RCVD TCP_SYN"
definition TCP_ESTABLISHED :: u32 where
  "TCP_ESTABLISHED = TCP_STATE_SENT (TCP_SYN OR TCP_ACK) OR TCP_STATE_ACKED TCP_SYN OR TCP_STATE_RCVD TCP_SYN"
definition TCP_FIN_WAIT_1 :: u32 where
  "TCP_FIN_WAIT_1 = TCP_STATE_SENT (TCP_SYN OR TCP_ACK OR TCP_FIN) OR TCP_STATE_ACKED TCP_SYN OR TCP_STATE_RCVD TCP_SYN"
definition TCP_FIN_WAIT_2 :: u32 where
  "TCP_FIN_WAIT_2 = TCP_STATE_SENT (TCP_SYN OR TCP_ACK OR TCP_FIN) OR TCP_STATE_ACKED (TCP_SYN OR TCP_FIN) OR TCP_STATE_RCVD TCP_SYN"
definition TCP_CLOSING_OR_LAST_ACK :: u32 where
  "TCP_CLOSING_OR_LAST_ACK = TCP_STATE_SENT (TCP_SYN OR TCP_ACK OR TCP_FIN) OR TCP_STATE_ACKED TCP_SYN OR TCP_STATE_RCVD (TCP_SYN OR TCP_FIN)"
definition TCP_TIME_WAIT :: u32 where
  "TCP_TIME_WAIT = TCP_STATE_SENT (TCP_SYN OR TCP_ACK OR TCP_FIN) OR TCP_STATE_ACKED (TCP_SYN OR TCP_FIN) OR TCP_STATE_RCVD (TCP_SYN OR TCP_FIN)"
definition TCP_CLOSE_WAIT :: u32 where
  "TCP_CLOSE_WAIT = TCP_STATE_SENT (TCP_SYN OR TCP_ACK) OR TCP_STATE_ACKED TCP_SYN OR TCP_STATE_RCVD (TCP_SYN OR TCP_FIN)"

definition TCP_CAN_SEND_DATA :: "u32 \<Rightarrow> bool" where
  "TCP_CAN_SEND_DATA state \<longleftrightarrow> state AND (TCP_STATE_ACKED TCP_SYN OR TCP_STATE_SENT TCP_FIN) = TCP_STATE_ACKED TCP_SYN"
definition TCP_HAS_BEEN_ESTABLISHED :: "u32 \<Rightarrow> bool" where
  "TCP_HAS_BEEN_ESTABLISHED state \<longleftrightarrow>
     state AND (TCP_STATE_ACKED TCP_SYN OR TCP_STATE_RCVD TCP_SYN) = TCP_STATE_ACKED TCP_SYN OR TCP_STATE_RCVD TCP_SYN"
definition TCP_CLOSED_GRACEFULLY :: "u32 \<Rightarrow> bool" where
  "TCP_CLOSED_GRACEFULLY state \<longleftrightarrow>
     state AND (TCP_STATE_ACKED TCP_FIN OR TCP_STATE_RCVD TCP_FIN) = TCP_STATE_ACKED TCP_FIN OR TCP_STATE_RCVD TCP_FIN"

definition TCP_MASK_HLEN :: u8 where "TCP_MASK_HLEN = 0xf0"
definition TCP_MAX_WINDOW_SIZE :: u32 where "TCP_MAX_WINDOW_SIZE = 2048 * 1024"
definition TCP_PATH_MTU :: nat where "TCP_PATH_MTU = 1280 - 40 - 20 - 12"
definition TCP_MSL :: u64 where "TCP_MSL = 2 * 60 * TICKS_PER_SEC"
definition TCP_KEEPALIVE_DELAY :: u64 where "TCP_KEEPALIVE_DELAY = 15 * TICKS_PER_SEC"
definition TCP_FINISH_TIMEOUT :: u64 where "TCP_FINISH_TIMEOUT = 1 * TICKS_PER_SEC"

definition TCP_XFER_CLOSED :: u32 where "TCP_XFER_CLOSED = 0x0001"
definition TCP_TS_ENABLED :: u32 where "TCP_TS_ENABLED = 0x0002"
definition TCP_ACK_PENDING :: u32 where "TCP_ACK_PENDING = 0x0004"
definition TCP_SACK_ENABLED :: u32 where "TCP_SACK_ENABLED = 0x0008"

text \<open>Whether any of the bits of a mask is set, as in the conditions of the code.\<close>

definition has :: "u32 \<Rightarrow> u32 \<Rightarrow> bool" where
  "has state flags \<longleftrightarrow> state AND flags \<noteq> 0"

section \<open>Sequence numbers\<close>

definition tcp_cmp :: "u32 \<Rightarrow> u32 \<Rightarrow> int" where
  "tcp_cmp seq1 seq2 = sint (seq1 - seq2)"

definition tcp_in_window :: "u32 \<Rightarrow> u32 \<Rightarrow> u32 \<Rightarrow> bool" where
  "tcp_in_window seq first len \<longleftrightarrow> seq - first < len"

section \<open>Packets\<close>

record tcp_header =
  th_src :: u16
  th_dest :: u16
  th_seq :: u32
  th_ack :: u32
  th_hlen :: u8
  th_flags :: u8
  th_win :: u16
  th_csum :: u16
  th_urg :: u16

definition sizeof_tcphdr :: nat where "sizeof_tcphdr = 20"

definition tcphdr_bytes :: "tcp_header \<Rightarrow> bytes" where
  "tcphdr_bytes h = bytes_u16 (th_src h) @ bytes_u16 (th_dest h) @ bytes_u32 (th_seq h) @ bytes_u32 (th_ack h)
     @ [th_hlen h, th_flags h] @ bytes_u16 (th_win h) @ bytes_u16 (th_csum h) @ bytes_u16 (th_urg h)"

definition get_tcphdr :: "bytes \<Rightarrow> tcp_header" where
  "get_tcphdr d = \<lparr>th_src = load_u16 d, th_dest = load_u16 (drop 2 d), th_seq = load_u32 (drop 4 d), th_ack = load_u32 (drop 8 d),
     th_hlen = d ! 12, th_flags = d ! 13, th_win = load_u16 (drop 14 d), th_csum = load_u16 (drop 16 d), th_urg = load_u16 (drop 18 d)\<rparr>"

definition tcp_mss_option :: "u16 \<Rightarrow> bytes" where
  "tcp_mss_option mss = [TCP_OPTION_MSS, 4] @ bytes_u16 mss"

definition tcp_window_scale_padded_option :: "u8 \<Rightarrow> bytes" where
  "tcp_window_scale_padded_option scale = [TCP_OPTION_NOP, TCP_OPTION_WS, 3, scale]"

definition tcp_sack_permitted_padded_option :: bytes where
  "tcp_sack_permitted_padded_option = [TCP_OPTION_NOP, TCP_OPTION_NOP, TCP_OPTION_SACK_PERMITTED, 2]"

definition tcp_timestamp_padded_option :: "u32 \<Rightarrow> u32 \<Rightarrow> bytes" where
  "tcp_timestamp_padded_option tsval tsecr = [TCP_OPTION_NOP, TCP_OPTION_NOP, TCP_OPTION_TS, 10] @ bytes_u32 tsval @ bytes_u32 tsecr"

definition tcp_sack_padded_option :: "(u32 \<times> u32) list \<Rightarrow> bytes" where
  "tcp_sack_padded_option sack = [TCP_OPTION_NOP, TCP_OPTION_NOP, TCP_OPTION_SACK, of_nat (2 + 8 * length sack)]
     @ concat (map (\<lambda>(left, right). bytes_u32 (htonl left) @ bytes_u32 (htonl right)) sack)"

definition TCP_MAX_HEADER_LEN :: nat where
  "TCP_MAX_HEADER_LEN = MAX_LL_NET_HEADER_LEN + sizeof_tcphdr + length (tcp_mss_option 0)
     + length (tcp_window_scale_padded_option 0) + length (tcp_timestamp_padded_option 0 0)"

text \<open>The options of a received packet: the scale, whether SACK is permitted, the timestamp.\<close>

record tcp_options =
  opt_wsopt :: "u8 option"
  opt_spopt :: bool
  opt_tsopt :: "u32 option"

definition tcp_option_min :: "u8 \<Rightarrow> nat" where
  "tcp_option_min kind = (if kind = TCP_OPTION_WS then 3 else if kind = TCP_OPTION_SACK_PERMITTED then 2
     else if kind = TCP_OPTION_TS then 10 else 2)"

definition tcp_option_record :: "bytes \<Rightarrow> tcp_options \<Rightarrow> tcp_options" where
  "tcp_option_record data options =
     (if data ! 0 = TCP_OPTION_WS then options\<lparr>opt_wsopt := Some (data ! 2)\<rparr>
      else if data ! 0 = TCP_OPTION_SACK_PERMITTED then options\<lparr>opt_spopt := True\<rparr>
      else if data ! 0 = TCP_OPTION_TS then options\<lparr>opt_tsopt := Some (load_u32 (drop 2 data))\<rparr>
      else options)"

function tcp_rx_opts_loop :: "bytes \<Rightarrow> tcp_options \<Rightarrow> tcp_options result" where
  "tcp_rx_opts_loop data options =
     (let remaining = length data
      in if remaining = 0 then Inr options
         else
           let kind = data ! 0
           in if kind = TCP_OPTION_END then Inr options
              else if kind = TCP_OPTION_NOP then tcp_rx_opts_loop (drop 1 data) options
              else
                let min = tcp_option_min kind
                in if remaining < min then Inl EINVAL
                   else if unat (data ! 1) < min then Inl EINVAL
                   else if unat (data ! 1) > remaining then Inl EINVAL
                   else tcp_rx_opts_loop (drop (unat (data ! 1)) data) (tcp_option_record data options))"
  by pat_completeness auto

termination
  by (relation "measure (length \<circ> fst)") (auto simp: tcp_option_min_def split: if_splits)

declare tcp_rx_opts_loop.simps [simp del]

definition tcp_rx_opts :: "bytes \<Rightarrow> nat \<Rightarrow> tcp_options result" where
  "tcp_rx_opts packet hlen =
     tcp_rx_opts_loop (take (hlen - sizeof_tcphdr) (drop sizeof_tcphdr packet)) \<lparr>opt_wsopt = None, opt_spopt = False, opt_tsopt = None\<rparr>"

section \<open>Connections\<close>

record tcp_rx_queued =
  q_seq :: u32
  q_nxt :: u32
  q_flags :: u32
  q_data :: bytes

record tcp_connection =
  tcp_id :: nat
  on_list :: bool
  tcp_flags :: u32
  tcp_peer :: sockaddr_tcpip
  local_port :: u32
  tcp_mss :: u64
  tcp_state :: u32
  snd_seq :: u32
  snd_sent :: u32
  snd_win :: u32
  rcv_ack :: u32
  rcv_win :: u32
  ts_val :: u32
  ts_recent :: u32
  snd_win_scale :: u8
  rcv_win_scale :: u8
  tcp_sacks :: "(u32 \<times> u32) list"
  tx_queue :: "bytes list"
  rx_queue :: "tcp_rx_queued list"
  process_running :: bool
  pending_flags :: nat
  pending_data :: nat

record tcp_statistics =
  in_segs :: u64
  in_discards :: u64
  in_out_of_order :: u64
  in_octets :: u64
  in_octets_good :: u64

text \<open>What the application is told and hands over, and what is handed to the network layer.\<close>

datatype tcp_event =
    Deliver nat bytes
  | Queued nat bytes
  | Closed nat "errno option"
  | Window_changed nat
  | Transmit nat bytes

record 's tcp_shared =
  sh_retry :: retry_state
  sh_net :: 's
  sh_pending_total :: int
  sh_stats :: tcp_statistics
  sh_log :: "tcp_event list"
  sh_frames :: "tx_action list"

text \<open>
  What the application may do when data are delivered to it: close, send, or allocate memory so
  that cached packets are discarded. An allocation of the stack itself runs the discarder
  te_discards times before it succeeds or fails.
\<close>

datatype app_call =
    App_close "errno option"
  | App_send bytes
  | App_discard

record 's tcp_env =
  te_now :: u64
  te_addr :: u64
  te_alloc :: "nat \<Rightarrow> io_buffer option"
  te_discards :: nat
  te_window :: u64
  te_reaction :: "bytes \<Rightarrow> app_call list"
  te_nets :: "'s tcpip_net list"
  te_mtu :: "nat \<Rightarrow> u64"

definition tcp_timer :: "tcp_connection \<Rightarrow> nat" where "tcp_timer tcp = 3 * tcp_id tcp"
definition tcp_keepalive :: "tcp_connection \<Rightarrow> nat" where "tcp_keepalive tcp = 3 * tcp_id tcp + 1"
definition tcp_wait :: "tcp_connection \<Rightarrow> nat" where "tcp_wait tcp = 3 * tcp_id tcp + 2"

definition on_retry :: "(retry_state \<Rightarrow> retry_state) \<Rightarrow> 's tcp_shared \<Rightarrow> 's tcp_shared" where
  "on_retry f sh = sh\<lparr>sh_retry := f (sh_retry sh)\<rparr>"

definition log_event :: "tcp_event \<Rightarrow> 's tcp_shared \<Rightarrow> 's tcp_shared" where
  "log_event e sh = sh\<lparr>sh_log := sh_log sh @ [e]\<rparr>"

text \<open>Pending operations (core/pending.c) of a connection, which are counted in total too.\<close>

definition pending_get :: "nat \<Rightarrow> 's tcp_shared \<Rightarrow> nat \<times> 's tcp_shared" where
  "pending_get n sh = (n + 1, sh\<lparr>sh_pending_total := sh_pending_total sh + 1\<rparr>)"

definition pending_put :: "nat \<Rightarrow> 's tcp_shared \<Rightarrow> nat \<times> 's tcp_shared" where
  "pending_put n sh = (if n \<noteq> 0 then (n - 1, sh\<lparr>sh_pending_total := sh_pending_total sh - 1\<rparr>) else (n, sh))"

definition on_counts :: "((nat \<Rightarrow> int) \<Rightarrow> nat \<Rightarrow> int) \<Rightarrow> 's tcp_shared \<Rightarrow> 's tcp_shared" where
  "on_counts f sh = on_retry (\<lambda>s. s\<lparr>counts := f (counts s)\<rparr>) sh"

text \<open>The process of a connection (core/process.c) holds a reference to it while it is queued.\<close>

definition process_add :: "tcp_connection \<Rightarrow> 's tcp_shared \<Rightarrow> tcp_connection \<times> 's tcp_shared" where
  "process_add tcp sh =
     (if \<not> process_running tcp then (tcp\<lparr>process_running := True\<rparr>, on_counts (ref_increment (Some (tcp_id tcp))) sh) else (tcp, sh))"

definition process_del :: "tcp_connection \<Rightarrow> 's tcp_shared \<Rightarrow> tcp_connection \<times> 's tcp_shared" where
  "process_del tcp sh =
     (if process_running tcp then (tcp\<lparr>process_running := False\<rparr>, on_counts (ref_decrement (Some (tcp_id tcp))) sh) else (tcp, sh))"

text \<open>What the discarder of cached packets does to one connection.\<close>

definition tcp_discard_one :: "tcp_connection \<Rightarrow> 's tcp_shared \<Rightarrow> tcp_connection \<times> 's tcp_shared" where
  "tcp_discard_one tcp sh =
     (if rx_queue tcp = [] then (tcp, sh)
      else (tcp\<lparr>rx_queue := butlast (rx_queue tcp)\<rparr>,
            sh\<lparr>sh_stats := (sh_stats sh)\<lparr>in_discards := in_discards (sh_stats sh) + 1\<rparr>\<rparr>))"

definition tcp_alloc_iob :: "'s tcp_env \<Rightarrow> nat \<Rightarrow> tcp_connection \<Rightarrow> 's tcp_shared \<Rightarrow> tcp_connection \<times> 's tcp_shared \<times> io_buffer option" where
  "tcp_alloc_iob env len tcp sh =
     (case ((\<lambda>(tcp, sh). tcp_discard_one tcp sh) ^^ te_discards env) (tcp, sh) of (tcp, sh) \<Rightarrow> (tcp, sh, te_alloc env len))"

section \<open>Transmit data path\<close>

definition tcp_xmit_win :: "tcp_connection \<Rightarrow> nat" where
  "tcp_xmit_win tcp =
     (if \<not> TCP_CAN_SEND_DATA (tcp_state tcp) then 0
      else
        let len = unat (snd_win tcp)
        in if len > TCP_PATH_MTU then TCP_PATH_MTU else len)"

definition tcp_xfer_window :: "tcp_connection \<Rightarrow> nat" where
  "tcp_xfer_window tcp = (if tx_queue tcp \<noteq> [] then 0 else tcp_xmit_win tcp)"

fun sack_scan :: "u32 \<Rightarrow> tcp_rx_queued list \<Rightarrow> u32 \<Rightarrow> u32 \<Rightarrow> u32 \<times> u32" where
  "sack_scan seq [] left right = (left, right)"
| "sack_scan seq (q # qs) left right =
     (if tcp_cmp (q_seq q) right > 0 \<and> tcp_cmp (q_seq q) seq > 0 then (left, right)
      else
        let left = (if tcp_cmp (q_seq q) right > 0 then q_seq q else left);
            right = (if tcp_cmp (q_nxt q) right > 0 then q_nxt q else right)
        in sack_scan seq qs left right)"

text \<open>The block that holds a sequence number, or none if its length is zero.\<close>

definition tcp_sack_block :: "tcp_connection \<Rightarrow> u32 \<Rightarrow> (u32 \<times> u32) option" where
  "tcp_sack_block tcp seq =
     (case sack_scan seq (rx_queue tcp) (rcv_ack tcp) (rcv_ack tcp) of
        (left, right) \<Rightarrow> if tcp_cmp right seq < 0 then None else if right - left = 0 then None else Some (left, right))"

fun sack_remaining :: "tcp_connection \<Rightarrow> (u32 \<times> u32) list \<Rightarrow> (u32 \<times> u32) list \<Rightarrow> (u32 \<times> u32) list" where
  "sack_remaining tcp [] new = new"
| "sack_remaining tcp (old # olds) new =
     (if length new = TCP_SACK_MAX then new
      else if fst old = snd old then sack_remaining tcp olds new
      else case tcp_sack_block tcp (fst old) of
        None \<Rightarrow> sack_remaining tcp olds new
      | Some block \<Rightarrow> sack_remaining tcp olds (if \<exists>b \<in> set new. fst b = fst block then new else new @ [block]))"

definition tcp_sack :: "tcp_connection \<Rightarrow> u32 \<Rightarrow> tcp_connection \<times> nat" where
  "tcp_sack tcp seq =
     (let new = (case tcp_sack_block tcp seq of None \<Rightarrow> [] | Some block \<Rightarrow> [block]);
          new = sack_remaining tcp (tcp_sacks tcp) new
      in (tcp\<lparr>tcp_sacks := new @ replicate (TCP_SACK_MAX - length new) (0, 0)\<rparr>, length new))"

text \<open>The queue that is left, the data processed, and the number of buffers that are freed.\<close>

fun process_tx_queue :: "bool \<Rightarrow> nat \<Rightarrow> bytes list \<Rightarrow> bytes list \<times> bytes \<times> nat" where
  "process_tx_queue remove max_len [] = ([], [], 0)"
| "process_tx_queue remove max_len (iobuf # queue) =
     (let frag_len = (if length iobuf > max_len then max_len else length iobuf);
          rest = (if remove then drop frag_len iobuf else iobuf)
      in case process_tx_queue remove (max_len - frag_len) queue of
           (queue, data, freed) \<Rightarrow>
             if remove \<and> length rest = 0 then (queue, take frag_len iobuf @ data, freed + 1)
             else (rest # queue, take frag_len iobuf @ data, freed))"

definition tcp_process_tx_queue :: "tcp_connection \<Rightarrow> 's tcp_shared \<Rightarrow> nat \<Rightarrow> bool \<Rightarrow> tcp_connection \<times> 's tcp_shared \<times> bytes" where
  "tcp_process_tx_queue tcp sh max_len remove =
     (case process_tx_queue remove max_len (tx_queue tcp) of
        (queue, data, freed) \<Rightarrow>
          (case ((\<lambda>(n, sh). pending_put n sh) ^^ freed) (pending_data tcp, sh) of
             (n, sh) \<Rightarrow> (tcp\<lparr>tx_queue := queue, pending_data := n\<rparr>, sh, data)))"

definition tcp_protocol :: tcpip_protocol where
  "tcp_protocol = \<lparr>zero_csum = 0, tcpip_proto = IP_TCP\<rparr>"

definition tcp_expand_window :: "'s tcp_env \<Rightarrow> tcp_connection \<Rightarrow> tcp_connection" where
  "tcp_expand_window env tcp =
     (let max_rcv_win = ucast (te_window env);
          max_rcv_win = (if max_rcv_win > TCP_MAX_WINDOW_SIZE then TCP_MAX_WINDOW_SIZE else max_rcv_win);
          max_representable_win = push_bit (unat (rcv_win_scale tcp)) 0xffff;
          max_rcv_win = (if max_rcv_win > max_representable_win then max_representable_win else max_rcv_win);
          max_rcv_win = max_rcv_win AND NOT 0x03
      in if rcv_win tcp < max_rcv_win then tcp\<lparr>rcv_win := max_rcv_win\<rparr> else tcp)"

text \<open>The options, in the order in which they are pushed in front of the data.\<close>

definition tcp_tx_options :: "'s tcp_env \<Rightarrow> u32 \<Rightarrow> u32 \<Rightarrow> tcp_connection \<Rightarrow> tcp_connection \<times> bytes list" where
  "tcp_tx_options env fl sack_seq tcp =
     (let syn = (if has fl TCP_SYN then
            [tcp_mss_option (htons (ucast (tcp_mss tcp))), tcp_window_scale_padded_option TCP_RX_WINDOW_SCALE, tcp_sack_permitted_padded_option]
          else []);
          ts = (if has fl TCP_SYN \<or> has (tcp_flags tcp) TCP_TS_ENABLED then
            [tcp_timestamp_padded_option (htonl (ucast (te_now env))) (htonl (ts_recent tcp))]
          else [])
      in if has (tcp_flags tcp) TCP_SACK_ENABLED \<and> rx_queue tcp \<noteq> [] then
           (case tcp_sack tcp sack_seq of
              (tcp, sack_count) \<Rightarrow>
                (tcp, syn @ ts @ (if sack_count \<noteq> 0 then [tcp_sack_padded_option (take sack_count (tcp_sacks tcp))] else [])))
         else (tcp, syn @ ts))"

fun iob_push_all :: "bytes list \<Rightarrow> io_buffer \<Rightarrow> io_buffer option" where
  "iob_push_all [] iobuf = Some iobuf"
| "iob_push_all (opt # opts) iobuf = iob_prepend iobuf opt \<bind> iob_push_all opts"

definition tcp_make_header :: "tcp_connection \<Rightarrow> u32 \<Rightarrow> nat \<Rightarrow> tcp_header" where
  "tcp_make_header tcp fl hlen =
     \<lparr>th_src = htons (ucast (local_port tcp)), th_dest = st_port (tcp_peer tcp), th_seq = htonl (snd_seq tcp), th_ack = htonl (rcv_ack tcp),
      th_hlen = of_nat (hlen * 4), th_flags = ucast fl, th_win = htons (ucast (drop_bit (unat (rcv_win_scale tcp)) (rcv_win tcp))),
      th_csum = 0, th_urg = 0\<rparr>"

definition tcp_transmit ::
  "'s tcp_env \<Rightarrow> nat \<Rightarrow> sockaddr_tcpip \<Rightarrow> tcp_header \<Rightarrow> io_buffer \<Rightarrow> 's tcp_shared \<Rightarrow> ('s tcp_shared \<times> unit result) option" where
  "tcp_transmit env i dest tcphdr iobuf sh = do {
     pushed \<leftarrow> iob_prepend iobuf (tcphdr_bytes tcphdr);
     let csum = tcpip_chksum (te_addr env) (iob_data pushed);
     pushed \<leftarrow> iob_prepend iobuf (tcphdr_bytes (tcphdr\<lparr>th_csum := csum\<rparr>));
     let sh = log_event (Transmit i (iob_data pushed)) sh;
     (net, r) \<leftarrow> tcpip_tx (te_nets env) pushed tcp_protocol None dest None (Some 16) (sh_net sh);
     Some (case r of
       Inl rc \<Rightarrow> (sh\<lparr>sh_net := net\<rparr>, Inl rc)
     | Inr frame \<Rightarrow> (sh\<lparr>sh_net := net, sh_frames := sh_frames sh @ [frame]\<rparr>, Inr ()))
   }"

text \<open>Filling and sending the buffer of a packet with len bytes of data.\<close>

definition tcp_xmit_packet ::
  "'s tcp_env \<Rightarrow> u32 \<Rightarrow> u32 \<Rightarrow> nat \<Rightarrow> io_buffer \<Rightarrow> tcp_connection \<Rightarrow> 's tcp_shared \<Rightarrow> (tcp_connection \<times> 's tcp_shared) option" where
  "tcp_xmit_packet env sack_seq fl len iobuf tcp sh = do {
     iobuf \<leftarrow> iob_reserve iobuf TCP_MAX_HEADER_LEN;
     iobuf \<leftarrow> iob_append iobuf (snd (snd (tcp_process_tx_queue tcp sh len False)));
     let tcp = tcp_expand_window env tcp;
     let payload = iob_len iobuf;
     let (tcp, options) = tcp_tx_options env fl sack_seq tcp;
     iobuf \<leftarrow> iob_push_all options iobuf;
     let fl = (if len \<noteq> 0 then fl OR TCP_PSH else fl);
     let tcphdr = tcp_make_header tcp fl (iob_len iobuf - payload + sizeof_tcphdr);
     (sh, r) \<leftarrow> tcp_transmit env (tcp_id tcp) (tcp_peer tcp) tcphdr iobuf sh;
     case r of
       Inl rc \<Rightarrow> Some (tcp, sh)
     | Inr _ \<Rightarrow> Some (tcp\<lparr>tcp_flags := tcp_flags tcp AND NOT TCP_ACK_PENDING\<rparr>, sh)
   }"

definition tcp_xmit_sack :: "'s tcp_env \<Rightarrow> u32 \<Rightarrow> tcp_connection \<Rightarrow> 's tcp_shared \<Rightarrow> (tcp_connection \<times> 's tcp_shared) option" where
  "tcp_xmit_sack env sack_seq tcp sh =
     (if running (timer (sh_retry sh) (tcp_timer tcp)) then Some (tcp, sh)
      else
        let len = (if TCP_CAN_SEND_DATA (tcp_state tcp) then
                     length (snd (snd (tcp_process_tx_queue tcp sh (tcp_xmit_win tcp) False)))
                   else 0);
            fl = TCP_FLAGS_SENDING (tcp_state tcp);
            seq_len = (if has fl (TCP_SYN OR TCP_FIN) then of_nat len + 1 else of_nat len);
            tcp = tcp\<lparr>snd_sent := seq_len\<rparr>
        in if seq_len = 0 \<and> \<not> has (tcp_flags tcp) TCP_ACK_PENDING then Some (tcp, sh)
           else
             let sh = (if seq_len \<noteq> 0 then on_retry (start_timer (te_now env) (tcp_timer tcp)) sh else sh)
             in case tcp_alloc_iob env (len + TCP_MAX_HEADER_LEN) tcp sh of
                  (tcp, sh, None) \<Rightarrow> Some (tcp, sh)
                | (tcp, sh, Some iobuf) \<Rightarrow> tcp_xmit_packet env sack_seq fl len iobuf tcp sh)"

definition tcp_xmit :: "'s tcp_env \<Rightarrow> tcp_connection \<Rightarrow> 's tcp_shared \<Rightarrow> (tcp_connection \<times> 's tcp_shared) option" where
  "tcp_xmit env tcp sh = tcp_xmit_sack env (rcv_ack tcp) tcp sh"

definition tcp_xmit_reset ::
  "'s tcp_env \<Rightarrow> tcp_connection \<Rightarrow> sockaddr_tcpip \<Rightarrow> tcp_header \<Rightarrow> 's tcp_shared
    \<Rightarrow> (tcp_connection \<times> 's tcp_shared \<times> unit result) option" where
  "tcp_xmit_reset env tcp st_dest in_tcphdr sh =
     (case tcp_alloc_iob env TCP_MAX_HEADER_LEN tcp sh of
        (tcp, sh, None) \<Rightarrow> Some (tcp, sh, Inl ENOMEM)
      | (tcp, sh, Some iobuf) \<Rightarrow> do {
          iobuf \<leftarrow> iob_reserve iobuf TCP_MAX_HEADER_LEN;
          let tcphdr = \<lparr>th_src = th_dest in_tcphdr, th_dest = th_src in_tcphdr, th_seq = th_ack in_tcphdr, th_ack = th_seq in_tcphdr,
            th_hlen = push_bit 4 (of_nat (sizeof_tcphdr div 4)), th_flags = ucast (TCP_RST OR TCP_ACK), th_win = htons 0, th_csum = 0, th_urg = 0\<rparr>;
          (sh, r) \<leftarrow> tcp_transmit env (tcp_id tcp) st_dest tcphdr iobuf sh;
          Some (tcp, sh, r)
        })"

section \<open>Receive data path\<close>

definition tcp_rx_seq :: "tcp_connection \<Rightarrow> u32 \<Rightarrow> tcp_connection" where
  "tcp_rx_seq tcp seq_len =
     (let ack = rcv_ack tcp + seq_len
      in tcp\<lparr>rcv_ack := ack,
             rcv_win := (if rcv_win tcp > seq_len then rcv_win tcp - seq_len else 0),
             ts_recent := ts_val tcp,
             tcp_sacks := map (\<lambda>(left, right).
               if left = right then (left, right)
               else (if tcp_cmp left ack < 0 then ack else left, if tcp_cmp right ack < 0 then ack else right)) (tcp_sacks tcp),
             tcp_flags := tcp_flags tcp OR TCP_ACK_PENDING\<rparr>)"

definition tcp_rx_syn :: "tcp_connection \<Rightarrow> u32 \<Rightarrow> tcp_options \<Rightarrow> tcp_connection" where
  "tcp_rx_syn tcp seq options =
     (let tcp = (if \<not> has (tcp_state tcp) (TCP_STATE_RCVD TCP_SYN) then
            let tcp = tcp\<lparr>rcv_ack := seq\<rparr>;
                tcp = (if opt_tsopt options \<noteq> None then tcp\<lparr>tcp_flags := tcp_flags tcp OR TCP_TS_ENABLED\<rparr> else tcp);
                tcp = (if opt_spopt options then tcp\<lparr>tcp_flags := tcp_flags tcp OR TCP_SACK_ENABLED\<rparr> else tcp)
            in (case opt_wsopt options of
                  None \<Rightarrow> tcp
                | Some scale \<Rightarrow> tcp\<lparr>snd_win_scale := scale, rcv_win_scale := TCP_RX_WINDOW_SCALE\<rparr>)
          else tcp)
      in if seq \<noteq> rcv_ack tcp then tcp
         else
           let tcp = tcp_rx_seq tcp 1
           in tcp\<lparr>tcp_state := tcp_state tcp OR (TCP_STATE_SENT TCP_ACK OR TCP_STATE_RCVD TCP_SYN)\<rparr>)"

text \<open>The flags that an acknowledgement of something new acknowledges, and the length of the data.\<close>

definition acked_flags :: "tcp_connection \<Rightarrow> u32" where
  "acked_flags tcp = TCP_FLAGS_SENDING (tcp_state tcp) AND (TCP_SYN OR TCP_FIN)"

definition acked_len :: "tcp_connection \<Rightarrow> u32 \<Rightarrow> nat" where
  "acked_len tcp ack = (if acked_flags tcp \<noteq> 0 then unat (ack - snd_seq tcp) - 1 else unat (ack - snd_seq tcp))"

definition tcp_start_fin :: "tcp_connection \<Rightarrow> 's tcp_shared \<Rightarrow> tcp_connection \<times> 's tcp_shared" where
  "tcp_start_fin tcp sh =
     (if tx_queue tcp = [] \<and> has (tcp_flags tcp) TCP_XFER_CLOSED \<and> \<not> has (tcp_state tcp) (TCP_STATE_SENT TCP_FIN) then
        let (pending, sh) = pending_get (pending_flags tcp) sh
        in (tcp\<lparr>tcp_state := tcp_state tcp OR TCP_STATE_SENT TCP_FIN, pending_flags := pending\<rparr>, sh)
      else (tcp, sh))"

definition tcp_acked :: "'s tcp_env \<Rightarrow> tcp_connection \<Rightarrow> u32 \<Rightarrow> 's tcp_shared \<Rightarrow> tcp_connection \<times> 's tcp_shared" where
  "tcp_acked env tcp ack sh =
     (let sh = on_retry (stop_timer (te_now env) (tcp_timer tcp)) sh;
          len = acked_len tcp ack;
          acked = acked_flags tcp;
          (pending, sh) = (if acked \<noteq> 0 then pending_put (pending_flags tcp) sh else (pending_flags tcp, sh));
          (tcp, sh, _) = tcp_process_tx_queue (tcp\<lparr>pending_flags := pending, snd_seq := ack, snd_sent := 0\<rparr>) sh len True
      in tcp_start_fin (if acked \<noteq> 0 then tcp\<lparr>tcp_state := tcp_state tcp OR TCP_STATE_ACKED acked\<rparr> else tcp) sh)"

definition tcp_rx_ack ::
  "'s tcp_env \<Rightarrow> tcp_connection \<Rightarrow> u32 \<Rightarrow> u32 \<Rightarrow> 's tcp_shared \<Rightarrow> tcp_connection \<times> 's tcp_shared \<times> unit result" where
  "tcp_rx_ack env tcp ack win sh =
     (let ack_len = ack - snd_seq tcp
      in if ack_len > snd_sent tcp then
           (tcp, sh, if TCP_HAS_BEEN_ESTABLISHED (tcp_state tcp) then Inr () else Inl EINVAL)
         else
           let sh = (if \<not> has (tcp_state tcp) (TCP_STATE_SENT TCP_FIN)
                     then on_retry (start_timer_fixed (te_now env) (tcp_keepalive tcp) TCP_KEEPALIVE_DELAY) sh else sh)
           in if ack_len = 0 then (tcp\<lparr>snd_win := win\<rparr>, sh, Inr ())
              else case tcp_acked env (tcp\<lparr>snd_win := win\<rparr>) ack sh of (tcp, sh) \<Rightarrow> (tcp, sh, Inr ()))"

section \<open>Closing\<close>

definition free_tx_queue :: "tcp_connection \<Rightarrow> 's tcp_shared \<Rightarrow> tcp_connection \<times> 's tcp_shared" where
  "free_tx_queue tcp sh =
     (case ((\<lambda>(n, sh). pending_put n sh) ^^ length (tx_queue tcp)) (pending_data tcp, sh) of
        (n, sh) \<Rightarrow> (tcp\<lparr>tx_queue := [], pending_data := n\<rparr>, sh))"

definition tcp_delete :: "'s tcp_env \<Rightarrow> tcp_connection \<Rightarrow> 's tcp_shared \<Rightarrow> tcp_connection \<times> 's tcp_shared" where
  "tcp_delete env tcp sh =
     (let tcp = tcp\<lparr>tcp_state := TCP_CLOSED, rx_queue := []\<rparr>;
          (tcp, sh) = free_tx_queue tcp sh;
          (n, sh) = pending_put (pending_flags tcp) sh;
          (n, sh) = pending_put n sh;
          (tcp, sh) = process_del (tcp\<lparr>pending_flags := n\<rparr>) sh;
          sh = on_retry (stop_timer (te_now env) (tcp_timer tcp)) sh;
          sh = on_retry (stop_timer (te_now env) (tcp_keepalive tcp)) sh;
          sh = on_retry (stop_timer (te_now env) (tcp_wait tcp)) sh
      in (tcp\<lparr>on_list := False\<rparr>, on_counts (ref_decrement (Some (tcp_id tcp))) sh))"

definition tcp_close :: "'s tcp_env \<Rightarrow> tcp_connection \<Rightarrow> errno option \<Rightarrow> 's tcp_shared \<Rightarrow> tcp_connection \<times> 's tcp_shared" where
  "tcp_close env tcp rc sh =
     (let sh = (if has (tcp_flags tcp) TCP_XFER_CLOSED then sh else log_event (Closed (tcp_id tcp) rc) sh);
          tcp = tcp\<lparr>tcp_flags := tcp_flags tcp OR TCP_XFER_CLOSED\<rparr>
      in if \<not> has (tcp_state tcp) (TCP_STATE_RCVD TCP_SYN) then tcp_delete env tcp sh
         else
           let (tcp, sh) = (if \<not> has (tcp_state tcp) (TCP_STATE_ACKED TCP_SYN) then
                 (case tcp_rx_ack env tcp (snd_seq tcp + 1) 0 sh of (tcp, sh, _) \<Rightarrow> (tcp, sh))
               else (tcp, sh));
               sh = on_retry (stop_timer (te_now env) (tcp_keepalive tcp)) sh
           in if tx_queue tcp = [] \<and> \<not> has (tcp_state tcp) (TCP_STATE_SENT TCP_FIN) then
                let tcp = tcp\<lparr>tcp_state := tcp_state tcp OR TCP_STATE_SENT TCP_FIN\<rparr>;
                    (tcp, sh) = process_add tcp sh;
                    (n, sh) = pending_get (pending_flags tcp) sh
                in (tcp\<lparr>pending_flags := n\<rparr>, sh)
              else (tcp, sh))"

section \<open>Data transfer interface\<close>

definition tcp_xfer_close :: "'s tcp_env \<Rightarrow> tcp_connection \<Rightarrow> errno option \<Rightarrow> 's tcp_shared \<Rightarrow> (tcp_connection \<times> 's tcp_shared) option" where
  "tcp_xfer_close env tcp rc sh = (case tcp_close env tcp rc sh of (tcp, sh) \<Rightarrow> tcp_xmit env tcp sh)"

definition tcp_xfer_deliver :: "'s tcp_env \<Rightarrow> tcp_connection \<Rightarrow> bytes \<Rightarrow> 's tcp_shared \<Rightarrow> (tcp_connection \<times> 's tcp_shared) option" where
  "tcp_xfer_deliver env tcp iobuf sh =
     (let (n, sh) = pending_get (pending_data tcp) (log_event (Queued (tcp_id tcp) iobuf) sh)
      in tcp_xmit env (tcp\<lparr>tx_queue := tx_queue tcp @ [iobuf], pending_data := n\<rparr>) sh)"

definition tcp_progress :: "tcp_connection \<Rightarrow> string \<Rightarrow> string" where
  "tcp_progress tcp message = (if \<not> TCP_HAS_BEEN_ESTABLISHED (tcp_state tcp) then ''connecting'' else message)"

text \<open>The application reaches the connection until one of them closes the interface.\<close>

fun app_calls :: "'s tcp_env \<Rightarrow> app_call list \<Rightarrow> tcp_connection \<Rightarrow> 's tcp_shared \<Rightarrow> (tcp_connection \<times> 's tcp_shared) option" where
  "app_calls env [] tcp sh = Some (tcp, sh)"
| "app_calls env (App_close rc # calls) tcp sh =
     (if has (tcp_flags tcp) TCP_XFER_CLOSED then app_calls env calls tcp sh
      else tcp_xfer_close env tcp rc sh \<bind> (\<lambda>(tcp, sh). app_calls env calls tcp sh))"
| "app_calls env (App_send iobuf # calls) tcp sh =
     (if has (tcp_flags tcp) TCP_XFER_CLOSED then app_calls env calls tcp sh
      else tcp_xfer_deliver env tcp iobuf sh \<bind> (\<lambda>(tcp, sh). app_calls env calls tcp sh))"
| "app_calls env (App_discard # calls) tcp sh =
     (case tcp_discard_one tcp sh of (tcp, sh) \<Rightarrow> app_calls env calls tcp sh)"

definition xfer_deliver_iob :: "'s tcp_env \<Rightarrow> tcp_connection \<Rightarrow> bytes \<Rightarrow> 's tcp_shared \<Rightarrow> (tcp_connection \<times> 's tcp_shared) option" where
  "xfer_deliver_iob env tcp iobuf sh =
     (if has (tcp_flags tcp) TCP_XFER_CLOSED then Some (tcp, sh)
      else app_calls env (te_reaction env iobuf) tcp (log_event (Deliver (tcp_id tcp) iobuf) sh))"

section \<open>Received packets\<close>

definition tcp_rx_data :: "'s tcp_env \<Rightarrow> tcp_connection \<Rightarrow> u32 \<Rightarrow> bytes \<Rightarrow> 's tcp_shared \<Rightarrow> (tcp_connection \<times> 's tcp_shared) option" where
  "tcp_rx_data env tcp seq iobuf sh =
     (let already_rcvd = rcv_ack tcp - seq;
          len = of_nat (length iobuf)
      in if already_rcvd \<ge> len then Some (tcp, sh)
         else
           let iobuf = drop (unat already_rcvd) iobuf;
               len = len - already_rcvd;
               tcp = tcp_rx_seq tcp len;
               sh = sh\<lparr>sh_stats := (sh_stats sh)\<lparr>in_octets_good := in_octets_good (sh_stats sh) + ucast len\<rparr>\<rparr>
           in xfer_deliver_iob env tcp iobuf sh)"

definition tcp_rx_fin :: "'s tcp_env \<Rightarrow> tcp_connection \<Rightarrow> u32 \<Rightarrow> 's tcp_shared \<Rightarrow> tcp_connection \<times> 's tcp_shared" where
  "tcp_rx_fin env tcp seq sh =
     (if seq \<noteq> rcv_ack tcp then (tcp, sh)
      else
        let tcp = tcp_rx_seq tcp 1
        in tcp_close env (tcp\<lparr>tcp_state := tcp_state tcp OR TCP_STATE_RCVD TCP_FIN\<rparr>) None sh)"

definition tcp_rx_rst :: "'s tcp_env \<Rightarrow> tcp_connection \<Rightarrow> u32 \<Rightarrow> 's tcp_shared \<Rightarrow> tcp_connection \<times> 's tcp_shared \<times> unit result" where
  "tcp_rx_rst env tcp seq sh =
     (if has (tcp_state tcp) (TCP_STATE_RCVD TCP_SYN) \<and> \<not> tcp_in_window seq (rcv_ack tcp) (rcv_win tcp) then (tcp, sh, Inr ())
      else if \<not> has (tcp_state tcp) (TCP_STATE_RCVD TCP_SYN) \<and> \<not> has (tcp_state tcp) (TCP_STATE_ACKED TCP_SYN) then (tcp, sh, Inr ())
      else
        case tcp_close env (tcp\<lparr>tcp_state := TCP_CLOSED\<rparr>) (Some ECONNRESET) sh of
          (tcp, sh) \<Rightarrow> (tcp, sh, Inl ECONNRESET))"

text \<open>The queue with the packet in it, and the end of the packet before it.\<close>

fun rx_insert :: "tcp_rx_queued \<Rightarrow> u32 \<Rightarrow> tcp_rx_queued list \<Rightarrow> tcp_rx_queued list \<times> u32" where
  "rx_insert p gap [] = ([p], gap)"
| "rx_insert p gap (q # qs) =
     (if tcp_cmp (q_seq p) (q_seq q) < 0 then (p # q # qs, gap)
      else case rx_insert p (q_nxt q) qs of (qs, gap) \<Rightarrow> (q # qs, gap))"

definition tcp_rx_enqueue :: "tcp_connection \<Rightarrow> u32 \<Rightarrow> u32 \<Rightarrow> bytes \<Rightarrow> 's tcp_shared \<Rightarrow> tcp_connection \<times> 's tcp_shared" where
  "tcp_rx_enqueue tcp seq fl iobuf sh =
     (let fl = fl AND TCP_FIN;
          len = length iobuf;
          seq_len = of_nat (len + (if fl \<noteq> 0 then 1 else 0));
          nxt = seq + seq_len
      in if \<not> has (tcp_state tcp) (TCP_STATE_RCVD TCP_SYN) \<or> tcp_cmp seq (rcv_ack tcp + rcv_win tcp) \<ge> 0
            \<or> tcp_cmp nxt (rcv_ack tcp) \<le> 0 \<or> seq_len = 0
         then (tcp, sh)
         else
           case rx_insert \<lparr>q_seq = seq, q_nxt = nxt, q_flags = fl, q_data = iobuf\<rparr> (rcv_ack tcp) (rx_queue tcp) of
             (queue, gap) \<Rightarrow>
               (tcp\<lparr>rx_queue := queue\<rparr>,
                if seq \<noteq> gap then sh\<lparr>sh_stats := (sh_stats sh)\<lparr>in_out_of_order := in_out_of_order (sh_stats sh) + 1\<rparr>\<rparr> else sh))"

end
