(* ===== verification/TcpRx.thy ===== *)
theory TcpRx
  imports Tcp
begin

text \<open>
  The receive path of TCP (net/tcp.c): what sending a packet leaves alone, the loop that processes
  the queue of received packets, the handler of a received packet and the operations on the list
  of connections.
\<close>

section \<open>What sending a packet changes\<close>

text \<open>
  Whatever is sent, and whether it can be sent, the operation changes only the count of bytes in
  flight, the receive window, the SACK list, the pending acknowledgement and, by memory pressure,
  the end of the queue of received packets.
\<close>

definition xmit_frame :: "tcp_connection \<Rightarrow> tcp_connection \<Rightarrow> bool" where
  "xmit_frame tcp tcp' \<longleftrightarrow>
     (\<exists>sent win sacks n fl. tcp' = tcp\<lparr>snd_sent := sent, rcv_win := win, tcp_sacks := sacks, rx_queue := take n (rx_queue tcp), tcp_flags := fl\<rparr>
        \<and> (fl = tcp_flags tcp \<or> fl = tcp_flags tcp AND NOT TCP_ACK_PENDING) \<and> rcv_win tcp \<le> win
        \<and> win \<le> max (rcv_win tcp) TCP_MAX_WINDOW_SIZE)"

lemma xmit_frameI:
  "tcp' = tcp\<lparr>snd_sent := sent, rcv_win := win, tcp_sacks := sacks, rx_queue := take n (rx_queue tcp), tcp_flags := fl\<rparr>
   \<Longrightarrow> fl = tcp_flags tcp \<or> fl = tcp_flags tcp AND NOT TCP_ACK_PENDING \<Longrightarrow> rcv_win tcp \<le> win
   \<Longrightarrow> win \<le> max (rcv_win tcp) TCP_MAX_WINDOW_SIZE \<Longrightarrow> xmit_frame tcp tcp'"
  unfolding xmit_frame_def by blast

lemma xmit_frame_refl [simp, intro]: "xmit_frame tcp tcp"
  by (rule xmit_frameI [where sent = "snd_sent tcp" and win = "rcv_win tcp" and sacks = "tcp_sacks tcp" and n = "length (rx_queue tcp)" and fl = "tcp_flags tcp"]) simp_all

lemma max_win_trans: "a \<le> max b m \<Longrightarrow> b \<le> max c m \<Longrightarrow> a \<le> max c (m :: u32)"
  by (meson le_max_iff_disj order_trans)

lemma xmit_frame_trans:
  assumes "xmit_frame a b" and "xmit_frame b c"
  shows "xmit_frame a c"
proof -
  obtain sent win sacks n fl where b: "b = a\<lparr>snd_sent := sent, rcv_win := win, tcp_sacks := sacks, rx_queue := take n (rx_queue a), tcp_flags := fl\<rparr>"
    "fl = tcp_flags a \<or> fl = tcp_flags a AND NOT TCP_ACK_PENDING" "rcv_win a \<le> win" "win \<le> max (rcv_win a) TCP_MAX_WINDOW_SIZE"
    using assms(1) unfolding xmit_frame_def by blast
  obtain sent' win' sacks' n' fl' where c: "c = b\<lparr>snd_sent := sent', rcv_win := win', tcp_sacks := sacks', rx_queue := take n' (rx_queue b), tcp_flags := fl'\<rparr>"
    "fl' = tcp_flags b \<or> fl' = tcp_flags b AND NOT TCP_ACK_PENDING" "rcv_win b \<le> win'" "win' \<le> max (rcv_win b) TCP_MAX_WINDOW_SIZE"
    using assms(2) unfolding xmit_frame_def by blast
  show ?thesis
    by (rule xmit_frameI [where sent = sent' and win = win' and sacks = sacks' and n = "min n' n" and fl = fl'])
      (use b c max_win_trans [of win' win TCP_MAX_WINDOW_SIZE "rcv_win a"] in \<open>auto simp: and.assoc\<close>)
qed

lemma xmit_frame_sent [simp, intro]: "xmit_frame tcp (tcp\<lparr>snd_sent := sent\<rparr>)"
  by (rule xmit_frameI [where sent = sent and win = "rcv_win tcp" and sacks = "tcp_sacks tcp" and n = "length (rx_queue tcp)" and fl = "tcp_flags tcp"]) simp_all

lemma xmit_frame_ack [simp, intro]: "xmit_frame tcp (tcp\<lparr>tcp_flags := tcp_flags tcp AND NOT TCP_ACK_PENDING\<rparr>)"
  by (rule xmit_frameI [where sent = "snd_sent tcp" and win = "rcv_win tcp" and sacks = "tcp_sacks tcp" and n = "length (rx_queue tcp)"
        and fl = "tcp_flags tcp AND NOT TCP_ACK_PENDING"]) simp_all

lemma xmit_frame_sacks: "xmit_frame tcp (tcp\<lparr>tcp_sacks := sacks\<rparr>)"
  by (rule xmit_frameI [where sent = "snd_sent tcp" and win = "rcv_win tcp" and sacks = sacks and n = "length (rx_queue tcp)" and fl = "tcp_flags tcp"]) simp_all

lemma xmit_frame_discard: "xmit_frame tcp (fst (tcp_discard_one tcp sh))"
  by (rule xmit_frameI [where sent = "snd_sent tcp" and win = "rcv_win tcp" and sacks = "tcp_sacks tcp" and n = "length (rx_queue tcp) - 1" and fl = "tcp_flags tcp"])
    (simp_all add: tcp_discard_one_def butlast_conv_take)

lemma expand_window_bounds:
  "rcv_win tcp \<le> rcv_win (tcp_expand_window env tcp)" "rcv_win (tcp_expand_window env tcp) \<le> max (rcv_win tcp) TCP_MAX_WINDOW_SIZE"
proof -
  have w: "w AND NOT 3 \<le> TCP_MAX_WINDOW_SIZE" if "w \<le> TCP_MAX_WINDOW_SIZE" for w :: u32
    using that word_and_le2 [of w "NOT 3"] by (rule order_trans [rotated])
  define m where "m = (if ucast (te_window env) > TCP_MAX_WINDOW_SIZE then TCP_MAX_WINDOW_SIZE else ucast (te_window env))"
  define m' where "m' = (if m > push_bit (unat (rcv_win_scale tcp)) 0xffff then push_bit (unat (rcv_win_scale tcp)) 0xffff else m)"
  have "m \<le> TCP_MAX_WINDOW_SIZE" by (auto simp: m_def)
  then have "m' \<le> TCP_MAX_WINDOW_SIZE" by (auto simp: m'_def)
  from w [OF this] have "m' AND NOT 3 \<le> max (rcv_win tcp) TCP_MAX_WINDOW_SIZE" by (simp add: max.coboundedI2)
  moreover have "rcv_win (tcp_expand_window env tcp) = (if rcv_win tcp < m' AND NOT 3 then m' AND NOT 3 else rcv_win tcp)"
    unfolding tcp_expand_window_def Let_def m_def [symmetric] m'_def [symmetric] by simp
  ultimately show "rcv_win tcp \<le> rcv_win (tcp_expand_window env tcp)" "rcv_win (tcp_expand_window env tcp) \<le> max (rcv_win tcp) TCP_MAX_WINDOW_SIZE"
    by (auto simp: less_imp_le)
qed

lemma xmit_frame_window: "xmit_frame tcp (tcp_expand_window env tcp)"
  by (rule xmit_frameI [where sent = "snd_sent tcp" and win = "rcv_win (tcp_expand_window env tcp)" and sacks = "tcp_sacks tcp" and n = "length (rx_queue tcp)" and fl = "tcp_flags tcp"])
    (use expand_window_bounds [where tcp = tcp and env = env] in \<open>simp_all add: tcp_expand_window_def Let_def\<close>)

lemma xmit_frame_options: "xmit_frame tcp (fst (tcp_tx_options env fl seq tcp))"
  by (simp add: tcp_tx_options_def tcp_sack_def Let_def xmit_frame_sacks)

lemma xmit_frame_alloc: "tcp_alloc_iob env len tcp sh = (tcp', sh', r) \<Longrightarrow> xmit_frame tcp tcp'"
proof -
  have "xmit_frame tcp (fst (((\<lambda>(tcp, sh). tcp_discard_one tcp sh) ^^ n) (tcp, sh)))" for n
    by (induction n) (auto simp: case_prod_beta intro: xmit_frame_trans xmit_frame_discard)
  then show "tcp_alloc_iob env len tcp sh = (tcp', sh', r) \<Longrightarrow> ?thesis"
    by (auto simp: tcp_alloc_iob_def case_prod_beta)
qed

lemma xmit_frame_packet: "tcp_xmit_packet env seq fl len iobuf tcp sh = Some (tcp', sh') \<Longrightarrow> xmit_frame tcp tcp'"
proof -
  assume "tcp_xmit_packet env seq fl len iobuf tcp sh = Some (tcp', sh')"
  then have "tcp' = fst (tcp_tx_options env fl seq (tcp_expand_window env tcp))
      \<or> tcp' = (fst (tcp_tx_options env fl seq (tcp_expand_window env tcp)))
          \<lparr>tcp_flags := tcp_flags (fst (tcp_tx_options env fl seq (tcp_expand_window env tcp))) AND NOT TCP_ACK_PENDING\<rparr>"
    unfolding tcp_xmit_packet_def Let_def case_prod_beta bind_eq_Some_conv by (elim exE conjE) (simp split: sum.splits)
  moreover have "xmit_frame tcp (fst (tcp_tx_options env fl seq (tcp_expand_window env tcp)))"
    by (rule xmit_frame_trans [OF xmit_frame_window xmit_frame_options])
  ultimately show ?thesis
    using xmit_frame_trans xmit_frame_ack by blast
qed

lemma tx_data: "snd (snd (tcp_process_tx_queue tcp sh len rm)) = fst (snd (process_tx_queue rm len (tx_queue tcp)))"
  by (simp add: tcp_process_tx_queue_def case_prod_beta)

text \<open>How much of the transmit queue a packet carries, and what it takes of the sequence space.\<close>

definition tx_len :: "tcp_connection \<Rightarrow> nat" where
  "tx_len tcp = (if TCP_CAN_SEND_DATA (tcp_state tcp) then length (fst (snd (process_tx_queue False (tcp_xmit_win tcp) (tx_queue tcp)))) else 0)"

definition tx_seq_len :: "tcp_connection \<Rightarrow> u32" where
  "tx_seq_len tcp = (if has (TCP_FLAGS_SENDING (tcp_state tcp)) (TCP_SYN OR TCP_FIN) then of_nat (tx_len tcp) + 1 else of_nat (tx_len tcp))"

lemma xmit_sack_cases:
  assumes "tcp_xmit_sack env seq tcp sh = Some (tcp', sh')"
  obtains "tcp' = tcp" "sh' = sh"
  | "tcp' = tcp\<lparr>snd_sent := tx_seq_len tcp\<rparr>" "sh' = sh"
  | sh1 n where "tcp_alloc_iob env n (tcp\<lparr>snd_sent := tx_seq_len tcp\<rparr>) sh1 = (tcp', sh', None)"
      "sh1 = sh \<or> sh1 = on_retry (start_timer (te_now env) (tcp_timer tcp)) sh"
  | sh1 n tcp2 sh2 iobuf where "tcp_alloc_iob env n (tcp\<lparr>snd_sent := tx_seq_len tcp\<rparr>) sh1 = (tcp2, sh2, Some iobuf)"
      "sh1 = sh \<or> sh1 = on_retry (start_timer (te_now env) (tcp_timer tcp)) sh"
      "tcp_xmit_packet env seq (TCP_FLAGS_SENDING (tcp_state tcp)) (tx_len tcp) iobuf tcp2 sh2 = Some (tcp', sh')"
proof -
  define sh1 where "sh1 = (if tx_seq_len tcp \<noteq> 0 then on_retry (start_timer (te_now env) (tcp_timer (tcp\<lparr>snd_sent := tx_seq_len tcp\<rparr>))) sh else sh)"
  obtain tcp2 sh2 r where al: "tcp_alloc_iob env (tx_len tcp + TCP_MAX_HEADER_LEN) (tcp\<lparr>snd_sent := tx_seq_len tcp\<rparr>) sh1 = (tcp2, sh2, r)"
    by (metis prod_cases3)
  have sh1: "sh1 = sh \<or> sh1 = on_retry (start_timer (te_now env) (tcp_timer tcp)) sh"
    by (simp add: sh1_def tcp_timer_def)
  have x: "tcp_xmit_sack env seq tcp sh =
      (if running (timer (sh_retry sh) (tcp_timer tcp)) then Some (tcp, sh)
       else if tx_seq_len tcp = 0 \<and> \<not> has (tcp_flags tcp) TCP_ACK_PENDING then Some (tcp\<lparr>snd_sent := tx_seq_len tcp\<rparr>, sh)
       else case r of None \<Rightarrow> Some (tcp2, sh2)
         | Some iobuf \<Rightarrow> tcp_xmit_packet env seq (TCP_FLAGS_SENDING (tcp_state tcp)) (tx_len tcp) iobuf tcp2 sh2)"
    unfolding tcp_xmit_sack_def Let_def tx_data tx_len_def [symmetric] tx_seq_len_def [symmetric] sh1_def [symmetric] al
    by (simp split: option.split)
  consider "tcp' = tcp" "sh' = sh" | "tcp' = tcp\<lparr>snd_sent := tx_seq_len tcp\<rparr>" "sh' = sh" | "r = None" "tcp' = tcp2" "sh' = sh2"
    | iobuf where "r = Some iobuf" "tcp_xmit_packet env seq (TCP_FLAGS_SENDING (tcp_state tcp)) (tx_len tcp) iobuf tcp2 sh2 = Some (tcp', sh')"
    using assms unfolding x by (simp split: if_splits option.splits)
  then show thesis
    by cases (use al sh1 that in blast)+
qed

lemma xmit_frame_xmit_sack: "tcp_xmit_sack env seq tcp sh = Some (tcp', sh') \<Longrightarrow> xmit_frame tcp tcp'"
  by (elim xmit_sack_cases) (blast intro: xmit_frame_trans [OF xmit_frame_sent] xmit_frame_alloc xmit_frame_packet xmit_frame_trans)+

section \<open>What the other operations keep of the receive path\<close>

text \<open>
  The queue of received packets only loses its end, and the next sequence number expected and the
  identity of the connection stay as they are, as does what was received of the peer's flags
  unless the connection is deleted.
\<close>

definition rx_frame :: "tcp_connection \<Rightarrow> tcp_connection \<Rightarrow> bool" where
  "rx_frame tcp tcp' \<longleftrightarrow> (\<exists>n. rx_queue tcp' = take n (rx_queue tcp)) \<and> rcv_ack tcp' = rcv_ack tcp \<and> tcp_id tcp' = tcp_id tcp
     \<and> rcv_win tcp' \<le> max (rcv_win tcp) TCP_MAX_WINDOW_SIZE
     \<and> (has (tcp_flags tcp) TCP_XFER_CLOSED \<longrightarrow> has (tcp_flags tcp') TCP_XFER_CLOSED)
     \<and> (on_list tcp' \<longrightarrow> on_list tcp \<and> (bit (tcp_state tcp') 16 \<longleftrightarrow> bit (tcp_state tcp) 16) \<and> (bit (tcp_state tcp') 17 \<longleftrightarrow> bit (tcp_state tcp) 17))
     \<and> (on_list tcp \<and> \<not> on_list tcp' \<longrightarrow> \<not> bit (tcp_state tcp) 17)"

lemma rx_frame_trans:
  assumes "rx_frame a b" and "rx_frame b c"
  shows "rx_frame a c"
proof -
  have "\<exists>n. rx_queue c = take n (rx_queue a)" using assms unfolding rx_frame_def by (metis take_take)
  moreover have "rcv_win c \<le> max (rcv_win a) TCP_MAX_WINDOW_SIZE"
    using assms max_win_trans unfolding rx_frame_def by blast
  ultimately show ?thesis using assms unfolding rx_frame_def by auto
qed

lemma rx_frame_length: "rx_frame a b \<Longrightarrow> length (rx_queue b) \<le> length (rx_queue a)"
  unfolding rx_frame_def by auto

lemma rx_frameI [intro]:
  "rx_queue tcp' = rx_queue tcp \<Longrightarrow> rcv_ack tcp' = rcv_ack tcp \<Longrightarrow> tcp_id tcp' = tcp_id tcp \<Longrightarrow> rcv_win tcp' = rcv_win tcp
   \<Longrightarrow> (has (tcp_flags tcp) TCP_XFER_CLOSED \<Longrightarrow> has (tcp_flags tcp') TCP_XFER_CLOSED) \<Longrightarrow> on_list tcp' = on_list tcp
   \<Longrightarrow> bit (tcp_state tcp') 16 = bit (tcp_state tcp) 16 \<Longrightarrow> bit (tcp_state tcp') 17 = bit (tcp_state tcp) 17 \<Longrightarrow> rx_frame tcp tcp'"
  unfolding rx_frame_def by (metis max.cobounded1 order_refl take_all)

text \<open>The conditions of the code as single bits.\<close>

lemma has_exp: "has x (2 ^ n) \<longleftrightarrow> bit x n"
  by (simp add: has_def and_exp_eq_0_iff_not_bit)

lemma tcp_bits:
  "has x TCP_XFER_CLOSED \<longleftrightarrow> bit x 0" "has x TCP_TS_ENABLED \<longleftrightarrow> bit x 1" "has x TCP_ACK_PENDING \<longleftrightarrow> bit x 2" "has x TCP_SACK_ENABLED \<longleftrightarrow> bit x 3"
  "has x TCP_FIN \<longleftrightarrow> bit x 0" "has x TCP_SYN \<longleftrightarrow> bit x 1" "has x TCP_RST \<longleftrightarrow> bit x 2" "has x TCP_PSH \<longleftrightarrow> bit x 3" "has x TCP_ACK \<longleftrightarrow> bit x 4"
  "has x (TCP_STATE_SENT TCP_SYN) \<longleftrightarrow> bit x 1" "has x (TCP_STATE_SENT TCP_FIN) \<longleftrightarrow> bit x 0"
  "has x (TCP_STATE_ACKED TCP_SYN) \<longleftrightarrow> bit x 9" "has x (TCP_STATE_ACKED TCP_FIN) \<longleftrightarrow> bit x 8"
  "has x (TCP_STATE_RCVD TCP_SYN) \<longleftrightarrow> bit x 17" "has x (TCP_STATE_RCVD TCP_FIN) \<longleftrightarrow> bit x 16"
  using has_exp [of x 0] has_exp [of x 1] has_exp [of x 2] has_exp [of x 3] has_exp [of x 4] has_exp [of x 8] has_exp [of x 9] has_exp [of x 16] has_exp [of x 17]
  by (simp_all add: TCP_XFER_CLOSED_def TCP_TS_ENABLED_def TCP_ACK_PENDING_def TCP_SACK_ENABLED_def TCP_FIN_def TCP_SYN_def TCP_RST_def TCP_PSH_def TCP_ACK_def
      TCP_STATE_SENT_def TCP_STATE_ACKED_def TCP_STATE_RCVD_def push_bit_eq_mult)

lemma has_or [simp]: "has (a OR b) c \<longleftrightarrow> has a c \<or> has b c"
  by (auto simp: has_def word_ao_dist or_eq_0_iff)

lemma rx_frame_xmit: "xmit_frame tcp tcp' \<Longrightarrow> rx_frame tcp tcp'"
  unfolding xmit_frame_def rx_frame_def
  by (auto simp: tcp_bits bit_and_iff bit_not_iff TCP_ACK_PENDING_def bit_simps)

lemma log_simps [simp]:
  "sh_log (on_retry f sh) = sh_log sh" "sh_log (on_counts g sh) = sh_log sh" "sh_log (snd (pending_get n sh)) = sh_log sh"
  "sh_log (snd (pending_put n sh)) = sh_log sh" "sh_log (log_event e sh) = sh_log sh @ [e]"
  by (simp_all add: on_retry_def on_counts_def pending_get_def pending_put_def log_event_def)

lemma log_puts [simp]: "sh_log (snd (((\<lambda>(n, sh). pending_put n sh) ^^ k) (n, sh))) = sh_log sh"
  by (induction k) (simp_all add: case_prod_beta)

lemma log_process [simp]: "sh_log (snd (process_add tcp sh)) = sh_log sh" "sh_log (snd (process_del tcp sh)) = sh_log sh"
  by (simp_all add: process_add_def process_del_def)

lemma process_tx_keeps:
  assumes "tcp_process_tx_queue tcp sh n rm = (tcp', sh', data)"
  shows "\<exists>k. tcp' = tcp\<lparr>tx_queue := fst (process_tx_queue rm n (tx_queue tcp)), pending_data := k\<rparr>" and "sh_log sh' = sh_log sh"
proof -
  obtain q d freed where q: "process_tx_queue rm n (tx_queue tcp) = (q, d, freed)" by (metis prod_cases3)
  obtain k sh1 where k: "((\<lambda>(n, sh). pending_put n sh) ^^ freed) (pending_data tcp, sh) = (k, sh1)" by (metis surj_pair)
  have "sh_log sh1 = sh_log sh" using log_puts [where k = freed and n = "pending_data tcp" and sh = sh] k by simp
  then show "\<exists>k. tcp' = tcp\<lparr>tx_queue := fst (process_tx_queue rm n (tx_queue tcp)), pending_data := k\<rparr>" "sh_log sh' = sh_log sh"
    using assms k q by (auto simp: tcp_process_tx_queue_def)
qed

text \<open>What is left to send after an acknowledgement of something new, and the new state.\<close>

definition unacked_queue :: "tcp_connection \<Rightarrow> u32 \<Rightarrow> bytes list" where
  "unacked_queue tcp ack = fst (process_tx_queue True (acked_len tcp ack) (tx_queue tcp))"

definition fin_state :: "bytes list \<Rightarrow> u32 \<Rightarrow> u32 \<Rightarrow> u32" where
  "fin_state queue fl state = (if queue = [] \<and> has fl TCP_XFER_CLOSED \<and> \<not> has state (TCP_STATE_SENT TCP_FIN) then state OR TCP_STATE_SENT TCP_FIN else state)"

definition acked_state :: "tcp_connection \<Rightarrow> u32 \<Rightarrow> u32" where
  "acked_state tcp ack = fin_state (unacked_queue tcp ack) (tcp_flags tcp)
     (if acked_flags tcp \<noteq> 0 then tcp_state tcp OR TCP_STATE_ACKED (acked_flags tcp) else tcp_state tcp)"

lemma start_fin_eq:
  "\<exists>pf. fst (tcp_start_fin tcp sh) = tcp\<lparr>tcp_state := fin_state (tx_queue tcp) (tcp_flags tcp) (tcp_state tcp), pending_flags := pf\<rparr>"
  "sh_log (snd (tcp_start_fin tcp sh)) = sh_log sh"
proof -
  show "\<exists>pf. fst (tcp_start_fin tcp sh) = tcp\<lparr>tcp_state := fin_state (tx_queue tcp) (tcp_flags tcp) (tcp_state tcp), pending_flags := pf\<rparr>"
  proof (cases "tx_queue tcp = [] \<and> has (tcp_flags tcp) TCP_XFER_CLOSED \<and> \<not> has (tcp_state tcp) (TCP_STATE_SENT TCP_FIN)")
    case True
    then show ?thesis by (intro exI [of _ "pending_flags tcp + 1"]) (simp add: tcp_start_fin_def fin_state_def pending_get_def)
  next
    case False
    then show ?thesis unfolding tcp_start_fin_def fin_state_def if_not_P [OF False] fst_conv by (intro exI [of _ "pending_flags tcp"]) simp
  qed
qed (simp add: tcp_start_fin_def pending_get_def)

lemma acked_eq:
  "\<exists>pf pd. fst (tcp_acked env tcp ack sh) = tcp\<lparr>snd_seq := ack, snd_sent := 0, tx_queue := unacked_queue tcp ack, tcp_state := acked_state tcp ack,
     pending_flags := pf, pending_data := pd\<rparr>"
  "sh_log (snd (tcp_acked env tcp ack sh)) = sh_log sh"
proof -
  define r where "r = (if acked_flags tcp \<noteq> 0 then pending_put (pending_flags tcp) (on_retry (stop_timer (te_now env) (tcp_timer tcp)) sh)
    else (pending_flags tcp, on_retry (stop_timer (te_now env) (tcp_timer tcp)) sh))"
  have r: "sh_log (snd r) = sh_log sh" by (simp add: r_def)
  define tcp1 where "tcp1 = tcp\<lparr>pending_flags := fst r, snd_seq := ack, snd_sent := 0\<rparr>"
  obtain tcp2 sh2 d where p: "tcp_process_tx_queue tcp1 (snd r) (acked_len tcp ack) True = (tcp2, sh2, d)" by (metis prod_cases3)
  obtain pd where t: "tcp2 = tcp1\<lparr>tx_queue := unacked_queue tcp ack, pending_data := pd\<rparr>"
    using process_tx_keeps(1) [OF p] by (auto simp: tcp1_def unacked_queue_def)
  have l: "sh_log sh2 = sh_log sh" using process_tx_keeps(2) [OF p] r by simp
  define tcp3 where "tcp3 = (if acked_flags tcp \<noteq> 0 then tcp2\<lparr>tcp_state := tcp_state tcp2 OR TCP_STATE_ACKED (acked_flags tcp)\<rparr> else tcp2)"
  have a: "tcp_acked env tcp ack sh = tcp_start_fin tcp3 sh2"
    unfolding tcp_acked_def Let_def r_def [symmetric] case_prod_beta tcp1_def [symmetric] p fst_conv snd_conv tcp3_def ..
  show "sh_log (snd (tcp_acked env tcp ack sh)) = sh_log sh"
    by (simp add: a l start_fin_eq(2))
  obtain pf where f: "fst (tcp_start_fin tcp3 sh2) = tcp3\<lparr>tcp_state := fin_state (tx_queue tcp3) (tcp_flags tcp3) (tcp_state tcp3), pending_flags := pf\<rparr>"
    using start_fin_eq(1) by blast
  have t3: "tcp3 = tcp2\<lparr>tcp_state := (if acked_flags tcp \<noteq> 0 then tcp_state tcp OR TCP_STATE_ACKED (acked_flags tcp) else tcp_state tcp)\<rparr>"
    by (cases "acked_flags tcp = 0") (simp_all add: tcp3_def t tcp1_def)
  have s: "fin_state (tx_queue tcp3) (tcp_flags tcp3) (tcp_state tcp3) = acked_state tcp ack"
    by (simp add: t3 t tcp1_def acked_state_def)
  show "\<exists>pf pd. fst (tcp_acked env tcp ack sh) = tcp\<lparr>snd_seq := ack, snd_sent := 0, tx_queue := unacked_queue tcp ack, tcp_state := acked_state tcp ack,
     pending_flags := pf, pending_data := pd\<rparr>"
    unfolding a f s unfolding t3 t tcp1_def by (rule exI [of _ pf], rule exI [of _ pd]) simp
qed

lemma rx_ack_cases:
  assumes "tcp_rx_ack env tcp ack win sh = (tcp', sh', r)"
  obtains "ack - snd_seq tcp > snd_sent tcp" "tcp' = tcp" "sh' = sh" "r = (if TCP_HAS_BEEN_ESTABLISHED (tcp_state tcp) then Inr () else Inl EINVAL)"
  | "ack = snd_seq tcp" "tcp' = tcp\<lparr>snd_win := win\<rparr>" "sh_log sh' = sh_log sh" "r = Inr ()"
  | pf pd where "ack \<noteq> snd_seq tcp" "ack - snd_seq tcp \<le> snd_sent tcp" "r = Inr ()" "sh_log sh' = sh_log sh"
      "tcp' = tcp\<lparr>snd_win := win, snd_seq := ack, snd_sent := 0, tx_queue := unacked_queue tcp ack, tcp_state := acked_state tcp ack,
         pending_flags := pf, pending_data := pd\<rparr>"
proof -
  let ?sh1 = "if \<not> has (tcp_state tcp) (TCP_STATE_SENT TCP_FIN)
    then on_retry (start_timer_fixed (te_now env) (tcp_keepalive tcp) TCP_KEEPALIVE_DELAY) sh else sh"
  have l1: "sh_log ?sh1 = sh_log sh" by simp
  have k: "unacked_queue (tcp\<lparr>snd_win := win\<rparr>) ack = unacked_queue tcp ack" "acked_state (tcp\<lparr>snd_win := win\<rparr>) ack = acked_state tcp ack"
    by (simp_all add: unacked_queue_def acked_state_def acked_len_def acked_flags_def)
  obtain pf pd where f: "fst (tcp_acked env (tcp\<lparr>snd_win := win\<rparr>) ack ?sh1) = (tcp\<lparr>snd_win := win\<rparr>)\<lparr>snd_seq := ack, snd_sent := 0,
      tx_queue := unacked_queue tcp ack, tcp_state := acked_state tcp ack, pending_flags := pf, pending_data := pd\<rparr>"
    using acked_eq(1) [of env "tcp\<lparr>snd_win := win\<rparr>" ack ?sh1] unfolding k by blast
  have l: "sh_log (snd (tcp_acked env (tcp\<lparr>snd_win := win\<rparr>) ack ?sh1)) = sh_log sh" by (simp only: acked_eq(2) l1)
  note x = assms [unfolded tcp_rx_ack_def Let_def case_prod_beta]
  consider "ack - snd_seq tcp > snd_sent tcp" | "\<not> ack - snd_seq tcp > snd_sent tcp" "ack = snd_seq tcp" | "\<not> ack - snd_seq tcp > snd_sent tcp" "ack \<noteq> snd_seq tcp"
    by blast
  then show thesis
  proof cases
    case 1
    from x have "tcp' = tcp" "sh' = sh" "r = (if TCP_HAS_BEEN_ESTABLISHED (tcp_state tcp) then Inr () else Inl EINVAL)"
      unfolding if_P [OF 1] prod.inject by (blast dest: sym)+
    then show thesis by (rule that(1) [OF 1])
  next
    case 2
    then have z: "ack - snd_seq tcp = 0" by simp
    from x have "tcp' = tcp\<lparr>snd_win := win\<rparr>" "sh' = ?sh1" "r = Inr ()"
      unfolding if_not_P [OF 2(1)] if_P [OF z] prod.inject by (blast dest: sym)+
    then show thesis using that(2) [OF 2(2)] l1 by blast
  next
    case 3
    then have "ack - snd_seq tcp \<noteq> 0" by simp
    from x have "tcp' = fst (tcp_acked env (tcp\<lparr>snd_win := win\<rparr>) ack ?sh1)" "sh' = snd (tcp_acked env (tcp\<lparr>snd_win := win\<rparr>) ack ?sh1)" "r = Inr ()"
      unfolding if_not_P [OF 3(1)] if_not_P [OF \<open>ack - snd_seq tcp \<noteq> 0\<close>] prod.inject by (blast dest: sym)+
    then show thesis using 3 f l by (intro that(3)) simp_all
  qed
qed

lemma acked_flags_bit: "bit (acked_flags tcp) n \<longleftrightarrow> bit (TCP_FLAGS_SENDING (tcp_state tcp)) n \<and> n < 2"
proof -
  have "TCP_SYN OR TCP_FIN = mask 2" by (simp add: TCP_SYN_def TCP_FIN_def mask_eq_exp_minus_1)
  then show ?thesis by (auto simp: acked_flags_def bit_and_iff bit_mask_iff)
qed

lemma acked_state_bits: "2 \<le> n \<Longrightarrow> n \<noteq> 8 \<Longrightarrow> n \<noteq> 9 \<Longrightarrow> bit (acked_state tcp ack) n \<longleftrightarrow> bit (tcp_state tcp) n"
proof -
  assume n: "2 \<le> n" "n \<noteq> 8" "n \<noteq> 9"
  then have "\<not> bit (TCP_STATE_ACKED (acked_flags tcp)) n" "\<not> bit (TCP_STATE_SENT TCP_FIN) n"
    by (auto simp: TCP_STATE_ACKED_def bit_push_bit_iff acked_flags_bit TCP_STATE_SENT_def TCP_FIN_def bit_1_iff)
  then show ?thesis by (simp add: acked_state_def fin_state_def bit_or_iff)
qed

lemma rx_ack_keeps:
  "tcp_rx_ack env tcp ack win sh = (tcp', sh', r) \<Longrightarrow> rx_frame tcp tcp' \<and> tcp_flags tcp' = tcp_flags tcp \<and> on_list tcp' = on_list tcp \<and> sh_log sh' = sh_log sh
     \<and> rcv_win tcp' = rcv_win tcp"
  by (elim rx_ack_cases) (auto intro!: rx_frameI simp: acked_state_bits)

section \<open>The receive path is kept by closing and by the application\<close>

text \<open>What a connection has told its application to read.\<close>

definition delivered :: "nat \<Rightarrow> tcp_event list \<Rightarrow> bytes" where
  "delivered i es = concat (map (\<lambda>e. case e of Deliver j d \<Rightarrow> if j = i then d else [] | _ \<Rightarrow> []) es)"

lemma delivered_append [simp]: "delivered i (es @ fs) = delivered i es @ delivered i fs"
  by (simp add: delivered_def)

lemma delivered_simps [simp]:
  "delivered i [] = []" "delivered i [Deliver j d] = (if j = i then d else [])" "delivered i [Closed j rc] = []"
  "delivered i [Window_changed j] = []" "delivered i [Transmit j p] = []" "delivered i [Queued j d] = []"
  by (simp_all add: delivered_def)

text \<open>An operation that delivers nothing and keeps the receive path.\<close>

definition quiet :: "nat \<Rightarrow> tcp_connection \<times> 's tcp_shared \<Rightarrow> tcp_connection \<times> 's tcp_shared \<Rightarrow> bool" where
  "quiet i s s' \<longleftrightarrow> rx_frame (fst s) (fst s') \<and> delivered i (sh_log (snd s')) = delivered i (sh_log (snd s))"

lemma rx_frame_refl [simp, intro]: "rx_frame tcp tcp"
  by (intro rx_frameI) simp_all

lemma quiet_trans: "quiet i a b \<Longrightarrow> quiet i b c \<Longrightarrow> quiet i a c"
  by (auto simp: quiet_def intro: rx_frame_trans)

lemma quiet_refl [simp, intro]: "quiet i a a"
  by (auto simp: quiet_def)

lemma delete_eq:
  "\<exists>n m. fst (tcp_delete env tcp sh) = tcp\<lparr>tcp_state := TCP_CLOSED, rx_queue := [], tx_queue := [], pending_data := n, pending_flags := m,
     process_running := False, on_list := False\<rparr>"
  "sh_log (snd (tcp_delete env tcp sh)) = sh_log sh"
proof -
  define f where "f = free_tx_queue (tcp\<lparr>tcp_state := TCP_CLOSED, rx_queue := []\<rparr>) sh"
  obtain n where f1: "fst f = tcp\<lparr>tcp_state := TCP_CLOSED, rx_queue := [], tx_queue := [], pending_data := n\<rparr>"
    by (rule that) (simp add: f_def free_tx_queue_def case_prod_beta)
  have f2: "sh_log (snd f) = sh_log sh"
    by (simp add: f_def free_tx_queue_def case_prod_beta)
  define g where "g = pending_put (fst (pending_put (pending_flags (fst f)) (snd f))) (snd (pending_put (pending_flags (fst f)) (snd f)))"
  have g2: "sh_log (snd g) = sh_log sh" by (simp add: g_def f2)
  define h where "h = process_del ((fst f)\<lparr>pending_flags := fst g\<rparr>) (snd g)"
  have h1: "fst h = (fst f)\<lparr>pending_flags := fst g, process_running := False\<rparr>"
    by (simp add: h_def process_del_def)
  have h2: "sh_log (snd h) = sh_log sh" by (simp add: h_def g2)
  have d: "fst (tcp_delete env tcp sh) = (fst h)\<lparr>on_list := False\<rparr>" "sh_log (snd (tcp_delete env tcp sh)) = sh_log (snd h)"
    unfolding tcp_delete_def Let_def case_prod_beta f_def [symmetric] g_def [symmetric] h_def [symmetric] by simp_all
  show "\<exists>n m. fst (tcp_delete env tcp sh) = tcp\<lparr>tcp_state := TCP_CLOSED, rx_queue := [], tx_queue := [], pending_data := n, pending_flags := m,
     process_running := False, on_list := False\<rparr>"
    unfolding d h1 f1 by (rule exI [of _ n], rule exI [of _ "fst g"]) simp
  show "sh_log (snd (tcp_delete env tcp sh)) = sh_log sh" by (simp add: d h2)
qed

definition close_ack :: "'s tcp_env \<Rightarrow> tcp_connection \<Rightarrow> 's tcp_shared \<Rightarrow> tcp_connection \<times> 's tcp_shared" where
  "close_ack env tcp sh =
     (if \<not> has (tcp_state tcp) (TCP_STATE_ACKED TCP_SYN) then
        (case tcp_rx_ack env tcp (snd_seq tcp + 1) 0 sh of (tcp, sh, _) \<Rightarrow> (tcp, sh))
      else (tcp, sh))"

lemma close_cases:
  assumes "tcp_close env tcp rc sh = (tcp', sh')"
  obtains (deleted) n m where "\<not> has (tcp_state tcp) (TCP_STATE_RCVD TCP_SYN)"
      "tcp' = tcp\<lparr>tcp_flags := tcp_flags tcp OR TCP_XFER_CLOSED, tcp_state := TCP_CLOSED, rx_queue := [], tx_queue := [], pending_data := n,
         pending_flags := m, process_running := False, on_list := False\<rparr>"
      "sh_log sh' = sh_log sh @ (if has (tcp_flags tcp) TCP_XFER_CLOSED then [] else [Closed (tcp_id tcp) rc])"
  | (closing) tcp2 sh1 sh2 n p where "has (tcp_state tcp) (TCP_STATE_RCVD TCP_SYN)"
      "close_ack env (tcp\<lparr>tcp_flags := tcp_flags tcp OR TCP_XFER_CLOSED\<rparr>) sh1 = (tcp2, sh2)"
      "sh_log sh1 = sh_log sh @ (if has (tcp_flags tcp) TCP_XFER_CLOSED then [] else [Closed (tcp_id tcp) rc])"
      "tcp' = tcp2\<lparr>tcp_state := (if tx_queue tcp2 = [] \<and> \<not> has (tcp_state tcp2) (TCP_STATE_SENT TCP_FIN)
         then tcp_state tcp2 OR TCP_STATE_SENT TCP_FIN else tcp_state tcp2), process_running := p, pending_flags := n\<rparr>"
      "sh_log sh' = sh_log sh2"
proof -
  define sh1 where "sh1 = (if has (tcp_flags tcp) TCP_XFER_CLOSED then sh else log_event (Closed (tcp_id tcp) rc) sh)"
  have l1: "sh_log sh1 = sh_log sh @ (if has (tcp_flags tcp) TCP_XFER_CLOSED then [] else [Closed (tcp_id tcp) rc])" by (simp add: sh1_def)
  define tcp1 where "tcp1 = tcp\<lparr>tcp_flags := tcp_flags tcp OR TCP_XFER_CLOSED\<rparr>"
  have s1: "tcp_state tcp1 = tcp_state tcp" by (simp add: tcp1_def)
  obtain tcp2 sh2 where c: "close_ack env tcp1 sh1 = (tcp2, sh2)" by (metis surj_pair)
  define sh3 where "sh3 = on_retry (stop_timer (te_now env) (tcp_keepalive tcp2)) sh2"
  note x = assms [unfolded tcp_close_def Let_def, folded sh1_def tcp1_def, folded close_ack_def, unfolded c prod.case, folded sh3_def]
  show thesis
  proof (cases "has (tcp_state tcp) (TCP_STATE_RCVD TCP_SYN)")
    case False
    then have "\<not> has (tcp_state tcp1) (TCP_STATE_RCVD TCP_SYN)" by (simp add: s1)
    then have d: "tcp_delete env tcp1 sh1 = (tcp', sh')" using x by (simp only: if_True not_False_eq_True)
    obtain n m where "tcp' = tcp1\<lparr>tcp_state := TCP_CLOSED, rx_queue := [], tx_queue := [], pending_data := n, pending_flags := m,
        process_running := False, on_list := False\<rparr>"
      using delete_eq(1) [of env tcp1 sh1] d by auto
    moreover have "sh_log sh' = sh_log sh1" using delete_eq(2) [of env tcp1 sh1] d by simp
    ultimately show thesis by (intro deleted [OF False, where n = n and m = m]) (simp_all only: tcp1_def l1)
  next
    case True
    then have y: "(if tx_queue tcp2 = [] \<and> \<not> has (tcp_state tcp2) (TCP_STATE_SENT TCP_FIN)
        then case process_add (tcp2\<lparr>tcp_state := tcp_state tcp2 OR TCP_STATE_SENT TCP_FIN\<rparr>) sh3 of
            (tcp, sh) \<Rightarrow> (case pending_get (pending_flags tcp) sh of (n, sh) \<Rightarrow> (tcp\<lparr>pending_flags := n\<rparr>, sh))
        else (tcp2, sh3)) = (tcp', sh')"
      using x by (simp only: s1 not_True_eq_False if_False)
    have l3: "sh_log sh3 = sh_log sh2" by (simp add: sh3_def)
    show thesis
    proof (cases "tx_queue tcp2 = [] \<and> \<not> has (tcp_state tcp2) (TCP_STATE_SENT TCP_FIN)")
      case fin: True
      define a where "a = process_add (tcp2\<lparr>tcp_state := tcp_state tcp2 OR TCP_STATE_SENT TCP_FIN\<rparr>) sh3"
      have a: "fst a = tcp2\<lparr>tcp_state := tcp_state tcp2 OR TCP_STATE_SENT TCP_FIN, process_running := True\<rparr>" "sh_log (snd a) = sh_log sh2"
        by (simp_all add: a_def process_add_def l3)
      have "tcp' = (fst a)\<lparr>pending_flags := fst (pending_get (pending_flags (fst a)) (snd a))\<rparr>" "sh_log sh' = sh_log (snd a)"
        using y unfolding if_P [OF fin] a_def [symmetric] case_prod_beta by auto
      then show thesis
        by (intro closing [OF True c [unfolded tcp1_def] l1, where p = True]) (simp_all only: a if_P [OF fin])
    next
      case fin: False
      then have "tcp' = tcp2" "sh_log sh' = sh_log sh2"
        using y l3 unfolding if_not_P [OF fin] prod.inject by (blast, simp)
      moreover have "tcp2 = tcp2\<lparr>tcp_state := tcp_state tcp2, process_running := process_running tcp2, pending_flags := pending_flags tcp2\<rparr>" by simp
      ultimately show thesis
        by (intro closing [OF True c [unfolded tcp1_def] l1, where p = "process_running tcp2" and n = "pending_flags tcp2"]) (simp_all only: if_not_P [OF fin])
    qed
  qed
qed

lemma close_ack_keeps:
  "close_ack env tcp sh = (tcp', sh') \<Longrightarrow> rx_frame tcp tcp' \<and> tcp_flags tcp' = tcp_flags tcp \<and> on_list tcp' = on_list tcp \<and> sh_log sh' = sh_log sh"
  unfolding close_ack_def using rx_ack_keeps [of env tcp "snd_seq tcp + 1" 0 sh] by (auto split: if_splits prod.splits)

lemma quiet_close: "quiet i (tcp, sh) (tcp_close env tcp rc sh)"
proof -
  obtain tcp' sh' where c: "tcp_close env tcp rc sh = (tcp', sh')" by (metis surj_pair)
  then show ?thesis
  proof (cases rule: close_cases)
    case (deleted n m)
    then show ?thesis by (auto simp: c quiet_def rx_frame_def tcp_bits bit_or_iff)
  next
    case (closing tcp2 sh1 sh2 n p)
    note k = close_ack_keeps [OF closing(2)]
    have "rx_frame tcp (tcp\<lparr>tcp_flags := tcp_flags tcp OR TCP_XFER_CLOSED\<rparr>)" by (intro rx_frameI) simp_all
    moreover have "rx_frame tcp2 tcp'" unfolding closing(4) by (intro rx_frameI) (simp_all add: TCP_STATE_SENT_def TCP_FIN_def bit_simps)
    ultimately have "rx_frame tcp tcp'" using k by (blast intro: rx_frame_trans)
    then show ?thesis using k closing(3,5) by (auto simp: c quiet_def)
  qed
qed

lemma log_alloc: "tcp_alloc_iob env len tcp sh = (tcp', sh', r) \<Longrightarrow> sh_log sh' = sh_log sh"
proof -
  have "sh_log (snd (((\<lambda>(tcp, sh). tcp_discard_one tcp sh) ^^ n) (tcp, sh))) = sh_log sh" for n
    by (induction n) (auto simp: case_prod_beta tcp_discard_one_def)
  then show "tcp_alloc_iob env len tcp sh = (tcp', sh', r) \<Longrightarrow> ?thesis"
    by (auto simp: tcp_alloc_iob_def case_prod_beta)
qed

lemma iob_push_all_data: "iob_push_all opts iobuf = Some b \<Longrightarrow> iob_data b = concat (rev opts) @ iob_data iobuf"
  by (induction opts iobuf rule: iob_push_all.induct) (auto simp: bind_eq_Some_conv iob_prepend_data)

lemma log_transmit:
  assumes "tcp_transmit env i dest tcphdr iobuf sh = Some (sh', r)"
  shows "\<exists>c. sh_log sh' = sh_log sh @ [Transmit i (tcphdr_bytes (tcphdr\<lparr>th_csum := c\<rparr>) @ iob_data iobuf)]"
proof -
  obtain y c y' net res where y: "iob_prepend iobuf (tcphdr_bytes (tcphdr\<lparr>th_csum := c\<rparr>)) = Some y'"
      "(case res of Inl rc \<Rightarrow> ((log_event (Transmit i (iob_data y')) sh)\<lparr>sh_net := net\<rparr>, Inl rc)
        | Inr frame \<Rightarrow> ((log_event (Transmit i (iob_data y')) sh)\<lparr>sh_net := net, sh_frames := sh_frames (log_event (Transmit i (iob_data y')) sh) @ [frame]\<rparr>, Inr ())) = (sh', r)"
    using assms unfolding tcp_transmit_def bind_eq_Some_conv Let_def case_prod_beta by (elim exE conjE) auto
  then have "sh_log sh' = sh_log sh @ [Transmit i (iob_data y')]" by (cases res) auto
  then show ?thesis using iob_prepend_data [OF y(1)] by auto
qed

text \<open>The packet that is sent: a header, the options and the data from the transmit queue.\<close>

definition tx_packet :: "'s tcp_env \<Rightarrow> u32 \<Rightarrow> u32 \<Rightarrow> nat \<Rightarrow> u16 \<Rightarrow> tcp_connection \<Rightarrow> bytes" where
  "tx_packet env seq fl len csum tcp =
     (let (tcp', options) = tcp_tx_options env fl seq (tcp_expand_window env tcp)
      in tcphdr_bytes ((tcp_make_header tcp' (if len \<noteq> 0 then fl OR TCP_PSH else fl) (length (concat options) + sizeof_tcphdr))\<lparr>th_csum := csum\<rparr>)
         @ concat (rev options) @ fst (snd (process_tx_queue False len (tx_queue tcp))))"

lemma xmit_packet_transmits:
  assumes "tcp_xmit_packet env seq fl len iobuf tcp sh = Some (tcp', sh')"
  obtains b0 b1 b2 tcp1 options r where "iob_reserve iobuf TCP_MAX_HEADER_LEN = Some b0"
    "iob_append b0 (snd (snd (tcp_process_tx_queue tcp sh len False))) = Some b1"
    "tcp_tx_options env fl seq (tcp_expand_window env tcp) = (tcp1, options)" "iob_push_all options b1 = Some b2"
    "tcp_transmit env (tcp_id tcp1) (tcp_peer tcp1) (tcp_make_header tcp1 (if len \<noteq> 0 then fl OR TCP_PSH else fl)
        (iob_len b2 - iob_len b1 + sizeof_tcphdr)) b2 sh = Some (sh', r)"
    "tcp' = tcp1 \<or> tcp' = tcp1\<lparr>tcp_flags := tcp_flags tcp1 AND NOT TCP_ACK_PENDING\<rparr>"
proof -
  obtain tcp1 options where o: "tcp_tx_options env fl seq (tcp_expand_window env tcp) = (tcp1, options)" by (metis surj_pair)
  obtain b0 b1 b2 sh1 r where "iob_reserve iobuf TCP_MAX_HEADER_LEN = Some b0"
    "iob_append b0 (snd (snd (tcp_process_tx_queue tcp sh len False))) = Some b1" "iob_push_all options b1 = Some b2"
    "tcp_transmit env (tcp_id tcp1) (tcp_peer tcp1) (tcp_make_header tcp1 (if len \<noteq> 0 then fl OR TCP_PSH else fl)
        (iob_len b2 - iob_len b1 + sizeof_tcphdr)) b2 sh = Some (sh1, r)"
    "(case r of Inl rc \<Rightarrow> Some (tcp1, sh1) | Inr _ \<Rightarrow> Some (tcp1\<lparr>tcp_flags := tcp_flags tcp1 AND NOT TCP_ACK_PENDING\<rparr>, sh1)) = Some (tcp', sh')"
    using assms unfolding tcp_xmit_packet_def Let_def o prod.case bind_eq_Some_conv by (elim exE conjE) (simp only: split_paired_all prod.case)
  then show thesis using that [OF _ _ o, of b0 b1 b2 r] by (cases r) simp_all
qed

lemma xmit_frame_id: "xmit_frame tcp tcp' \<Longrightarrow> tcp_id tcp' = tcp_id tcp"
  by (auto simp: xmit_frame_def)

lemma log_xmit_packet:
  assumes "tcp_xmit_packet env seq fl len iobuf tcp sh = Some (tcp', sh')"
  shows "\<exists>p. sh_log sh' = sh_log sh @ [Transmit (tcp_id tcp) p] \<and> (iob_data iobuf = [] \<longrightarrow> (\<exists>c. p = tx_packet env seq fl len c tcp))"
  using assms
proof (rule xmit_packet_transmits)
  fix b0 b1 b2 tcp1 options r
  assume b0: "iob_reserve iobuf TCP_MAX_HEADER_LEN = Some b0"
    and b1: "iob_append b0 (snd (snd (tcp_process_tx_queue tcp sh len False))) = Some b1"
    and o: "tcp_tx_options env fl seq (tcp_expand_window env tcp) = (tcp1, options)" and b2: "iob_push_all options b1 = Some b2"
    and t: "tcp_transmit env (tcp_id tcp1) (tcp_peer tcp1) (tcp_make_header tcp1 (if len \<noteq> 0 then fl OR TCP_PSH else fl)
        (iob_len b2 - iob_len b1 + sizeof_tcphdr)) b2 sh = Some (sh', r)"
  have id: "tcp_id tcp1 = tcp_id tcp"
    using xmit_frame_id [OF xmit_frame_options, of env fl seq "tcp_expand_window env tcp"] xmit_frame_id [OF xmit_frame_window, of env tcp] o by simp
  have l: "iob_len b2 - iob_len b1 = length (concat options)"
    using iob_push_all_data [OF b2] by (simp add: iob_len_def length_concat rev_map [symmetric])
  obtain c where c: "sh_log sh' = sh_log sh @ [Transmit (tcp_id tcp) (tcphdr_bytes ((tcp_make_header tcp1 (if len \<noteq> 0 then fl OR TCP_PSH else fl)
      (length (concat options) + sizeof_tcphdr))\<lparr>th_csum := c\<rparr>) @ iob_data b2)]"
    using log_transmit [OF t] unfolding id l by blast
  have "iob_data b2 = concat (rev options) @ fst (snd (process_tx_queue False len (tx_queue tcp)))" if "iob_data iobuf = []"
    using iob_push_all_data [OF b2] iob_append_data [OF b1] iob_reserve_data [OF b0 that] by (simp add: tx_data)
  then show ?thesis using c by (auto simp: tx_packet_def o intro: exI [of _ c])
qed

lemma quiet_xmit_sack: "tcp_xmit_sack env seq tcp sh = Some s \<Longrightarrow> quiet i (tcp, sh) s"
proof -
  assume x: "tcp_xmit_sack env seq tcp sh = Some s"
  obtain tcp' sh' where s: "s = (tcp', sh')" by (metis surj_pair)
  have "delivered i (sh_log sh') = delivered i (sh_log sh)"
    using x unfolding s by (elim xmit_sack_cases) (auto dest!: log_alloc log_xmit_packet)
  then show ?thesis using rx_frame_xmit [OF xmit_frame_xmit_sack] x by (auto simp: quiet_def s)
qed

lemma quiet_xfer_close: "tcp_xfer_close env tcp rc sh = Some s \<Longrightarrow> quiet i (tcp, sh) s"
  unfolding tcp_xfer_close_def tcp_xmit_def
  using quiet_close [of i tcp sh env rc] by (auto split: prod.splits intro: quiet_trans quiet_xmit_sack)

lemma quiet_xfer_deliver: "tcp_xfer_deliver env tcp iobuf sh = Some s \<Longrightarrow> quiet i (tcp, sh) s"
proof -
  assume x: "tcp_xfer_deliver env tcp iobuf sh = Some s"
  let ?g = "pending_get (pending_data tcp) (log_event (Queued (tcp_id tcp) iobuf) sh)"
  let ?t = "tcp\<lparr>tx_queue := tx_queue tcp @ [iobuf], pending_data := fst ?g\<rparr>"
  have "quiet i (tcp, sh) (?t, snd ?g)" by (auto simp: quiet_def intro!: rx_frameI)
  moreover have "quiet i (?t, snd ?g) s"
    using x by (intro quiet_xmit_sack) (simp add: tcp_xfer_deliver_def tcp_xmit_def case_prod_beta)
  ultimately show ?thesis by (rule quiet_trans)
qed

lemma quiet_discard: "quiet i (tcp, sh) (tcp_discard_one tcp sh)"
  using rx_frame_xmit [OF xmit_frame_discard, of tcp sh] by (simp add: quiet_def tcp_discard_one_def)

lemma quiet_app_calls: "app_calls env calls tcp sh = Some s \<Longrightarrow> quiet i (tcp, sh) s"
proof (induction env calls tcp sh rule: app_calls.induct)
  case (2 env rc calls tcp sh)
  then show ?case by (auto split: if_splits simp: bind_eq_Some_conv intro: quiet_trans quiet_xfer_close)
next
  case (3 env iobuf calls tcp sh)
  then show ?case by (auto split: if_splits simp: bind_eq_Some_conv intro: quiet_trans quiet_xfer_deliver)
next
  case (4 env calls tcp sh)
  then show ?case using quiet_discard [of i tcp sh] by (auto split: prod.splits intro: quiet_trans)
qed auto

text \<open>Data are delivered, then the application reacts.\<close>

lemma xfer_deliver_iob_keeps:
  assumes "xfer_deliver_iob env tcp iobuf sh = Some (tcp', sh')"
  shows "rx_frame tcp tcp'"
    and "delivered (tcp_id tcp) (sh_log sh') = delivered (tcp_id tcp) (sh_log sh) @ (if has (tcp_flags tcp) TCP_XFER_CLOSED then [] else iobuf)"
    and "i \<noteq> tcp_id tcp \<Longrightarrow> delivered i (sh_log sh') = delivered i (sh_log sh)"
  using assms quiet_app_calls [of env "te_reaction env iobuf" tcp "log_event (Deliver (tcp_id tcp) iobuf) sh" "(tcp', sh')"]
  unfolding xfer_deliver_iob_def quiet_def by (auto split: if_splits)

lemma rx_seq_simps [simp]:
  "rcv_ack (tcp_rx_seq tcp len) = rcv_ack tcp + len" "rcv_win (tcp_rx_seq tcp len) = (if rcv_win tcp > len then rcv_win tcp - len else 0)"
  "rx_queue (tcp_rx_seq tcp len) = rx_queue tcp" "tx_queue (tcp_rx_seq tcp len) = tx_queue tcp" "tcp_id (tcp_rx_seq tcp len) = tcp_id tcp"
  "tcp_state (tcp_rx_seq tcp len) = tcp_state tcp" "tcp_flags (tcp_rx_seq tcp len) = tcp_flags tcp OR TCP_ACK_PENDING" "on_list (tcp_rx_seq tcp len) = on_list tcp"
  "snd_seq (tcp_rx_seq tcp len) = snd_seq tcp" "snd_sent (tcp_rx_seq tcp len) = snd_sent tcp" "rcv_win_scale (tcp_rx_seq tcp len) = rcv_win_scale tcp"
  "tcp_peer (tcp_rx_seq tcp len) = tcp_peer tcp" "local_port (tcp_rx_seq tcp len) = local_port tcp"
  by (simp_all add: tcp_rx_seq_def Let_def)

lemma rx_data_length: "tcp_rx_data env tcp seq iobuf sh = Some (tcp', sh') \<Longrightarrow> length (rx_queue tcp') \<le> length (rx_queue tcp)"
  unfolding tcp_rx_data_def Let_def by (auto split: if_splits dest!: xfer_deliver_iob_keeps(1) rx_frame_length)

lemma rx_fin_length: "length (rx_queue (fst (tcp_rx_fin env tcp seq sh))) \<le> length (rx_queue tcp)"
  unfolding tcp_rx_fin_def Let_def
  using quiet_close [of 0 "(tcp_rx_seq tcp 1)\<lparr>tcp_state := tcp_state (tcp_rx_seq tcp 1) OR TCP_STATE_RCVD TCP_FIN\<rparr>" sh env None]
  by (auto simp: quiet_def dest!: rx_frame_length)

section \<open>The queue of received packets\<close>

function tcp_process_rx_queue :: "'s tcp_env \<Rightarrow> tcp_connection \<Rightarrow> 's tcp_shared \<Rightarrow> (tcp_connection \<times> 's tcp_shared) option" where
  "tcp_process_rx_queue env tcp sh =
     (case rx_queue tcp of
        [] \<Rightarrow> Some (tcp, sh)
      | q # queue \<Rightarrow>
          if tcp_cmp (q_seq q) (rcv_ack tcp) > 0 then Some (tcp, sh)
          else
            case tcp_rx_data env (tcp\<lparr>rx_queue := queue\<rparr>) (q_seq q) (q_data q) sh of
              None \<Rightarrow> None
            | Some (tcp, sh) \<Rightarrow>
                case (if has (q_flags q) TCP_FIN then tcp_rx_fin env tcp (q_seq q + of_nat (length (q_data q))) sh else (tcp, sh)) of
                  (tcp, sh) \<Rightarrow> tcp_process_rx_queue env tcp sh)"
  by pat_completeness auto

termination
proof (relation "measure (\<lambda>(env, tcp, sh). length (rx_queue tcp))")
  fix env :: "'s tcp_env" and tcp :: tcp_connection and sh :: "'s tcp_shared" and q queue r tcp1 sh1 tcp2 sh2
  assume q: "rx_queue tcp = q # queue" and d: "tcp_rx_data env (tcp\<lparr>rx_queue := queue\<rparr>) (q_seq q) (q_data q) sh = Some r" "(tcp1, sh1) = r"
    and f: "(tcp2, sh2) = (if has (q_flags q) TCP_FIN then tcp_rx_fin env tcp1 (q_seq q + of_nat (length (q_data q))) sh1 else (tcp1, sh1))"
  have "length (rx_queue tcp1) \<le> length queue" using rx_data_length [of env "tcp\<lparr>rx_queue := queue\<rparr>"] d by auto
  moreover have "length (rx_queue tcp2) \<le> length (rx_queue tcp1)"
    using rx_fin_length [of env tcp1 "q_seq q + of_nat (length (q_data q))" sh1] f by (auto split: if_splits simp: prod_eq_iff)
  ultimately show "((env, tcp2, sh2), env, tcp, sh) \<in> measure (\<lambda>(env, tcp, sh). length (rx_queue tcp))" using q by simp
qed simp

declare tcp_process_rx_queue.simps [simp del]

text \<open>A packet of an open connection, and the parameters that were parsed from its header.\<close>

record tcp_segment =
  sg_header :: tcp_header
  sg_options :: tcp_options
  sg_data :: bytes

definition tcp_scale_window :: "u16 \<Rightarrow> u8 \<Rightarrow> u32 option" where
  "tcp_scale_window raw_win scale =
     (if scale < 32 \<and> uint raw_win * 2 ^ unat scale < 2 ^ 31 then Some (push_bit (unat scale) (ucast raw_win)) else None)"

definition tcp_rx_done :: "'s tcp_env \<Rightarrow> nat \<Rightarrow> u32 \<Rightarrow> tcp_connection \<Rightarrow> 's tcp_shared \<Rightarrow> (tcp_connection \<times> 's tcp_shared) option" where
  "tcp_rx_done env old_xfer_window seq tcp sh = do {
     (tcp, sh) \<leftarrow> (if rx_queue tcp = [] then Some (process_add tcp sh) else tcp_xmit_sack env seq tcp sh);
     let sh = (if TCP_CLOSED_GRACEFULLY (tcp_state tcp) then
         on_retry (start_timer_fixed (te_now env) (tcp_wait tcp) (2 * TCP_MSL)) (on_retry (stop_timer (te_now env) (tcp_wait tcp)) sh)
       else sh);
     Some (tcp, if tcp_xfer_window tcp \<noteq> old_xfer_window \<and> \<not> has (tcp_flags tcp) TCP_XFER_CLOSED
       then log_event (Window_changed (tcp_id tcp)) sh else sh)
   }"

definition tcp_rx_body ::
  "'s tcp_env \<Rightarrow> nat \<Rightarrow> u32 \<Rightarrow> u32 \<Rightarrow> tcp_options \<Rightarrow> bytes \<Rightarrow> tcp_connection \<Rightarrow> 's tcp_shared
    \<Rightarrow> (tcp_connection \<times> 's tcp_shared \<times> unit result) option" where
  "tcp_rx_body env old_xfer_window seq fl options iobuf tcp sh =
     (let tcp = (if has (tcp_state tcp) (TCP_STATE_RCVD TCP_SYN) \<and> seq \<noteq> rcv_ack tcp
            then tcp\<lparr>tcp_flags := tcp_flags tcp OR TCP_ACK_PENDING\<rparr> else tcp);
          (tcp, seq) = (if has fl TCP_SYN then (tcp_rx_syn tcp seq options, seq + 1) else (tcp, seq));
          (tcp, sh, r) = (if has fl TCP_RST then tcp_rx_rst env tcp seq sh else (tcp, sh, Inr ()))
      in case r of
           Inl rc \<Rightarrow> Some (tcp, sh, Inl rc)
         | Inr _ \<Rightarrow> do {
             let (tcp, sh) = tcp_rx_enqueue tcp seq fl iobuf sh;
             (tcp, sh) \<leftarrow> tcp_process_rx_queue env tcp sh;
             (tcp, sh) \<leftarrow> tcp_rx_done env old_xfer_window seq tcp sh;
             Some (tcp, sh, Inr ())
           })"

definition tcp_rx_segment ::
  "'s tcp_env \<Rightarrow> sockaddr_tcpip \<Rightarrow> tcp_segment \<Rightarrow> tcp_connection \<Rightarrow> 's tcp_shared \<Rightarrow> (tcp_connection \<times> 's tcp_shared \<times> unit result) option" where
  "tcp_rx_segment env st_src sg tcp sh =
     (let tcphdr = sg_header sg;
          seq = ntohl (th_seq tcphdr);
          ack = ntohl (th_ack tcphdr);
          raw_win = ntohs (th_win tcphdr);
          fl = ucast (th_flags tcphdr);
          old_xfer_window = tcp_xfer_window tcp
      in if has fl TCP_ACK then
           case tcp_scale_window raw_win (snd_win_scale tcp) of
             None \<Rightarrow> None
           | Some win \<Rightarrow>
               (case tcp_rx_ack env tcp ack win sh of
                  (tcp, sh, Inl rc) \<Rightarrow> do {
                    (tcp, sh, _) \<leftarrow> tcp_xmit_reset env tcp st_src tcphdr sh;
                    Some (tcp, sh, Inl rc)
                  }
                | (tcp, sh, Inr _) \<Rightarrow> tcp_rx_body env old_xfer_window seq fl (sg_options sg) (sg_data sg) tcp sh)
         else tcp_rx_body env old_xfer_window seq fl (sg_options sg) (sg_data sg) tcp sh)"

section \<open>Timers and the process of a connection\<close>

definition tcp_expired :: "'s tcp_env \<Rightarrow> bool \<Rightarrow> tcp_connection \<Rightarrow> 's tcp_shared \<Rightarrow> (tcp_connection \<times> 's tcp_shared) option" where
  "tcp_expired env over tcp sh =
     (if over then Some (tcp_close env (tcp\<lparr>tcp_state := TCP_CLOSED\<rparr>) (Some ETIMEDOUT) sh)
      else tcp_xmit env tcp sh)"

definition tcp_keepalive_expired :: "'s tcp_env \<Rightarrow> tcp_connection \<Rightarrow> 's tcp_shared \<Rightarrow> (tcp_connection \<times> 's tcp_shared) option" where
  "tcp_keepalive_expired env tcp sh =
     tcp_xmit env (tcp\<lparr>tcp_flags := tcp_flags tcp OR TCP_ACK_PENDING\<rparr>) (on_retry (start_timer_fixed (te_now env) (tcp_keepalive tcp) TCP_KEEPALIVE_DELAY) sh)"

definition tcp_wait_expired :: "'s tcp_env \<Rightarrow> tcp_connection \<Rightarrow> 's tcp_shared \<Rightarrow> tcp_connection \<times> 's tcp_shared" where
  "tcp_wait_expired env tcp sh = tcp_close env (tcp\<lparr>tcp_state := TCP_CLOSED\<rparr>) None sh"

text \<open>The step of the process: it is taken off the run queue and transmits.\<close>

definition tcp_step :: "'s tcp_env \<Rightarrow> tcp_connection \<Rightarrow> 's tcp_shared \<Rightarrow> (tcp_connection \<times> 's tcp_shared) option" where
  "tcp_step env tcp sh =
     (let sh = on_counts (ref_increment (Some (tcp_id tcp))) sh;
          (tcp, sh) = process_del tcp sh
      in map_option (\<lambda>(tcp, sh). (tcp, on_counts (ref_decrement (Some (tcp_id tcp))) sh)) (tcp_xmit env tcp sh))"

section \<open>The list of connections\<close>

text \<open>The identities of the connections on the list, the connections, and what they share.\<close>

record 's tcp_system =
  tcp_conns :: "nat list"
  tcp_conn :: "nat \<Rightarrow> tcp_connection"
  tcp_sh :: "'s tcp_shared"

text \<open>A connection after an operation; one that was deleted is off the list.\<close>

definition put_conn :: "nat \<Rightarrow> tcp_connection \<times> 's tcp_shared \<Rightarrow> 's tcp_system \<Rightarrow> 's tcp_system" where
  "put_conn i r sys =
     sys\<lparr>tcp_conn := (tcp_conn sys)(i := fst r), tcp_sh := snd r, tcp_conns := (if on_list (fst r) then tcp_conns sys else filter (\<lambda>j. j \<noteq> i) (tcp_conns sys))\<rparr>"

definition tcp_demux :: "'s tcp_system \<Rightarrow> u32 \<Rightarrow> nat option" where
  "tcp_demux sys port = find (\<lambda>i. local_port (tcp_conn sys i) = port) (tcp_conns sys)"

definition tcp_port_available :: "'s tcp_system \<Rightarrow> u16 \<Rightarrow> u16 result" where
  "tcp_port_available sys port = (if tcp_demux sys (ucast port) \<noteq> None then Inl EADDRINUSE else Inr port)"

definition new_timer :: "nat \<Rightarrow> retry_timer" where
  "new_timer i = \<lparr>running = False, timeout = 0, min_ticks = 0, max_ticks = 0, start = 0, count = 0, refcnt = Some i\<rparr>"

definition new_connection :: "nat \<Rightarrow> u32 \<Rightarrow> sockaddr_tcpip \<Rightarrow> tcp_connection" where
  "new_connection i random peer =
     \<lparr>tcp_id = i, on_list = False, tcp_flags = 0, tcp_peer = peer, local_port = 0, tcp_mss = 0, tcp_state = TCP_STATE_SENT TCP_SYN,
      snd_seq = random, snd_sent = 0, snd_win = 0, rcv_ack = 0, rcv_win = 0, ts_val = 0, ts_recent = 0, snd_win_scale = 0, rcv_win_scale = 0,
      tcp_sacks = replicate TCP_SACK_MAX (0, 0), tx_queue = [], rx_queue = [], process_running = False, pending_flags = 0, pending_data = 0\<rparr>"

definition tcp_open ::
  "'s tcp_env \<Rightarrow> nat option \<Rightarrow> u32 \<Rightarrow> u32 \<Rightarrow> sockaddr_tcpip \<Rightarrow> sockaddr_tcpip option \<Rightarrow> 's tcp_system \<Rightarrow> 's tcp_system \<times> unit result" where
  "tcp_open env new random random_port peer local sys =
     (case new of
        None \<Rightarrow> (sys, Inl ENOMEM)
      | Some i \<Rightarrow>
          let tcp = new_connection i random peer;
              sh = tcp_sh sys;
              mtu = tcpip_mtu (te_mtu env) (te_nets env) (tcp_peer tcp) (sh_net sh)
          in if mtu = 0 then (sys, Inl ENETUNREACH)
             else
               case tcpip_bind random_port local (tcp_port_available sys) of
                 Inl rc \<Rightarrow> (sys, Inl rc)
               | Inr port \<Rightarrow>
                   let tcp = tcp\<lparr>tcp_mss := mtu - of_nat sizeof_tcphdr, local_port := ucast port\<rparr>;
                       sh = on_counts (\<lambda>c. c(i := 0)) sh;
                       sh = on_retry (update_timer (tcp_timer tcp) (\<lambda>_. new_timer i) \<circ> update_timer (tcp_keepalive tcp) (\<lambda>_. new_timer i)
                              \<circ> update_timer (tcp_wait tcp) (\<lambda>_. new_timer i)) sh;
                       sh = on_retry (start_timer_nodelay (te_now env) (tcp_timer tcp)) sh;
                       (n, sh) = pending_get (pending_flags tcp) sh
                   in (sys\<lparr>tcp_conn := (tcp_conn sys)(i := tcp\<lparr>pending_flags := n, on_list := True\<rparr>), tcp_sh := sh, tcp_conns := i # tcp_conns sys\<rparr>, Inr ()))"

definition count_segment :: "nat \<Rightarrow> 's tcp_shared \<Rightarrow> 's tcp_shared" where
  "count_segment len sh =
     sh\<lparr>sh_stats := (sh_stats sh)\<lparr>in_segs := in_segs (sh_stats sh) + 1, in_octets := in_octets (sh_stats sh) + of_nat len\<rparr>\<rparr>"

text \<open>The checks of a packet, and what is parsed from it.\<close>

definition tcp_parse :: "u64 \<Rightarrow> bytes \<Rightarrow> u16 \<Rightarrow> tcp_segment result" where
  "tcp_parse addr packet pshdr_csum =
     (if length packet < sizeof_tcphdr then Inl EINVAL
      else
        let tcphdr = get_tcphdr packet;
            hlen = unat (th_hlen tcphdr AND TCP_MASK_HLEN) div 16 * 4
        in if hlen < sizeof_tcphdr then Inl EINVAL
           else if hlen > length packet then Inl EINVAL
           else if tcpip_continue_chksum pshdr_csum addr packet \<noteq> 0 then Inl EINVAL
           else case tcp_rx_opts packet hlen of
             Inl rc \<Rightarrow> Inl rc
           | Inr options \<Rightarrow> Inr \<lparr>sg_header = tcphdr, sg_options = options, sg_data = drop hlen packet\<rparr>)"

definition tcp_rx :: "'s tcp_env \<Rightarrow> bytes \<Rightarrow> sockaddr_tcpip \<Rightarrow> u16 \<Rightarrow> 's tcp_system \<Rightarrow> ('s tcp_system \<times> unit result) option" where
  "tcp_rx env packet st_src pshdr_csum sys =
     (case tcp_parse (te_addr env) packet pshdr_csum of
        Inl rc \<Rightarrow> Some (sys, Inl rc)
      | Inr sg \<Rightarrow>
          let sh = count_segment (length (sg_data sg)) (tcp_sh sys)
          in case tcp_demux sys (ucast (ntohs (th_dest (sg_header sg)))) of
               None \<Rightarrow> Some (sys\<lparr>tcp_sh := sh\<rparr>, Inl ENOTCONN)
             | Some i \<Rightarrow> do {
                 let tcp = tcp_conn sys i;
                 let tcp = (case opt_tsopt (sg_options sg) of None \<Rightarrow> tcp | Some tsval \<Rightarrow> tcp\<lparr>ts_val := ntohl tsval\<rparr>);
                 (tcp, sh, r) \<leftarrow> tcp_rx_segment env st_src sg tcp sh;
                 Some (put_conn i (tcp, sh) sys, r)
               })"

text \<open>The discarder: one packet of each connection that has queued some; how many were dropped.\<close>

fun discard_all :: "nat list \<Rightarrow> 's tcp_system \<Rightarrow> 's tcp_system \<times> nat" where
  "discard_all [] sys = (sys, 0)"
| "discard_all (i # is) sys =
     (case discard_all is (put_conn i (tcp_discard_one (tcp_conn sys i) (tcp_sh sys)) sys) of
        (sys', n) \<Rightarrow> (sys', n + (if rx_queue (tcp_conn sys i) = [] then 0 else 1)))"

definition tcp_discard :: "'s tcp_system \<Rightarrow> 's tcp_system \<times> nat" where
  "tcp_discard sys = discard_all (tcp_conns sys) sys"

definition tcp_first_unclosed :: "'s tcp_system \<Rightarrow> nat option" where
  "tcp_first_unclosed sys = find (\<lambda>i. \<not> has (tcp_flags (tcp_conn sys i)) TCP_XFER_CLOSED) (tcp_conns sys)"

definition tcp_first_unfinished :: "'s tcp_system \<Rightarrow> nat option" where
  "tcp_first_unfinished sys =
     find (\<lambda>i. \<not> TCP_CLOSED_GRACEFULLY (tcp_state (tcp_conn sys i)) \<or> process_running (tcp_conn sys i)) (tcp_conns sys)"

text \<open>
  The loops of the shutdown. Between them the scheduler steps other processes until every
  connection has finished or a second has passed; what that does to the system is an argument.
\<close>

partial_function (option) tcp_close_all :: "'s tcp_env \<Rightarrow> 's tcp_system \<Rightarrow> 's tcp_system option" where
  "tcp_close_all env sys =
     (case tcp_first_unclosed sys of
        None \<Rightarrow> Some sys
      | Some i \<Rightarrow> tcp_close_all env (put_conn i (tcp_close env (tcp_conn sys i) (Some ECANCELED) (tcp_sh sys)) sys))"

partial_function (option) tcp_abort_all :: "'s tcp_env \<Rightarrow> 's tcp_system \<Rightarrow> 's tcp_system option" where
  "tcp_abort_all env sys =
     (case tcp_conns sys of
        [] \<Rightarrow> Some sys
      | i # _ \<Rightarrow> tcp_abort_all env (put_conn i (tcp_close env ((tcp_conn sys i)\<lparr>tcp_state := TCP_CLOSED\<rparr>) (Some ECANCELED) (tcp_sh sys)) sys))"

definition tcp_shutdown ::
  "'s tcp_env \<Rightarrow> ('s tcp_system \<Rightarrow> 's tcp_system) \<Rightarrow> 's tcp_system \<Rightarrow> 's tcp_system option" where
  "tcp_shutdown env wait sys = tcp_close_all env sys \<bind> (\<lambda>sys. tcp_abort_all env (wait sys))"

end
