(* ===== verification/TcpStream.thy ===== *)
theory TcpStream
  imports TcpRx "HOL-Library.Sublist"
begin

text \<open>
  What the application reads from a TCP connection is the peer's stream. The peer has a stream
  of bytes and an initial sequence number; the network may lose, duplicate, delay and reorder the
  packets it sends, and the connection may lose queued packets to memory pressure. Whatever
  arrives, the application reads the stream from its start, in order, each byte once, and is told
  of its end only after all of it.
\<close>

section \<open>Positions in a stream\<close>

definition seq_at :: "u32 \<Rightarrow> nat \<Rightarrow> u32" where
  "seq_at irs p = irs + 1 + of_nat p"

lemma seq_at_add: "seq_at irs p + of_nat n = seq_at irs (p + n)"
  by (simp add: seq_at_def)

lemma seq_at_diff: "q \<le> p \<Longrightarrow> seq_at irs p - seq_at irs q = of_nat (p - q)"
  by (simp add: seq_at_def of_nat_diff)

lemma cmp_seq_at:
  assumes "\<bar>int p - int q\<bar> < 2 ^ 31"
  shows "tcp_cmp (seq_at irs p) (seq_at irs q) = int p - int q"
proof -
  have "seq_at irs p - seq_at irs q = of_int (int p - int q)" by (simp add: seq_at_def)
  then show ?thesis using assms by (simp add: tcp_cmp_def sint_sbintrunc' signed_take_bit_int_eq_self del: of_int_diff of_int_of_nat_eq)
qed

lemma unat_seq_diff: "q \<le> p \<Longrightarrow> p - q < 2 ^ 32 \<Longrightarrow> unat (seq_at irs p - seq_at irs q) = p - q"
  by (simp add: seq_at_diff unat_of_nat del: of_nat_diff)

lemma of_nat_u32_ne_0: "0 < n \<Longrightarrow> n < 2 ^ 32 \<Longrightarrow> of_nat n \<noteq> (0 :: u32)"
proof
  assume n: "0 < n" "n < 2 ^ 32" and z: "of_nat n = (0 :: u32)"
  have "unat (of_nat n :: u32) = n" using n by (simp add: unat_of_nat)
  then show False using n z by simp
qed

text \<open>A queued packet holds the bytes of the stream from a position on, and its end if that follows them.\<close>

definition q_ok :: "u32 \<Rightarrow> bytes \<Rightarrow> nat \<Rightarrow> tcp_rx_queued \<Rightarrow> bool" where
  "q_ok irs S p q \<longleftrightarrow> q_seq q = seq_at irs p \<and> q_data q = take (length (q_data q)) (drop p S) \<and> length (q_data q) < 2 ^ 16
     \<and> (has (q_flags q) TCP_FIN \<longrightarrow> p + length (q_data q) = length S)"

text \<open>The queue is sorted, and near the position up to which the stream was received.\<close>

definition queue_ok :: "u32 \<Rightarrow> bytes \<Rightarrow> nat \<Rightarrow> nat \<Rightarrow> tcp_rx_queued list \<Rightarrow> bool" where
  "queue_ok irs S lo hi qs \<longleftrightarrow> (\<exists>ps. sorted ps \<and> list_all2 (q_ok irs S) ps qs \<and> (\<forall>p \<in> set ps. lo \<le> p \<and> p < hi))"

lemma queue_ok_Nil [simp]: "queue_ok irs S lo hi []"
  by (auto simp: queue_ok_def)

lemma queue_ok_take: "queue_ok irs S lo hi qs \<Longrightarrow> queue_ok irs S lo hi (take n qs)"
  unfolding queue_ok_def by (metis in_set_takeD list_all2_takeI sorted_wrt_take)

lemma queue_ok_mono: "queue_ok irs S lo hi qs \<Longrightarrow> lo' \<le> lo \<Longrightarrow> hi \<le> hi' \<Longrightarrow> queue_ok irs S lo' hi' qs"
  unfolding queue_ok_def by (meson order_less_le_trans order_trans)

lemma queue_ok_Cons: "queue_ok irs S lo hi (q # qs) \<longleftrightarrow> (\<exists>p. q_ok irs S p q \<and> lo \<le> p \<and> p < hi \<and> queue_ok irs S p hi qs)"
proof
  assume "queue_ok irs S lo hi (q # qs)"
  then obtain ps where ps: "sorted ps" "list_all2 (q_ok irs S) ps (q # qs)" "\<forall>p \<in> set ps. lo \<le> p \<and> p < hi" unfolding queue_ok_def by blast
  then obtain p ps' where "ps = p # ps'" by (auto simp: list_all2_Cons2)
  with ps show "\<exists>p. q_ok irs S p q \<and> lo \<le> p \<and> p < hi \<and> queue_ok irs S p hi qs" unfolding queue_ok_def by auto
next
  assume "\<exists>p. q_ok irs S p q \<and> lo \<le> p \<and> p < hi \<and> queue_ok irs S p hi qs"
  then obtain p ps where p: "q_ok irs S p q" "lo \<le> p" "p < hi" "sorted ps" "list_all2 (q_ok irs S) ps qs" "\<forall>p' \<in> set ps. p \<le> p' \<and> p' < hi"
    unfolding queue_ok_def by blast
  then show "queue_ok irs S lo hi (q # qs)" unfolding queue_ok_def by (intro exI [of _ "p # ps"]) auto
qed

lemma rx_insert_ok:
  assumes "queue_ok irs S lo hi qs" and "q_ok irs S p q" and "lo \<le> p" and "p < hi" and "hi \<le> lo + 2 ^ 31"
  shows "queue_ok irs S lo hi (fst (rx_insert q gap qs))"
  using assms
proof (induction q gap qs arbitrary: lo rule: rx_insert.induct)
  case (1 q gap)
  then show ?case by (auto simp: queue_ok_Cons)
next
  case (2 q gap q' qs)
  then obtain p' where p': "q_ok irs S p' q'" "lo \<le> p'" "p' < hi" "queue_ok irs S p' hi qs" by (auto simp: queue_ok_Cons)
  have c: "tcp_cmp (q_seq q) (q_seq q') = int p - int p'"
    using 2(3,4,5,6) p' by (simp add: q_ok_def cmp_seq_at)
  show ?case
  proof (cases "p < p'")
    case True
    then have "rx_insert q gap (q' # qs) = (q # q' # qs, gap)" using c by simp
    moreover have "queue_ok irs S p hi (q' # qs)" using True p' by (auto simp: queue_ok_Cons)
    ultimately show ?thesis using 2(3,4,5) by (simp add: queue_ok_Cons [of irs S lo]) blast
  next
    case False
    then have "queue_ok irs S p' hi (fst (rx_insert q (q_nxt q') qs))" using 2(3,5,6) p' c by (intro 2(1)) auto
    then show ?thesis using c False p' by (auto simp: queue_ok_Cons split: prod.splits intro!: exI [of _ p'])
  qed
qed

section \<open>Processing the queue\<close>

text \<open>
  The stream was received up to a position: that is what is acknowledged, and what the application
  has read unless it has closed the connection, when it may have read less. The position is after
  the end of the stream when the peer's FIN was received.
\<close>

definition rx_inv :: "u32 \<Rightarrow> bytes \<Rightarrow> bool \<Rightarrow> nat \<Rightarrow> tcp_connection \<Rightarrow> tcp_event list \<Rightarrow> bool" where
  "rx_inv irs S ac cur tcp es \<longleftrightarrow> on_list tcp \<and> bit (tcp_state tcp) 17 \<and> rcv_ack tcp = seq_at irs cur \<and> cur \<le> length S + 1
     \<and> rcv_win tcp \<le> TCP_MAX_WINDOW_SIZE \<and> (bit (tcp_state tcp) 16 \<longleftrightarrow> cur = length S + 1)
     \<and> prefix (delivered (tcp_id tcp) es) (take cur S)
     \<and> (\<not> has (tcp_flags tcp) TCP_XFER_CLOSED \<longrightarrow> delivered (tcp_id tcp) es = take cur S)
     \<and> (\<not> ac \<and> has (tcp_flags tcp) TCP_XFER_CLOSED \<longrightarrow> delivered (tcp_id tcp) es = S)"

text \<open>The application closes only if it may.\<close>

definition no_close :: "app_call list \<Rightarrow> bool" where
  "no_close calls \<longleftrightarrow> (\<forall>rc. App_close rc \<notin> set calls)"

definition app_ok :: "bool \<Rightarrow> 's tcp_env \<Rightarrow> bool" where
  "app_ok ac env \<longleftrightarrow> ac \<or> (\<forall>d. no_close (te_reaction env d))"

lemma xmit_frame_closed: "xmit_frame tcp tcp' \<Longrightarrow> has (tcp_flags tcp') TCP_XFER_CLOSED \<longleftrightarrow> has (tcp_flags tcp) TCP_XFER_CLOSED"
  unfolding xmit_frame_def by (auto simp: tcp_bits bit_simps TCP_ACK_PENDING_def)

lemma xfer_deliver_closed:
  "tcp_xfer_deliver env tcp iobuf sh = Some (tcp', sh') \<Longrightarrow> has (tcp_flags tcp') TCP_XFER_CLOSED \<longleftrightarrow> has (tcp_flags tcp) TCP_XFER_CLOSED"
  by (auto simp: tcp_xfer_deliver_def tcp_xmit_def split: prod.splits dest!: xmit_frame_closed [OF xmit_frame_xmit_sack])

lemma app_calls_closed:
  "app_calls env calls tcp sh = Some (tcp', sh') \<Longrightarrow> no_close calls \<Longrightarrow> has (tcp_flags tcp') TCP_XFER_CLOSED \<longleftrightarrow> has (tcp_flags tcp) TCP_XFER_CLOSED"
proof (induction env calls tcp sh rule: app_calls.induct)
  case (3 env iobuf calls tcp sh)
  then show ?case
    using xfer_deliver_closed [of env tcp iobuf sh] by (fastforce simp: no_close_def bind_eq_Some_conv split: if_splits)
next
  case (4 env calls tcp sh)
  then show ?case
    using xmit_frame_closed [OF xmit_frame_discard, of tcp sh] by (auto simp: no_close_def split: prod.splits)
qed (auto simp: no_close_def)

lemma rx_inv_frame:
  assumes "rx_inv irs S ac cur tcp es" and "rx_frame tcp tcp'" and "delivered (tcp_id tcp) es' = delivered (tcp_id tcp) es"
    and "ac \<or> has (tcp_flags tcp') TCP_XFER_CLOSED \<longrightarrow> ac \<or> has (tcp_flags tcp) TCP_XFER_CLOSED"
  shows "rx_inv irs S ac cur tcp' es'"
  using assms unfolding rx_inv_def rx_frame_def by (auto simp: max_def split: if_splits)

lemma q_ok_length: "q_ok irs S p q \<Longrightarrow> q_data q \<noteq> [] \<Longrightarrow> p + length (q_data q) \<le> length S"
proof -
  assume q: "q_ok irs S p q" and ne: "q_data q \<noteq> []"
  have "length (q_data q) = length (take (length (q_data q)) (drop p S))" using q unfolding q_ok_def by metis
  then have "length (q_data q) \<le> length S - p" by simp
  then show ?thesis using ne by (cases "length (q_data q)") auto
qed

lemma rx_deliver_ok:
  assumes inv: "rx_inv irs S ac cur tcp (sh_log sh)" and app: "app_ok ac env" and n: "cur + n \<le> length S" "n < 2 ^ 16"
    and r: "xfer_deliver_iob env (tcp_rx_seq tcp (of_nat n)) (take n (drop cur S)) sh' = Some (tcp', sh'')" and l: "sh_log sh' = sh_log sh"
  shows "rx_inv irs S ac (cur + n) tcp' (sh_log sh'')" and "\<exists>k. rx_queue tcp' = take k (rx_queue tcp)"
proof -
  note k = xfer_deliver_iob_keeps [OF r]
  let ?t = "tcp_rx_seq tcp (of_nat n)" and ?d = "take n (drop cur S)"
  have d: "take (cur + n) S = take cur S @ ?d" by (rule take_add)
  have w: "(if rcv_win tcp > of_nat n then rcv_win tcp - of_nat n else 0) \<le> TCP_MAX_WINDOW_SIZE"
    using inv unfolding rx_inv_def by (auto intro: order_trans [OF word_sub_le [OF less_imp_le]])
  have a: "has (tcp_flags ?t) TCP_XFER_CLOSED \<longleftrightarrow> has (tcp_flags tcp) TCP_XFER_CLOSED"
    by (simp add: tcp_bits TCP_ACK_PENDING_def bit_simps)
  have c: "ac \<or> (has (tcp_flags tcp') TCP_XFER_CLOSED \<longleftrightarrow> has (tcp_flags tcp) TCP_XFER_CLOSED)"
    using app app_calls_closed [of env "te_reaction env ?d" ?t "log_event (Deliver (tcp_id ?t) ?d) sh'" tcp' sh''] r a
    by (auto simp: xfer_deliver_iob_def app_ok_def split: if_splits)
  have cl: "has (tcp_flags tcp) TCP_XFER_CLOSED \<Longrightarrow> has (tcp_flags tcp') TCP_XFER_CLOSED"
    using k(1) a unfolding rx_frame_def by blast
  have "delivered (tcp_id tcp) (sh_log sh'') = delivered (tcp_id tcp) (sh_log sh) @ (if has (tcp_flags tcp) TCP_XFER_CLOSED then [] else ?d)"
    using k(2) a l by simp
  moreover have "cur \<le> length S" "\<not> bit (tcp_state tcp) 16" using inv n unfolding rx_inv_def by auto
  moreover have "tcp_id tcp' = tcp_id tcp" "rcv_ack tcp' = seq_at irs (cur + n)" "on_list tcp'" "bit (tcp_state tcp') 17" "\<not> bit (tcp_state tcp') 16"
    using k(1) inv \<open>\<not> bit (tcp_state tcp) 16\<close> unfolding rx_frame_def rx_inv_def by (auto simp: seq_at_add)
  moreover have "rcv_win tcp' \<le> TCP_MAX_WINDOW_SIZE" using k(1) w unfolding rx_frame_def by (auto simp: max_def split: if_splits)
  moreover have "prefix (delivered (tcp_id tcp) (sh_log sh)) (take cur S)"
    "has (tcp_flags tcp) TCP_XFER_CLOSED \<or> delivered (tcp_id tcp) (sh_log sh) = take cur S"
    "ac \<or> \<not> has (tcp_flags tcp) TCP_XFER_CLOSED \<or> delivered (tcp_id tcp) (sh_log sh) = S"
    using inv unfolding rx_inv_def by auto
  ultimately show "rx_inv irs S ac (cur + n) tcp' (sh_log sh'')"
    using c cl n unfolding rx_inv_def d by (cases "has (tcp_flags tcp) TCP_XFER_CLOSED") (simp_all add: prefix_prefix, blast+)
  show "\<exists>k. rx_queue tcp' = take k (rx_queue tcp)" using k(1) by (auto simp: rx_frame_def)
qed

lemma rx_data_ok:
  assumes inv: "rx_inv irs S ac cur tcp (sh_log sh)" and q: "q_ok irs S p q" and p: "p \<le> cur" "cur \<le> p + 2 ^ 16" and app: "app_ok ac env"
    and r: "tcp_rx_data env tcp (q_seq q) (q_data q) sh = Some (tcp', sh')"
  shows "rx_inv irs S ac (max cur (p + length (q_data q))) tcp' (sh_log sh')" and "\<exists>n. rx_queue tcp' = take n (rx_queue tcp)"
proof -
  define L where "L = length (q_data q)"
  have L: "L < 2 ^ 16" using q by (simp add: q_ok_def L_def)
  have a: "rcv_ack tcp - q_seq q = of_nat (cur - p)" using inv q p by (simp add: rx_inv_def q_ok_def seq_at_diff)
  have ge: "of_nat (cur - p) \<ge> (of_nat L :: u32) \<longleftrightarrow> p + L \<le> cur"
    using L p by (simp add: word_le_nat_alt unat_of_nat del: of_nat_diff) linarith
  have "rx_inv irs S ac (max cur (p + L)) tcp' (sh_log sh') \<and> (\<exists>n. rx_queue tcp' = take n (rx_queue tcp))"
  proof (cases "p + L \<le> cur")
    case True
    then have "tcp' = tcp" "sh' = sh" using r by (simp_all add: tcp_rx_data_def a ge L_def [symmetric] del: of_nat_diff)
    then show ?thesis using inv True by (auto simp: max_def intro: exI [of _ "length (rx_queue tcp)"])
  next
    case False
    define n where "n = p + L - cur"
    then have "cur + n = p + L" using False by simp
    moreover have "q_data q \<noteq> []" using False p by (auto simp: L_def)
    ultimately have n: "cur + n \<le> length S" "n < 2 ^ 16" using q_ok_length [OF q] L p n_def by (auto simp: L_def)
    have "q_data q = take L (drop p S)" using q by (simp add: q_ok_def L_def)
    then have d: "drop (unat (of_nat (cur - p) :: u32)) (q_data q) = take n (drop cur S)"
    proof -
      have "unat (of_nat (cur - p) :: u32) = cur - p" using p by (simp add: unat_of_nat del: of_nat_diff)
      moreover have "L - (cur - p) = n" "cur - p + p = cur" using p False by (auto simp: n_def)
      ultimately show ?thesis using \<open>q_data q = take L (drop p S)\<close> by (simp add: drop_take)
    qed
    have m: "(of_nat L :: u32) - of_nat (cur - p) = of_nat n" using p False by (simp add: n_def of_nat_diff)
    have "xfer_deliver_iob env (tcp_rx_seq tcp (of_nat n)) (take n (drop cur S))
        (sh\<lparr>sh_stats := (sh_stats sh)\<lparr>in_octets_good := in_octets_good (sh_stats sh) + ucast (of_nat n :: u32)\<rparr>\<rparr>) = Some (tcp', sh')"
      using r False by (simp add: tcp_rx_data_def a ge L_def [symmetric] d m Let_def del: of_nat_diff)
    from rx_deliver_ok [OF inv app n this] show ?thesis using \<open>cur + n = p + L\<close> False by simp
  qed
  then show "rx_inv irs S ac (max cur (p + length (q_data q))) tcp' (sh_log sh')" "\<exists>n. rx_queue tcp' = take n (rx_queue tcp)"
    by (simp_all add: L_def)
qed

lemma close_closed: "has (tcp_flags (fst (tcp_close env tcp rc sh))) TCP_XFER_CLOSED"
proof -
  obtain tcp' sh' where c: "tcp_close env tcp rc sh = (tcp', sh')" by (metis surj_pair)
  have o: "has (a OR TCP_XFER_CLOSED) TCP_XFER_CLOSED" for a by (simp add: has_def [of TCP_XFER_CLOSED]) (simp add: TCP_XFER_CLOSED_def)
  from c show ?thesis by (cases rule: close_cases) (use c o in \<open>auto dest: close_ack_keeps\<close>)
qed

lemma rx_fin_ok:
  assumes inv: "rx_inv irs S ac cur tcp (sh_log sh)" and cur: "length S \<le> cur" and r: "tcp_rx_fin env tcp (seq_at irs (length S)) sh = (tcp', sh')"
  shows "rx_inv irs S ac (length S + 1) tcp' (sh_log sh')" and "\<exists>n. rx_queue tcp' = take n (rx_queue tcp)"
proof -
  have ack: "rcv_ack tcp = seq_at irs cur" and le: "cur \<le> length S + 1" using inv by (simp_all add: rx_inv_def)
  have "rx_inv irs S ac (length S + 1) tcp' (sh_log sh') \<and> (\<exists>n. rx_queue tcp' = take n (rx_queue tcp))"
  proof (cases "cur = length S")
    case False
    then have "cur = length S + 1" using cur le by simp
    then have "tcp' = tcp" "sh' = sh" using r ack by (simp_all add: tcp_rx_fin_def seq_at_def)
    then show ?thesis using inv \<open>cur = length S + 1\<close> by (auto intro: exI [of _ "length (rx_queue tcp)"])
  next
    case True
    define t where "t = (tcp_rx_seq tcp 1)\<lparr>tcp_state := tcp_state (tcp_rx_seq tcp 1) OR TCP_STATE_RCVD TCP_FIN\<rparr>"
    have c: "tcp_close env t None sh = (tcp', sh')" using r ack True by (simp add: tcp_rx_fin_def t_def Let_def)
    have f: "rx_frame t tcp'" "delivered (tcp_id tcp) (sh_log sh') = delivered (tcp_id tcp) (sh_log sh)"
      using quiet_close [of "tcp_id tcp" t sh env None] c by (simp_all add: quiet_def)
    have "has (tcp_flags tcp') TCP_XFER_CLOSED" using close_closed [of env t None sh] c by simp
    moreover have "bit (tcp_state t) 17" "bit (tcp_state t) 16" "on_list t" "rcv_ack t = seq_at irs (length S + 1)" "tcp_id t = tcp_id tcp"
      using inv True by (simp_all add: t_def rx_inv_def seq_at_def TCP_STATE_RCVD_def TCP_FIN_def bit_simps)
    moreover have "rcv_win t \<le> TCP_MAX_WINDOW_SIZE"
      using inv by (auto simp: t_def rx_inv_def intro: order_trans [OF word_sub_le [OF less_imp_le]])
    ultimately have "rx_inv irs S ac (length S + 1) tcp' (sh_log sh')"
      using f inv True unfolding rx_inv_def rx_frame_def by (auto simp: max_def split: if_splits)
    moreover have "rx_queue t = rx_queue tcp" by (simp add: t_def)
    ultimately show ?thesis using f(1) by (auto simp: rx_frame_def)
  qed
  then show "rx_inv irs S ac (length S + 1) tcp' (sh_log sh')" "\<exists>n. rx_queue tcp' = take n (rx_queue tcp)" by simp_all
qed

lemma process_rx_queue_ok:
  assumes "tcp_process_rx_queue env tcp sh = Some (tcp', sh')" and "rx_inv irs S ac cur tcp (sh_log sh)" and "queue_ok irs S lo hi (rx_queue tcp)"
    and "cur \<le> lo + 2 ^ 16" and "hi \<le> cur + 2 ^ 30" and "app_ok ac env"
  shows "\<exists>cur'. cur \<le> cur' \<and> cur' \<le> max cur (hi + 2 ^ 16) \<and> rx_inv irs S ac cur' tcp' (sh_log sh') \<and> queue_ok irs S (cur' + 1) hi (rx_queue tcp')
    \<and> (\<forall>q qs. rx_queue tcp = q # qs \<longrightarrow> (\<exists>p. q_ok irs S p q \<and> lo \<le> p \<and> p < hi \<and> (p \<le> cur \<longrightarrow> p + length (q_data q) \<le> cur')))"
  using assms
proof (induction env tcp sh arbitrary: cur lo rule: tcp_process_rx_queue.induct)
  case (1 env tcp sh)
  note prems = 1(2-)
  show ?case
  proof (cases "rx_queue tcp")
    case Nil
    then show ?thesis using prems by (auto simp: tcp_process_rx_queue.simps [of env tcp])
  next
    case (Cons q queue)
    then obtain p where p: "q_ok irs S p q" "lo \<le> p" "p < hi" "queue_ok irs S p hi queue" using prems(3) by (auto simp: queue_ok_Cons)
    have cmp: "tcp_cmp (q_seq q) (rcv_ack tcp) = int p - int cur"
      using prems(2,4,5) p by (simp add: rx_inv_def q_ok_def cmp_seq_at)
    show ?thesis
    proof (cases "p > cur")
      case True
      then have "tcp' = tcp" "sh' = sh" using prems(1) Cons cmp by (simp_all add: tcp_process_rx_queue.simps [of env tcp])
      moreover have "queue_ok irs S (cur + 1) hi (rx_queue tcp)" using True p Cons by (auto simp: queue_ok_Cons)
      ultimately show ?thesis using prems(2) p(1-3) True Cons by (intro exI [of _ cur]) auto
    next
      case False
      let ?t = "tcp\<lparr>rx_queue := queue\<rparr>"
      have np: "\<not> tcp_cmp (q_seq q) (rcv_ack tcp) > 0" using False cmp by simp
      obtain tcp1 sh1 where d: "tcp_rx_data env ?t (q_seq q) (q_data q) sh = Some (tcp1, sh1)"
        using prems(1) Cons np by (auto simp: tcp_process_rx_queue.simps [of env tcp] split: option.splits)
      define cur1 where "cur1 = max cur (p + length (q_data q))"
      have inv: "rx_inv irs S ac cur ?t (sh_log sh)" using prems(2) by (simp add: rx_inv_def)
      have cp: "p \<le> cur" "cur \<le> p + 2 ^ 16" using False prems(4) p(2) by auto
      note i1 = rx_data_ok [OF inv p(1) cp prems(6) d, folded cur1_def]
      obtain tcp2 sh2 where f: "(if has (q_flags q) TCP_FIN then tcp_rx_fin env tcp1 (q_seq q + of_nat (length (q_data q))) sh1 else (tcp1, sh1)) = (tcp2, sh2)"
        by (metis surj_pair)
      define cur2 where "cur2 = (if has (q_flags q) TCP_FIN then length S + 1 else cur1)"
      have fin: "has (q_flags q) TCP_FIN \<Longrightarrow> p + length (q_data q) = length S" "q_seq q + of_nat (length (q_data q)) = seq_at irs (p + length (q_data q))"
        "length (q_data q) < 2 ^ 16"
        using p(1) by (simp_all add: q_ok_def seq_at_add)
      have i2: "rx_inv irs S ac cur2 tcp2 (sh_log sh2) \<and> (\<exists>n. rx_queue tcp2 = take n (rx_queue tcp1))"
      proof (cases "has (q_flags q) TCP_FIN")
        case True
        have "length S \<le> cur1" using fin(1) [OF True] by (simp add: cur1_def)
        then show ?thesis using rx_fin_ok [OF i1(1), of env tcp2 sh2] f fin(1) [OF True] fin(2) True by (simp add: cur2_def)
      next
        case no: False
        then show ?thesis using f i1(1) by (auto simp: cur2_def intro: exI [of _ "length (rx_queue tcp1)"])
      qed
      have c2: "cur \<le> cur2" "cur2 \<le> p + 2 ^ 16" "p + length (q_data q) \<le> cur2"
        using cp fin(1,3) i1(1) by (auto simp: cur2_def cur1_def rx_inv_def)
      have q2: "queue_ok irs S p hi (rx_queue tcp2)" using i1(2) i2 p(4) by (auto intro!: queue_ok_take)
      have "tcp_process_rx_queue env tcp2 sh2 = Some (tcp', sh')"
        using prems(1) Cons np d f by (simp add: tcp_process_rx_queue.simps [of env tcp])
      then have "\<exists>cur'. cur2 \<le> cur' \<and> cur' \<le> max cur2 (hi + 2 ^ 16) \<and> rx_inv irs S ac cur' tcp' (sh_log sh') \<and> queue_ok irs S (cur' + 1) hi (rx_queue tcp')"
        using 1(1) [OF Cons np d refl f [symmetric], where cur = cur2 and lo = p] i2 q2 c2 prems(5,6) by auto
      then obtain cur' where "cur2 \<le> cur'" "cur' \<le> max cur2 (hi + 2 ^ 16)" "rx_inv irs S ac cur' tcp' (sh_log sh')" "queue_ok irs S (cur' + 1) hi (rx_queue tcp')"
        by blast
      then show ?thesis using c2 p(1-3) Cons by (intro exI [of _ cur']) auto
    qed
  qed
qed

section \<open>A received packet\<close>

text \<open>
  Between packets: the queue holds only what follows a gap. Before the peer's SYN nothing is
  queued, delivered or closed.
\<close>

definition rest_inv :: "u32 \<Rightarrow> bytes \<Rightarrow> bool \<Rightarrow> nat \<Rightarrow> tcp_connection \<Rightarrow> tcp_event list \<Rightarrow> bool" where
  "rest_inv irs S ac cur tcp es \<longleftrightarrow> prefix (delivered (tcp_id tcp) es) S \<and>
     (on_list tcp \<longrightarrow>
        (if bit (tcp_state tcp) 17 then rx_inv irs S ac cur tcp es \<and> queue_ok irs S (cur + 1) (cur + 2 ^ 21) (rx_queue tcp)
         else cur = 0 \<and> rx_queue tcp = [] \<and> delivered (tcp_id tcp) es = [] \<and> rcv_win tcp \<le> TCP_MAX_WINDOW_SIZE
           \<and> \<not> has (tcp_flags tcp) TCP_XFER_CLOSED \<and> \<not> bit (tcp_state tcp) 16))"

text \<open>A packet that the peer sent: bytes of its stream from a position not too far from what was received.\<close>

definition genuine :: "u32 \<Rightarrow> bytes \<Rightarrow> nat \<Rightarrow> nat \<Rightarrow> tcp_segment \<Rightarrow> bool" where
  "genuine irs S cur p sg \<longleftrightarrow>
     (let fl = ucast (th_flags (sg_header sg)); seq = ntohl (th_seq (sg_header sg))
      in sg_data sg = take (length (sg_data sg)) (drop p S) \<and> length (sg_data sg) < 2 ^ 16
         \<and> (has fl TCP_FIN \<longrightarrow> p + length (sg_data sg) = length S)
         \<and> (if has fl TCP_SYN then seq = irs \<and> p = 0 else seq = seq_at irs p)
         \<and> cur < p + 2 ^ 30 \<and> p < cur + 2 ^ 30)"

lemma rest_inv_prefix: "rx_inv irs S ac cur tcp es \<Longrightarrow> prefix (delivered (tcp_id tcp) es) S"
  unfolding rx_inv_def using prefix_order.trans take_is_prefix by blast

lemma rest_inv_frame:
  assumes "rest_inv irs S ac cur tcp es" and f: "rx_frame tcp tcp'" and d: "delivered (tcp_id tcp) es' = delivered (tcp_id tcp) es"
    and c: "on_list tcp' \<and> \<not> ac \<and> has (tcp_flags tcp') TCP_XFER_CLOSED \<longrightarrow> has (tcp_flags tcp) TCP_XFER_CLOSED"
    and c2: "on_list tcp' \<and> \<not> bit (tcp_state tcp) 17 \<and> has (tcp_flags tcp') TCP_XFER_CLOSED \<longrightarrow> has (tcp_flags tcp) TCP_XFER_CLOSED"
  shows "rest_inv irs S ac cur tcp' es'"
proof (cases "on_list tcp'")
  case False
  have "tcp_id tcp' = tcp_id tcp" using f unfolding rx_frame_def by simp
  then show ?thesis using False assms(1) d unfolding rest_inv_def by simp
next
  case True
  then have l: "on_list tcp" "bit (tcp_state tcp') 17 = bit (tcp_state tcp) 17" "tcp_id tcp' = tcp_id tcp" "bit (tcp_state tcp') 16 = bit (tcp_state tcp) 16"
    using f unfolding rx_frame_def by auto
  obtain n where n: "rx_queue tcp' = take n (rx_queue tcp)" using f unfolding rx_frame_def by auto
  show ?thesis
  proof (cases "bit (tcp_state tcp) 17")
    case b: True
    then have "rx_inv irs S ac cur tcp' es'" using rx_inv_frame [OF _ f d] assms(1) l(1) c True by (auto simp: rest_inv_def)
    moreover have "queue_ok irs S (cur + 1) (cur + 2 ^ 21) (rx_queue tcp')" using assms(1) l(1) b unfolding rest_inv_def n by (auto intro: queue_ok_take)
    ultimately show ?thesis using b l rest_inv_prefix [of irs S ac cur tcp' es'] unfolding rest_inv_def by simp
  next
    case b: False
    have "rcv_win tcp' \<le> TCP_MAX_WINDOW_SIZE" using f assms(1) b l(1) unfolding rest_inv_def rx_frame_def by (auto simp: max_def split: if_splits)
    then show ?thesis using b l n d c2 True assms(1) unfolding rest_inv_def by auto
  qed
qed

lemma rest_inv_xmit:
  assumes "rest_inv irs S ac cur tcp (sh_log sh)" and "tcp_xmit_sack env seq tcp sh = Some (tcp', sh')"
  shows "rest_inv irs S ac cur tcp' (sh_log sh')"
  using rest_inv_frame [OF assms(1) rx_frame_xmit [OF xmit_frame_xmit_sack [OF assms(2)]]] quiet_xmit_sack [OF assms(2), of "tcp_id tcp"]
    xmit_frame_closed [OF xmit_frame_xmit_sack [OF assms(2)]]
  by (auto simp: quiet_def)

lemma rx_enqueue_ok:
  assumes inv: "rest_inv irs S ac cur tcp (sh_log sh)" and l: "on_list tcp" and b: "bit (tcp_state tcp) 17"
    and d: "iobuf = take (length iobuf) (drop p S)" "length iobuf < 2 ^ 16" "has fl TCP_FIN \<longrightarrow> p + length iobuf = length S"
    and p: "cur < p + 2 ^ 30" "p < cur + 2 ^ 30"
    and r: "tcp_rx_enqueue tcp (seq_at irs p) fl iobuf sh = (tcp', sh')"
  shows "rx_inv irs S ac cur tcp' (sh_log sh') \<and> queue_ok irs S (cur + 1 - 2 ^ 16) (cur + 2 ^ 21) (rx_queue tcp') \<and> tcp_flags tcp' = tcp_flags tcp"
proof -
  have ri: "rx_inv irs S ac cur tcp (sh_log sh)" and q: "queue_ok irs S (cur + 1) (cur + 2 ^ 21) (rx_queue tcp)" using inv l b by (simp_all add: rest_inv_def)
  let ?fl = "fl AND TCP_FIN" and ?n = "length iobuf + (if fl AND TCP_FIN \<noteq> 0 then 1 else 0)"
  let ?q = "\<lparr>q_seq = seq_at irs p, q_nxt = seq_at irs p + of_nat ?n, q_flags = ?fl, q_data = iobuf\<rparr>"
  have fin: "has ?fl TCP_FIN \<longleftrightarrow> has fl TCP_FIN" by (simp add: has_def and.assoc)
  have qo: "q_ok irs S p ?q" using d fin by (simp add: q_ok_def)
  obtain W where W: "W = unat (rcv_win tcp)" by simp
  have w: "W \<le> 2 ^ 21" using ri by (simp add: W rx_inv_def TCP_MAX_WINDOW_SIZE_def word_le_nat_alt)
  have ack: "rcv_ack tcp = seq_at irs cur" using ri by (simp add: rx_inv_def)
  then have "rcv_ack tcp + rcv_win tcp = seq_at irs (cur + W)" by (simp add: W seq_at_def)
  then have c1: "tcp_cmp (seq_at irs p) (rcv_ack tcp + rcv_win tcp) = int p - int (cur + W)" using p w by (simp add: cmp_seq_at)
  obtain n where n: "n = ?n" "n \<le> 2 ^ 16" using d(2) by simp
  have c2: "tcp_cmp (seq_at irs p + of_nat n) (rcv_ack tcp) = int (p + n) - int cur"
    unfolding ack seq_at_add using p n(2) by (intro cmp_seq_at) auto
  show ?thesis
  proof (cases "tcp_cmp (seq_at irs p) (rcv_ack tcp + rcv_win tcp) \<ge> 0 \<or> tcp_cmp (seq_at irs p + of_nat ?n) (rcv_ack tcp) \<le> 0 \<or> of_nat ?n = (0 :: u32)")
    case True
    then have "tcp' = tcp" "sh' = sh" using r b unfolding tcp_rx_enqueue_def Let_def by (auto simp: tcp_bits)
    then show ?thesis using ri queue_ok_mono [OF q, of "cur + 1 - 2 ^ 16" "cur + 2 ^ 21"] by simp
  next
    case False
    then have "p < cur + W" "cur < p + n" using c1 c2 unfolding n(1) [symmetric] by auto
    then have bounds: "cur + 1 - 2 ^ 16 \<le> p" "p < cur + 2 ^ 21" using w n(2) by auto
    have e: "tcp' = tcp\<lparr>rx_queue := fst (rx_insert ?q (rcv_ack tcp) (rx_queue tcp))\<rparr>" "sh_log sh' = sh_log sh"
      using r b False unfolding tcp_rx_enqueue_def Let_def by (auto simp: tcp_bits split: prod.splits if_splits)
    have "queue_ok irs S (cur + 1 - 2 ^ 16) (cur + 2 ^ 21) (fst (rx_insert ?q (rcv_ack tcp) (rx_queue tcp)))"
      using queue_ok_mono [OF q, of "cur + 1 - 2 ^ 16" "cur + 2 ^ 21"] by (intro rx_insert_ok [OF _ qo bounds]) simp_all
    then show ?thesis using ri e by (simp add: rx_inv_def)
  qed
qed

lemma rx_enqueue_first:
  assumes inv: "rest_inv irs S ac cur tcp (sh_log sh)" and l: "on_list tcp" and b: "bit (tcp_state tcp) 17"
    and d: "length iobuf < 2 ^ 16" and p: "p \<le> cur" "cur < p + length iobuf" "rcv_win tcp \<noteq> 0"
    and r: "tcp_rx_enqueue tcp (seq_at irs p) fl iobuf sh = (tcp', sh')"
  shows "\<exists>q qs. rx_queue tcp' = q # qs \<and> q_seq q = seq_at irs p \<and> q_data q = iobuf"
proof -
  have ri: "rx_inv irs S ac cur tcp (sh_log sh)" and q: "queue_ok irs S (cur + 1) (cur + 2 ^ 21) (rx_queue tcp)" using inv l b by (simp_all add: rest_inv_def)
  let ?n = "length iobuf + (if fl AND TCP_FIN \<noteq> 0 then 1 else 0)"
  let ?q = "\<lparr>q_seq = seq_at irs p, q_nxt = seq_at irs p + of_nat ?n, q_flags = fl AND TCP_FIN, q_data = iobuf\<rparr>"
  obtain W where W: "W = unat (rcv_win tcp)" by simp
  have w: "W \<le> 2 ^ 21" "0 < W" using ri p(3) by (simp_all add: W rx_inv_def TCP_MAX_WINDOW_SIZE_def word_le_nat_alt unat_gt_0)
  have ack: "rcv_ack tcp = seq_at irs cur" using ri by (simp add: rx_inv_def)
  then have "rcv_ack tcp + rcv_win tcp = seq_at irs (cur + W)" by (simp add: W seq_at_def)
  then have c1: "tcp_cmp (seq_at irs p) (rcv_ack tcp + rcv_win tcp) = int p - int (cur + W)" using p w d by (simp add: cmp_seq_at)
  obtain n where n: "n = ?n" "n \<le> 2 ^ 16" "length iobuf \<le> n" using d by simp
  have c2: "tcp_cmp (seq_at irs p + of_nat n) (rcv_ack tcp) = int (p + n) - int cur"
    unfolding ack seq_at_add using p n(2,3) d by (intro cmp_seq_at) auto
  have "of_nat n \<noteq> (0 :: u32)" using n(2,3) p by (intro of_nat_u32_ne_0) auto
  then have acc: "\<not> (tcp_cmp (seq_at irs p) (rcv_ack tcp + rcv_win tcp) \<ge> 0 \<or> tcp_cmp (seq_at irs p + of_nat ?n) (rcv_ack tcp) \<le> 0 \<or> of_nat ?n = (0 :: u32))"
    using c1 c2 p w n(3) unfolding n(1) [symmetric] by auto
  have e: "rx_queue tcp' = fst (rx_insert ?q (rcv_ack tcp) (rx_queue tcp))"
    using r b acc unfolding tcp_rx_enqueue_def Let_def by (auto simp: tcp_bits split: prod.splits if_splits)
  show ?thesis
  proof (cases "rx_queue tcp")
    case Nil
    then show ?thesis using e by simp
  next
    case (Cons q' qs)
    then obtain p' where "q_ok irs S p' q'" "cur + 1 \<le> p'" "p' < cur + 2 ^ 21" using q by (auto simp: queue_ok_Cons)
    then have "tcp_cmp (seq_at irs p) (q_seq q') < 0" using p d by (simp add: q_ok_def cmp_seq_at)
    then show ?thesis using e Cons by simp
  qed
qed

lemma rx_syn_dup:
  assumes "rest_inv irs S ac cur tcp es" and "on_list tcp" and "cur < 2 ^ 30" and "bit (tcp_state tcp) 17"
  shows "tcp_rx_syn tcp irs options = tcp"
proof -
  have "rcv_ack tcp = irs + of_nat (cur + 1)" using assms by (simp add: rest_inv_def rx_inv_def seq_at_def)
  moreover have "of_nat (cur + 1) \<noteq> (0 :: u32)" using assms(3) by (intro of_nat_u32_ne_0) auto
  ultimately show ?thesis using assms(4) by (simp add: tcp_rx_syn_def tcp_bits Let_def)
qed

lemma rx_syn_ok:
  assumes inv: "rest_inv irs S ac cur tcp es" and l: "on_list tcp" and c: "cur < 2 ^ 30"
  shows "rest_inv irs S ac cur (tcp_rx_syn tcp irs options) es" "on_list (tcp_rx_syn tcp irs options)" "bit (tcp_state (tcp_rx_syn tcp irs options)) 17"
proof -
  define t where "t = tcp_rx_syn tcp irs options"
  have "rest_inv irs S ac cur t es \<and> on_list t \<and> bit (tcp_state t) 17"
  proof (cases "bit (tcp_state tcp) 17")
    case True
    then have "t = tcp" using rx_syn_dup [OF inv l c] by (simp add: t_def)
    then show ?thesis using inv l True by simp
  next
    case False
    define t1 where "t1 = tcp\<lparr>rcv_ack := irs\<rparr>"
    define t2 where "t2 = (if opt_tsopt options \<noteq> None then t1\<lparr>tcp_flags := tcp_flags t1 OR TCP_TS_ENABLED\<rparr> else t1)"
    define t3 where "t3 = (if opt_spopt options then t2\<lparr>tcp_flags := tcp_flags t2 OR TCP_SACK_ENABLED\<rparr> else t2)"
    define t4 where "t4 = (case opt_wsopt options of None \<Rightarrow> t3 | Some scale \<Rightarrow> t3\<lparr>snd_win_scale := scale, rcv_win_scale := TCP_RX_WINDOW_SCALE\<rparr>)"
    have k: "rcv_ack t4 = irs" "tcp_id t4 = tcp_id tcp" "rcv_win t4 = rcv_win tcp" "rx_queue t4 = rx_queue tcp" "tcp_state t4 = tcp_state tcp" "on_list t4 = on_list tcp"
      by (simp_all add: t4_def t3_def t2_def t1_def split: option.split)
    have fl: "has (tcp_flags t4) TCP_XFER_CLOSED \<longleftrightarrow> has (tcp_flags tcp) TCP_XFER_CLOSED"
      by (simp add: t4_def t3_def t2_def t1_def tcp_bits TCP_TS_ENABLED_def TCP_SACK_ENABLED_def bit_simps split: option.split)
    have t: "t = (tcp_rx_seq t4 1)\<lparr>tcp_state := tcp_state t4 OR (TCP_STATE_SENT TCP_ACK OR TCP_STATE_RCVD TCP_SYN)\<rparr>"
      unfolding t_def tcp_rx_syn_def Let_def t1_def [symmetric] t2_def [symmetric] t3_def [symmetric] t4_def [symmetric] using False k by (simp add: tcp_bits)
    have n: "cur = 0" "rx_queue tcp = []" "delivered (tcp_id tcp) es = []" "rcv_win tcp \<le> TCP_MAX_WINDOW_SIZE" "\<not> has (tcp_flags tcp) TCP_XFER_CLOSED"
      "\<not> bit (tcp_state tcp) 16" using inv l False by (simp_all add: rest_inv_def)
    have w: "rcv_win t \<le> TCP_MAX_WINDOW_SIZE" using n(4) k by (auto simp: t intro: order_trans [OF word_sub_le [OF less_imp_le]])
    have b: "bit (tcp_state t) 17" "\<not> bit (tcp_state t) 16"
      using n(6) k by (simp_all add: t TCP_STATE_SENT_def TCP_ACK_def TCP_STATE_RCVD_def TCP_SYN_def bit_simps)
    have cl: "\<not> has (tcp_flags t) TCP_XFER_CLOSED" using fl n(5) by (simp add: t tcp_bits TCP_ACK_PENDING_def bit_simps)
    have r: "rcv_ack t = seq_at irs 0" "on_list t" "rx_queue t = []" "tcp_id t = tcp_id tcp" using l n(2) k by (simp_all add: t seq_at_def)
    then show ?thesis using n w b cl by (simp add: rest_inv_def rx_inv_def)
  qed
  then show "rest_inv irs S ac cur (tcp_rx_syn tcp irs options) es" "on_list (tcp_rx_syn tcp irs options)" "bit (tcp_state (tcp_rx_syn tcp irs options)) 17"
    by (simp_all add: t_def)
qed

lemma close_reset_ok:
  assumes inv: "rest_inv irs S ac cur tcp (sh_log sh)" and c: "tcp_close env (tcp\<lparr>tcp_state := TCP_CLOSED\<rparr>) rc sh = (tcp', sh')"
  shows "rest_inv irs S ac cur tcp' (sh_log sh') \<and> \<not> on_list tcp'"
  using c
proof (cases rule: close_cases)
  case (deleted n m)
  then show ?thesis using inv by (auto simp: rest_inv_def)
next
  case (closing tcp2 sh1 sh2 n p)
  then show ?thesis by (simp add: tcp_bits TCP_CLOSED_def TCP_RST_def bit_simps)
qed

lemma rest_inv_process: "rest_inv irs S ac cur tcp (sh_log sh) \<Longrightarrow> process_add tcp sh = (tcp', sh') \<Longrightarrow> rest_inv irs S ac cur tcp' (sh_log sh')"
  by (erule rest_inv_frame) (auto simp: process_add_def split: if_splits)

lemma rx_done_ok:
  assumes inv: "rest_inv irs S ac cur tcp (sh_log sh)" and r: "tcp_rx_done env w seq tcp sh = Some (tcp', sh')"
  shows "rest_inv irs S ac cur tcp' (sh_log sh') \<and> tcp_flags tcp' AND NOT TCP_ACK_PENDING = tcp_flags tcp AND NOT TCP_ACK_PENDING \<and> on_list tcp' = on_list tcp
    \<and> rcv_ack tcp' = rcv_ack tcp"
proof -
  obtain sh1 where x: "(if rx_queue tcp = [] then Some (process_add tcp sh) else tcp_xmit_sack env seq tcp sh) = Some (tcp', sh1)"
    "sh_log sh' = sh_log sh1 \<or> sh_log sh' = sh_log sh1 @ [Window_changed (tcp_id tcp')]"
    using r unfolding tcp_rx_done_def bind_eq_Some_conv Let_def by (auto split: if_splits)
  have "rest_inv irs S ac cur tcp' (sh_log sh1)"
    using x(1) rest_inv_xmit [OF inv] rest_inv_process [OF inv] by (auto split: if_splits)
  then have "rest_inv irs S ac cur tcp' (sh_log sh')" by (rule rest_inv_frame) (use x(2) in auto)
  moreover have "tcp_flags tcp' AND NOT TCP_ACK_PENDING = tcp_flags tcp AND NOT TCP_ACK_PENDING \<and> on_list tcp' = on_list tcp \<and> rcv_ack tcp' = rcv_ack tcp"
  proof (cases "rx_queue tcp = []")
    case True
    then show ?thesis using x(1) by (auto simp: process_add_def split: if_splits)
  next
    case False
    then have "xmit_frame tcp tcp'" using x(1) xmit_frame_xmit_sack by auto
    then show ?thesis unfolding xmit_frame_def by (auto simp: and.assoc)
  qed
  ultimately show ?thesis by blast
qed

lemma rx_accept_ok:
  assumes inv: "rest_inv irs S ac cur tcp (sh_log sh)" and l: "on_list tcp" and app: "app_ok ac env"
    and d: "iobuf = take (length iobuf) (drop p S)" "length iobuf < 2 ^ 16" "has fl TCP_FIN \<longrightarrow> p + length iobuf = length S"
    and p: "cur < p + 2 ^ 30" "p < cur + 2 ^ 30"
    and q: "tcp_rx_enqueue tcp (seq_at irs p) fl iobuf sh = (tcp1, sh1)" and pr: "tcp_process_rx_queue env tcp1 sh1 = Some (tcp', sh')"
  shows "\<exists>cur'. cur \<le> cur' \<and> cur' \<le> cur + 2 ^ 22 \<and> rest_inv irs S ac cur' tcp' (sh_log sh')
    \<and> (bit (tcp_state tcp) 17 \<and> rcv_win tcp \<noteq> 0 \<and> p \<le> cur \<and> cur < p + length iobuf \<longrightarrow> on_list tcp' \<and> p + length iobuf \<le> cur')"
proof (cases "bit (tcp_state tcp) 17")
  case False
  then have "tcp1 = tcp" "sh1 = sh" using q unfolding tcp_rx_enqueue_def Let_def by (auto simp: tcp_bits)
  moreover have "rx_queue tcp = []" using inv l False by (simp add: rest_inv_def)
  ultimately have "tcp' = tcp" "sh' = sh" using pr by (simp_all add: tcp_process_rx_queue.simps [of env tcp])
  then show ?thesis using inv False by auto
next
  case b: True
  note e = rx_enqueue_ok [OF inv l b d p q]
  have "cur \<le> cur + 1 - 2 ^ 16 + 2 ^ 16" "cur + 2 ^ 21 \<le> cur + 2 ^ 30" by auto
  from process_rx_queue_ok [OF pr _ _ this app] e obtain cur' where c: "cur \<le> cur'" "cur' \<le> max cur (cur + 2 ^ 21 + 2 ^ 16)"
      "rx_inv irs S ac cur' tcp' (sh_log sh')" "queue_ok irs S (cur' + 1) (cur + 2 ^ 21) (rx_queue tcp')"
      "\<And>q qs. rx_queue tcp1 = q # qs \<Longrightarrow> \<exists>p. q_ok irs S p q \<and> cur + 1 - 2 ^ 16 \<le> p \<and> p < cur + 2 ^ 21 \<and> (p \<le> cur \<longrightarrow> p + length (q_data q) \<le> cur')"
    by blast
  have t: "on_list tcp'" "bit (tcp_state tcp') 17" using c(3) by (simp_all add: rx_inv_def)
  have "queue_ok irs S (cur' + 1) (cur' + 2 ^ 21) (rx_queue tcp')" using queue_ok_mono [OF c(4)] c(1) by simp
  then have "rest_inv irs S ac cur' tcp' (sh_log sh')" using c(3) t rest_inv_prefix [OF c(3)] by (simp add: rest_inv_def)
  moreover have "p + length iobuf \<le> cur'" if w: "rcv_win tcp \<noteq> 0" and pc: "p \<le> cur" "cur < p + length iobuf"
  proof -
    obtain q0 qs where q0: "rx_queue tcp1 = q0 # qs" "q_seq q0 = seq_at irs p" "q_data q0 = iobuf"
      using rx_enqueue_first [OF inv l b d(2) pc w q] by blast
    obtain p' where p': "q_ok irs S p' q0" "cur + 1 - 2 ^ 16 \<le> p'" "p' < cur + 2 ^ 21" "p' \<le> cur \<longrightarrow> p' + length (q_data q0) \<le> cur'"
      using c(5) [OF q0(1)] by blast
    have "seq_at irs p' = seq_at irs p" using p'(1) q0(2) by (simp add: q_ok_def)
    then have "int p' - int p = 0" using cmp_seq_at [of p' p irs] p'(2,3) pc d(2) by (simp add: tcp_cmp_def)
    then show ?thesis using p'(4) pc q0(3) by simp
  qed
  ultimately show ?thesis using c(1,2) t by (intro exI [of _ cur']) auto
qed

lemma rx_body_ok:
  assumes inv: "rest_inv irs S ac cur tcp (sh_log sh)" and l: "on_list tcp" and app: "app_ok ac env"
    and d: "iobuf = take (length iobuf) (drop p S)" "length iobuf < 2 ^ 16" "has fl TCP_FIN \<longrightarrow> p + length iobuf = length S"
    and sq: "if has fl TCP_SYN then seq = irs \<and> p = 0 else seq = seq_at irs p" and p: "cur < p + 2 ^ 30" "p < cur + 2 ^ 30"
    and r: "tcp_rx_body env w seq fl options iobuf tcp sh = Some (tcp', sh', rc)"
  shows "\<exists>cur'. cur \<le> cur' \<and> cur' \<le> cur + 2 ^ 22 \<and> rest_inv irs S ac cur' tcp' (sh_log sh')
    \<and> (bit (tcp_state tcp) 17 \<and> rcv_win tcp \<noteq> 0 \<and> p \<le> cur \<and> cur < p + length iobuf \<and> rc = Inr () \<longrightarrow> on_list tcp' \<and> p + length iobuf \<le> cur')"
proof -
  define t1 where "t1 = (if has (tcp_state tcp) (TCP_STATE_RCVD TCP_SYN) \<and> seq \<noteq> rcv_ack tcp then tcp\<lparr>tcp_flags := tcp_flags tcp OR TCP_ACK_PENDING\<rparr> else tcp)"
  have t1: "rest_inv irs S ac cur t1 (sh_log sh)"
    by (rule rest_inv_frame [OF inv]) (auto simp: t1_def tcp_bits TCP_ACK_PENDING_def bit_simps)
  have k1: "on_list t1" "tcp_state t1 = tcp_state tcp" "rcv_win t1 = rcv_win tcp" using l by (simp_all add: t1_def)
  define t2 where "t2 = (if has fl TCP_SYN then tcp_rx_syn t1 seq options else t1)"
  have sq2: "(if has fl TCP_SYN then seq + 1 else seq) = seq_at irs p" using sq by (auto simp: seq_at_def split: if_splits)
  have t2: "rest_inv irs S ac cur t2 (sh_log sh)" "on_list t2"
    using rx_syn_ok [OF t1 k1(1)] t1 k1(1) sq p by (auto simp: t2_def split: if_splits)
  have k2: "bit (tcp_state tcp) 17 \<Longrightarrow> bit (tcp_state t2) 17 \<and> rcv_win t2 = rcv_win tcp"
    using rx_syn_dup [OF t1 k1(1)] k1 sq p by (auto simp: t2_def split: if_splits)
  obtain t3 sh3 r3 where r3: "(if has fl TCP_RST then tcp_rx_rst env t2 (seq_at irs p) sh else (t2, sh, Inr ())) = (t3, sh3, r3)" by (metis prod_cases3)
  have p2: "(if has fl TCP_SYN then (tcp_rx_syn t1 seq options, seq + 1) else (t1, seq)) = (t2, seq_at irs p)"
    using sq2 by (simp add: t2_def split: if_splits)
  have x: "(case r3 of Inl rc \<Rightarrow> Some (t3, sh3, Inl rc)
      | Inr _ \<Rightarrow> do {
          let (tcp, sh) = tcp_rx_enqueue t3 (seq_at irs p) fl iobuf sh3;
          (tcp, sh) \<leftarrow> tcp_process_rx_queue env tcp sh;
          (tcp, sh) \<leftarrow> tcp_rx_done env w (seq_at irs p) tcp sh;
          Some (tcp, sh, Inr ())
        }) = Some (tcp', sh', rc)"
    using r unfolding tcp_rx_body_def Let_def t1_def [symmetric] p2 prod.case r3 .
  show ?thesis
  proof (cases r3)
    case (Inl e)
    then have "tcp' = t3" "sh' = sh3" "rc = Inl e" using x by simp_all
    moreover have "rest_inv irs S ac cur t3 (sh_log sh3)"
      using r3 Inl close_reset_ok [OF t2(1), of env "Some ECONNRESET"] by (auto simp: tcp_rx_rst_def split: if_splits prod.splits)
    ultimately show ?thesis by auto
  next
    case (Inr u)
    then have e3: "t3 = t2" "sh3 = sh" using r3 by (auto simp: tcp_rx_rst_def split: if_splits prod.splits)
    obtain t4 sh4 where q: "tcp_rx_enqueue t2 (seq_at irs p) fl iobuf sh = (t4, sh4)" by (metis surj_pair)
    obtain t5 sh5 where pr: "tcp_process_rx_queue env t4 sh4 = Some (t5, sh5)" and dn: "tcp_rx_done env w (seq_at irs p) t5 sh5 = Some (tcp', sh')"
      and rc: "rc = Inr ()" using x Inr e3 q by (auto simp: bind_eq_Some_conv)
    obtain cur' where c: "cur \<le> cur'" "cur' \<le> cur + 2 ^ 22" "rest_inv irs S ac cur' t5 (sh_log sh5)"
      "bit (tcp_state t2) 17 \<and> rcv_win t2 \<noteq> 0 \<and> p \<le> cur \<and> cur < p + length iobuf \<longrightarrow> on_list t5 \<and> p + length iobuf \<le> cur'"
      using rx_accept_ok [OF t2 app d p q pr] by blast
    show ?thesis using rx_done_ok [OF c(3) dn] c k2 by (intro exI [of _ cur']) auto
  qed
qed

lemma quiet_xmit_reset:
  assumes "tcp_xmit_reset env tcp dest h sh = Some (tcp', sh', r)"
  shows "xmit_frame tcp tcp'" and "delivered i (sh_log sh') = delivered i (sh_log sh)"
proof -
  obtain t1 sh1 b where a: "tcp_alloc_iob env TCP_MAX_HEADER_LEN tcp sh = (t1, sh1, b)" by (metis prod_cases3)
  have "tcp' = t1 \<and> delivered i (sh_log sh') = delivered i (sh_log sh1)"
    using assms a unfolding tcp_xmit_reset_def by (cases b) (auto simp: bind_eq_Some_conv dest!: log_transmit)
  then show "xmit_frame tcp tcp'" "delivered i (sh_log sh') = delivered i (sh_log sh)"
    using xmit_frame_alloc [OF a] log_alloc [OF a] by simp_all
qed

lemma rx_segment_cases:
  assumes inv: "rest_inv irs S ac cur tcp (sh_log sh)" and l: "on_list tcp" and r: "tcp_rx_segment env src sg tcp sh = Some (tcp', sh', rc)"
  obtains (rejected) "rest_inv irs S ac cur tcp' (sh_log sh')" "rc \<noteq> Inr ()"
  | (body) t1 sh1 where "rest_inv irs S ac cur t1 (sh_log sh1)" "on_list t1" "bit (tcp_state t1) 17 = bit (tcp_state tcp) 17" "rcv_win t1 = rcv_win tcp"
      "tcp_rx_body env (tcp_xfer_window tcp) (ntohl (th_seq (sg_header sg))) (ucast (th_flags (sg_header sg))) (sg_options sg) (sg_data sg) t1 sh1 = Some (tcp', sh', rc)"
proof (cases "has (ucast (th_flags (sg_header sg))) TCP_ACK")
  case False
  show thesis by (rule body [OF inv l refl refl]) (use r False in \<open>simp add: tcp_rx_segment_def Let_def\<close>)
next
  case True
  then obtain win where r2: "(case tcp_rx_ack env tcp (ntohl (th_ack (sg_header sg))) win sh of
        (tcp, sh, Inl rc) \<Rightarrow> do { (tcp, sh, _) \<leftarrow> tcp_xmit_reset env tcp src (sg_header sg) sh; Some (tcp, sh, Inl rc) }
      | (t, sh, Inr _) \<Rightarrow> tcp_rx_body env (tcp_xfer_window tcp) (ntohl (th_seq (sg_header sg))) (ucast (th_flags (sg_header sg))) (sg_options sg) (sg_data sg) t sh)
      = Some (tcp', sh', rc)"
    using r unfolding tcp_rx_segment_def Let_def by (auto split: option.splits)
  obtain t1 sh1 r1 where a: "tcp_rx_ack env tcp (ntohl (th_ack (sg_header sg))) win sh = (t1, sh1, r1)" by (metis prod_cases3)
  note k = rx_ack_keeps [OF a]
  have i1: "rest_inv irs S ac cur t1 (sh_log sh1)" by (rule rest_inv_frame [OF inv]) (use k in auto)
  show thesis
  proof (cases r1)
    case (Inl e)
    then obtain u where x: "tcp_xmit_reset env t1 src (sg_header sg) sh1 = Some (tcp', sh', u)" and rc: "rc = Inl e"
      using r2 a by (auto simp: bind_eq_Some_conv)
    have "rest_inv irs S ac cur tcp' (sh_log sh')"
      by (rule rest_inv_frame [OF i1 rx_frame_xmit [OF quiet_xmit_reset(1) [OF x]]]) (use quiet_xmit_reset [OF x] xmit_frame_closed in auto)
    then show thesis by (rule rejected) (simp add: rc)
  next
    case (Inr u)
    show thesis by (rule body [OF i1]) (use k l r2 a Inr in \<open>auto simp: rx_frame_def\<close>)
  qed
qed

lemma rx_segment_ok:
  assumes inv: "rest_inv irs S ac cur tcp (sh_log sh)" and l: "on_list tcp" and app: "app_ok ac env" and g: "genuine irs S cur p sg"
    and r: "tcp_rx_segment env src sg tcp sh = Some (tcp', sh', rc)"
  shows "\<exists>cur'. cur \<le> cur' \<and> cur' \<le> cur + 2 ^ 22 \<and> rest_inv irs S ac cur' tcp' (sh_log sh')
    \<and> (bit (tcp_state tcp) 17 \<and> rcv_win tcp \<noteq> 0 \<and> p \<le> cur \<and> cur < p + length (sg_data sg) \<and> rc = Inr () \<longrightarrow> on_list tcp' \<and> p + length (sg_data sg) \<le> cur')"
  using inv l r
proof (cases rule: rx_segment_cases)
  case rejected
  then show ?thesis by (intro exI [of _ cur]) auto
next
  case (body t1 sh1)
  note g1 = g [unfolded genuine_def Let_def]
  from rx_body_ok [OF body(1,2) app _ _ _ _ _ _ body(5), of p] g1 show ?thesis unfolding body(3,4) by blast
qed

text \<open>A reset may have any sequence number: it ends the connection or changes nothing.\<close>

definition is_reset :: "tcp_segment \<Rightarrow> bool" where
  "is_reset sg \<longleftrightarrow> (let fl = ucast (th_flags (sg_header sg)) in has fl TCP_RST \<and> \<not> has fl TCP_SYN \<and> \<not> has fl TCP_FIN \<and> sg_data sg = [])"

lemma process_rx_rest:
  assumes "rest_inv irs S ac cur tcp es" and "on_list tcp"
  shows "tcp_process_rx_queue env tcp sh = Some (tcp, sh)"
proof (cases "rx_queue tcp")
  case Nil
  then show ?thesis by (simp add: tcp_process_rx_queue.simps [of env tcp])
next
  case (Cons q queue)
  then have "bit (tcp_state tcp) 17" using assms by (auto simp: rest_inv_def split: if_splits)
  then have i: "rx_inv irs S ac cur tcp es" "queue_ok irs S (cur + 1) (cur + 2 ^ 21) (q # queue)" using assms Cons by (auto simp: rest_inv_def)
  then obtain p where p: "q_ok irs S p q" "cur + 1 \<le> p" "p < cur + 2 ^ 21" by (auto simp: queue_ok_Cons)
  then have "tcp_cmp (q_seq q) (rcv_ack tcp) > 0" using i(1) by (simp add: rx_inv_def q_ok_def cmp_seq_at)
  then show ?thesis using Cons by (simp add: tcp_process_rx_queue.simps [of env tcp])
qed

lemma reset_segment_ok:
  assumes inv: "rest_inv irs S ac cur tcp (sh_log sh)" and l: "on_list tcp" and g: "is_reset sg"
    and r: "tcp_rx_segment env src sg tcp sh = Some (tcp', sh', rc)"
  shows "rest_inv irs S ac cur tcp' (sh_log sh')"
  using inv l r
proof (cases rule: rx_segment_cases)
  case (body t0 sh0)
  define seq where "seq = ntohl (th_seq (sg_header sg))"
  define fl :: u32 where "fl = ucast (th_flags (sg_header sg))"
  have fl: "has fl TCP_RST" "\<not> has fl TCP_SYN" "fl AND TCP_FIN = 0" "sg_data sg = []" using g by (simp_all add: is_reset_def fl_def Let_def has_def)
  define t1 where "t1 = (if has (tcp_state t0) (TCP_STATE_RCVD TCP_SYN) \<and> seq \<noteq> rcv_ack t0 then t0\<lparr>tcp_flags := tcp_flags t0 OR TCP_ACK_PENDING\<rparr> else t0)"
  have t1: "rest_inv irs S ac cur t1 (sh_log sh0)"
    by (rule rest_inv_frame [OF body(1)]) (auto simp: t1_def tcp_bits TCP_ACK_PENDING_def bit_simps)
  have l1: "on_list t1" using body(2) by (simp add: t1_def)
  obtain t3 sh3 r3 where r3: "tcp_rx_rst env t1 seq sh0 = (t3, sh3, r3)" by (metis prod_cases3)
  note x = body(5) [folded seq_def fl_def, unfolded tcp_rx_body_def Let_def, folded t1_def, unfolded if_P [OF fl(1)] if_not_P [OF fl(2)] prod.case r3]
  show ?thesis
  proof (cases r3)
    case (Inl e)
    then have "tcp' = t3" "sh' = sh3" using x by simp_all
    then show ?thesis using r3 Inl close_reset_ok [OF t1, of env "Some ECONNRESET"] by (auto simp: tcp_rx_rst_def split: if_splits prod.splits)
  next
    case (Inr u)
    then have e: "t3 = t1" "sh3 = sh0" using r3 by (auto simp: tcp_rx_rst_def split: if_splits prod.splits)
    have "tcp_rx_enqueue t1 seq fl (sg_data sg) sh0 = (t1, sh0)" by (simp add: tcp_rx_enqueue_def fl)
    then have "tcp_rx_done env (tcp_xfer_window tcp) seq t1 sh0 = Some (tcp', sh')"
      using x Inr e process_rx_rest [OF t1 l1, of env sh0] by (auto simp: bind_eq_Some_conv)
    then show ?thesis using rx_done_ok [OF t1] by blast
  qed
qed

section \<open>Runs of a connection\<close>

text \<open>How far the stream was received after an operation, from the acknowledgement number.\<close>

definition rcvd_pos :: "u32 \<Rightarrow> nat \<Rightarrow> tcp_connection \<Rightarrow> nat" where
  "rcvd_pos irs cur tcp = (if has (tcp_state tcp) (TCP_STATE_RCVD TCP_SYN) then cur + unat (rcv_ack tcp - seq_at irs cur) else cur)"

text \<open>
  Everything that can happen to a connection from its opening on: packets of the peer arrive in
  any order, any number of times or not at all; resets arrive from anywhere; its timers expire; its process runs; the
  application sends, closes if it may, and puts memory under pressure; and other connections
  change what is shared without delivering data of this one.
\<close>

inductive stream_run :: "u32 \<Rightarrow> bytes \<Rightarrow> bool \<Rightarrow> nat \<Rightarrow> tcp_connection \<Rightarrow> 's tcp_shared \<Rightarrow> bool" for irs S ac where
  opened: "tcp_open env (Some i) random rport peer local sys = (sys', Inr ()) \<Longrightarrow> delivered i (sh_log (tcp_sh sys)) = []
    \<Longrightarrow> stream_run irs S ac 0 (tcp_conn sys' i) (tcp_sh sys')"
| received: "stream_run irs S ac cur tcp sh \<Longrightarrow> on_list tcp \<Longrightarrow> app_ok ac env \<Longrightarrow> genuine irs S cur p sg
    \<Longrightarrow> tcp_rx_segment env src sg (tcp\<lparr>ts_val := t\<rparr>) sh = Some (tcp', sh', r) \<Longrightarrow> stream_run irs S ac (rcvd_pos irs cur tcp') tcp' sh'"
| reset: "stream_run irs S ac cur tcp sh \<Longrightarrow> on_list tcp \<Longrightarrow> is_reset sg
    \<Longrightarrow> tcp_rx_segment env src sg (tcp\<lparr>ts_val := t\<rparr>) sh = Some (tcp', sh', r) \<Longrightarrow> stream_run irs S ac cur tcp' sh'"
| expired: "stream_run irs S ac cur tcp sh \<Longrightarrow> tcp_expired env over tcp sh = Some (tcp', sh') \<Longrightarrow> stream_run irs S ac cur tcp' sh'"
| keepalive: "stream_run irs S ac cur tcp sh \<Longrightarrow> tcp_keepalive_expired env tcp sh = Some (tcp', sh') \<Longrightarrow> stream_run irs S ac cur tcp' sh'"
| waited: "stream_run irs S ac cur tcp sh \<Longrightarrow> tcp_wait_expired env tcp sh = (tcp', sh') \<Longrightarrow> stream_run irs S ac cur tcp' sh'"
| stepped: "stream_run irs S ac cur tcp sh \<Longrightarrow> tcp_step env tcp sh = Some (tcp', sh') \<Longrightarrow> stream_run irs S ac cur tcp' sh'"
| application: "stream_run irs S ac cur tcp sh \<Longrightarrow> ac \<or> no_close calls \<Longrightarrow> app_calls env calls tcp sh = Some (tcp', sh') \<Longrightarrow> stream_run irs S ac cur tcp' sh'"
| others: "stream_run irs S ac cur tcp sh \<Longrightarrow> delivered (tcp_id tcp) (sh_log sh') = delivered (tcp_id tcp) (sh_log sh) \<Longrightarrow> stream_run irs S ac cur tcp sh'"

lemma open_eq:
  assumes "tcp_open env (Some i) random rport peer local sys = (sys', Inr ())"
  obtains mss port n where "tcp_conn sys' i = (new_connection i random peer)\<lparr>tcp_mss := mss, local_port := port, pending_flags := n, on_list := True\<rparr>"
    "sh_log (tcp_sh sys') = sh_log (tcp_sh sys)"
proof -
  obtain port where b: "tcpip_bind rport local (tcp_port_available sys) = Inr port"
    and m: "tcpip_mtu (te_mtu env) (te_nets env) (tcp_peer (new_connection i random peer)) (sh_net (tcp_sh sys)) \<noteq> 0"
    using assms unfolding tcp_open_def Let_def by (simp split: if_splits sum.splits)
  have "tcp_conn sys' i = (new_connection i random peer)\<lparr>tcp_mss := tcpip_mtu (te_mtu env) (te_nets env) (tcp_peer (new_connection i random peer))
      (sh_net (tcp_sh sys)) - of_nat sizeof_tcphdr, local_port := ucast port, pending_flags := pending_flags (new_connection i random peer) + 1, on_list := True\<rparr>"
    "sh_log (tcp_sh sys') = sh_log (tcp_sh sys)"
    using assms b m unfolding tcp_open_def Let_def pending_get_def by auto
  then show thesis by (rule that)
qed

lemma rest_inv_close:
  assumes inv: "rest_inv irs S True cur tcp (sh_log sh)" and c: "tcp_close env tcp rc sh = (tcp', sh')"
  shows "rest_inv irs S True cur tcp' (sh_log sh')"
proof (cases "bit (tcp_state tcp) 17")
  case True
  then show ?thesis using quiet_close [of "tcp_id tcp" tcp sh env rc] c by (intro rest_inv_frame [OF inv]) (auto simp: quiet_def)
next
  case False
  from c show ?thesis by (cases rule: close_cases) (use inv False in \<open>auto simp: rest_inv_def tcp_bits\<close>)
qed

lemma rest_inv_app_calls:
  "app_calls env calls tcp sh = Some (tcp', sh') \<Longrightarrow> rest_inv irs S ac cur tcp (sh_log sh) \<Longrightarrow> ac \<or> no_close calls \<Longrightarrow> rest_inv irs S ac cur tcp' (sh_log sh')"
proof (induction env calls tcp sh rule: app_calls.induct)
  case (2 env rc calls tcp sh)
  then have ac by (auto simp: no_close_def)
  show ?case
  proof (cases "has (tcp_flags tcp) TCP_XFER_CLOSED")
    case True
    then show ?thesis using 2 \<open>ac\<close> by simp
  next
    case False
    then obtain t1 sh1 where x: "tcp_xfer_close env tcp rc sh = Some (t1, sh1)" "app_calls env calls t1 sh1 = Some (tcp', sh')"
      using 2(3) by (auto simp: bind_eq_Some_conv)
    have "rest_inv irs S ac cur t1 (sh_log sh1)"
      using x(1) \<open>ac\<close> 2(4) unfolding tcp_xfer_close_def tcp_xmit_def by (auto split: prod.splits intro: rest_inv_xmit rest_inv_close)
    then show ?thesis using 2(2) [OF False x(1) refl x(2)] \<open>ac\<close> by simp
  qed
next
  case (3 env iobuf calls tcp sh)
  show ?case
  proof (cases "has (tcp_flags tcp) TCP_XFER_CLOSED")
    case True
    then show ?thesis using 3 by (simp add: no_close_def)
  next
    case False
    then obtain t1 sh1 where x: "tcp_xfer_deliver env tcp iobuf sh = Some (t1, sh1)" "app_calls env calls t1 sh1 = Some (tcp', sh')"
      using 3(3) by (auto simp: bind_eq_Some_conv)
    have "rest_inv irs S ac cur t1 (sh_log sh1)"
      using quiet_xfer_deliver [OF x(1), of "tcp_id tcp"] xfer_deliver_closed [OF x(1)] by (intro rest_inv_frame [OF 3(4)]) (auto simp: quiet_def)
    then show ?thesis using 3(2) [OF False x(1) refl x(2)] 3(5) by (simp add: no_close_def)
  qed
next
  case (4 env calls tcp sh)
  obtain t1 sh1 where x: "tcp_discard_one tcp sh = (t1, sh1)" by (metis surj_pair)
  have "rest_inv irs S ac cur t1 (sh_log sh1)"
    using quiet_discard [of "tcp_id tcp" tcp sh] xmit_frame_closed [OF xmit_frame_discard, of tcp sh] x by (intro rest_inv_frame [OF 4(3)]) (auto simp: quiet_def)
  then show ?case using 4(1) [OF x [symmetric]] 4(2,4) x by (simp add: no_close_def)
qed simp

lemma rcvd_pos_eq:
  assumes "rest_inv irs S ac cur' tcp es" and "on_list tcp" and "cur \<le> cur'" and "cur' \<le> cur + 2 ^ 22"
  shows "rcvd_pos irs cur tcp = cur'"
proof (cases "bit (tcp_state tcp) 17")
  case True
  then have "rcv_ack tcp = seq_at irs cur'" using assms(1,2) by (simp add: rest_inv_def rx_inv_def)
  then show ?thesis using True assms(3,4) by (simp add: rcvd_pos_def tcp_bits unat_seq_diff)
next
  case False
  then show ?thesis using assms by (simp add: rcvd_pos_def tcp_bits rest_inv_def)
qed

lemma rest_inv_pos:
  assumes "rest_inv irs S ac cur' tcp es" and "cur \<le> cur'" and "cur' \<le> cur + 2 ^ 22"
  shows "rest_inv irs S ac (rcvd_pos irs cur tcp) tcp es"
proof (cases "on_list tcp")
  case True
  then show ?thesis using rcvd_pos_eq [OF assms(1) True assms(2,3)] assms(1) by simp
next
  case False
  then show ?thesis using assms(1) by (simp add: rest_inv_def)
qed

lemma stream_run_inv: "stream_run irs S ac cur tcp sh \<Longrightarrow> rest_inv irs S ac cur tcp (sh_log sh)"
proof (induction rule: stream_run.induct)
  case (opened env i random rport peer local sys sys')
  from opened(1) show ?case
    by (rule open_eq) (use opened(2) in \<open>auto simp: rest_inv_def new_connection_def TCP_STATE_SENT_def TCP_SYN_def tcp_bits bit_simps\<close>)
next
  case (received cur tcp sh env p sg src t tcp' sh' r)
  have "rest_inv irs S ac cur (tcp\<lparr>ts_val := t\<rparr>) (sh_log sh)" by (rule rest_inv_frame [OF received(6)]) auto
  from rx_segment_ok [OF this _ received(3,4,5)] received(2) show ?case by (auto intro: rest_inv_pos)
next
  case (reset cur tcp sh sg env src t tcp' sh' r)
  have "rest_inv irs S ac cur (tcp\<lparr>ts_val := t\<rparr>) (sh_log sh)" by (rule rest_inv_frame [OF reset(5)]) auto
  from reset_segment_ok [OF this _ reset(3,4)] reset(2) show ?case by simp
next
  case (expired cur tcp sh env over tcp' sh')
  then show ?case by (auto simp: tcp_expired_def tcp_xmit_def split: if_splits dest: close_reset_ok intro: rest_inv_xmit)
next
  case (keepalive cur tcp sh env tcp' sh')
  have "rest_inv irs S ac cur (tcp\<lparr>tcp_flags := tcp_flags tcp OR TCP_ACK_PENDING\<rparr>)
      (sh_log (on_retry (start_timer_fixed (te_now env) (tcp_keepalive tcp) TCP_KEEPALIVE_DELAY) sh))"
    by (rule rest_inv_frame [OF keepalive(3)]) (auto simp: tcp_bits TCP_ACK_PENDING_def bit_simps)
  from rest_inv_xmit [OF this] keepalive(2) show ?case by (simp add: tcp_keepalive_expired_def tcp_xmit_def)
next
  case (waited cur tcp sh env tcp' sh')
  then show ?case by (auto simp: tcp_wait_expired_def dest: close_reset_ok)
next
  case (stepped cur tcp sh env tcp' sh')
  define s where "s = process_del tcp (on_counts (ref_increment (Some (tcp_id tcp))) sh)"
  have "rest_inv irs S ac cur (fst s) (sh_log (snd s))" by (rule rest_inv_frame [OF stepped(3)]) (auto simp: s_def process_del_def)
  moreover obtain sh1 where "tcp_xmit env (fst s) (snd s) = Some (tcp', sh1)" "sh_log sh' = sh_log sh1"
    using stepped(2) unfolding tcp_step_def Let_def s_def [symmetric] by (auto split: prod.splits)
  ultimately show ?case by (simp add: tcp_xmit_def rest_inv_xmit)
next
  case (application cur tcp sh calls env tcp' sh')
  then show ?case by (auto intro: rest_inv_app_calls)
next
  case (others cur tcp sh sh')
  then show ?case by (auto intro: rest_inv_frame)
qed

end
