(* ===== verification/TcpDelivery.thy ===== *)
theory TcpDelivery
  imports TcpStream
begin

text \<open>
  The two properties of a stream that TCP delivers, safety and progress, and a connection that is
  opened, synchronised and read from, which shows that they are not vacuous.
\<close>

section \<open>A connection that reads two bytes\<close>

text \<open>A network layer that takes every packet, and an environment in which memory is plentiful.\<close>

definition example_net :: "unit tcpip_net" where
  "example_net = \<lparr>sa_family = AF_INET, header_len = 20, net_tx = (\<lambda>iobuf _ _ _ _ _ st. Some (st, Inr (Net_tx iobuf 0 []))), net_netdev = (\<lambda>_ _. Some 0)\<rparr>"

definition example_tcp_env :: "u64 \<Rightarrow> unit tcp_env" where
  "example_tcp_env now = \<lparr>te_now = now, te_addr = 0, te_alloc = (\<lambda>n. Some \<lparr>iob_before = [], iob_data = [], iob_after = replicate n 0\<rparr>), te_discards = 0,
     te_window = 0x10000, te_reaction = (\<lambda>_. []), te_nets = [example_net], te_mtu = (\<lambda>_. 1500)\<rparr>"

definition example_shared :: "unit tcp_shared" where
  "example_shared = \<lparr>sh_retry = \<lparr>timers = [], timer = (\<lambda>_. new_timer 0), counts = (\<lambda>_. 0)\<rparr>, sh_net = (), sh_pending_total = 0,
     sh_stats = \<lparr>in_segs = 0, in_discards = 0, in_out_of_order = 0, in_octets = 0, in_octets_good = 0\<rparr>, sh_log = [], sh_frames = []\<rparr>"

definition example_system :: "unit tcp_system" where
  "example_system = \<lparr>tcp_conns = [], tcp_conn = (\<lambda>i. new_connection i 0 empty_sockaddr), tcp_sh = example_shared\<rparr>"

definition example_peer :: sockaddr_tcpip where
  "example_peer = (ipv4_sockaddr 0x0100000a)\<lparr>st_port := htons 80\<rparr>"

definition example_open :: "unit tcp_system \<times> unit result" where
  "example_open = tcp_open (example_tcp_env 0) (Some 1) 1000 5 example_peer (Some (empty_sockaddr\<lparr>st_port := htons 2000\<rparr>)) example_system"

definition example_segment :: "u32 \<Rightarrow> u32 \<Rightarrow> u8 \<Rightarrow> bytes \<Rightarrow> tcp_segment" where
  "example_segment seq ack fl data =
     \<lparr>sg_header = \<lparr>th_src = htons 80, th_dest = 0, th_seq = htonl seq, th_ack = htonl ack, th_hlen = 0x50, th_flags = fl, th_win = htons 64, th_csum = 0, th_urg = 0\<rparr>,
      sg_options = \<lparr>opt_wsopt = None, opt_spopt = False, opt_tsopt = None\<rparr>, sg_data = data\<rparr>"

text \<open>The SYN is sent when the timer fires for the first time; the peer answers, then sends two bytes.\<close>

definition example_sent :: "(tcp_connection \<times> unit tcp_shared) option" where
  "example_sent =
     (let sys = fst example_open; sh = on_retry (stop_timer 1 3) (tcp_sh sys)
      in tcp_expired (example_tcp_env 1) False (tcp_conn sys 1) sh)"

definition example_synchronised :: "(tcp_connection \<times> unit tcp_shared \<times> unit result) option" where
  "example_synchronised =
     (case example_sent of
        None \<Rightarrow> None
      | Some (tcp, sh) \<Rightarrow> tcp_rx_segment (example_tcp_env 2) example_peer (example_segment 5000 1001 0x12 []) (tcp\<lparr>ts_val := 0\<rparr>) sh)"

definition example_received :: "(tcp_connection \<times> unit tcp_shared \<times> unit result) option" where
  "example_received =
     (case example_synchronised of
        None \<Rightarrow> None
      | Some (tcp, sh, _) \<Rightarrow> tcp_rx_segment (example_tcp_env 3) example_peer (example_segment 5001 1001 0x10 [104, 105]) (tcp\<lparr>ts_val := 0\<rparr>) sh)"

text \<open>The two checksum routines agree, so that the example is evaluated with the simpler one.\<close>

lemma tcpip_continue_chksum_code [code]: "tcpip_continue_chksum partial addr data = generic_tcpip_continue_chksum partial data"
  by (simp add: x86_checksum generic_checksum)

lemma example_app: "app_ok ac (example_tcp_env now)"
  by (simp add: app_ok_def example_tcp_env_def no_close_def)

lemma example_genuine:
  "genuine 5000 [104, 105, 106] 0 0 (example_segment 5000 1001 0x12 [])"
  "genuine 5000 [104, 105, 106] 0 0 (example_segment 5001 1001 0x10 [104, 105])"
proof -
  have "\<not> has (ucast (0x12 :: u8)) TCP_FIN" "has (ucast (0x12 :: u8)) TCP_SYN" "\<not> has (ucast (0x10 :: u8)) TCP_FIN" "\<not> has (ucast (0x10 :: u8)) TCP_SYN"
    "ntohl (htonl 5000) = 5000" "ntohl (htonl 5001) = 5001" by code_simp+
  then show "genuine 5000 [104, 105, 106] 0 0 (example_segment 5000 1001 0x12 [])"
    "genuine 5000 [104, 105, 106] 0 0 (example_segment 5001 1001 0x10 [104, 105])"
    by (simp_all add: genuine_def example_segment_def seq_at_def)
qed

lemma example_synchronised_run:
  obtains tcp sh where "example_synchronised = Some (tcp, sh, Inr ())" "stream_run 5000 [104, 105, 106] False 0 tcp sh" "on_list tcp"
    "has (tcp_state tcp) (TCP_STATE_RCVD TCP_SYN)" "rcv_win tcp \<noteq> 0" "tcp_id tcp = 1"
proof -
  obtain sys r where o: "example_open = (sys, r)" by (metis surj_pair)
  have "snd example_open = Inr ()" by code_simp
  with o have o': "tcp_open (example_tcp_env 0) (Some 1) 1000 5 example_peer (Some (empty_sockaddr\<lparr>st_port := htons 2000\<rparr>)) example_system = (sys, Inr ())"
    by (simp add: example_open_def)
  have "delivered 1 (sh_log (tcp_sh example_system)) = []" by code_simp
  note run0 = stream_run.opened [OF o' this, of 5000 "[104, 105, 106]" False]
  have run1: "stream_run 5000 [104, 105, 106] False 0 (tcp_conn sys 1) (on_retry (stop_timer 1 3) (tcp_sh sys))"
    by (rule stream_run.others [OF run0]) simp
  have "case example_synchronised of None \<Rightarrow> False | Some (tcp, sh, r) \<Rightarrow> r = Inr () \<and> on_list tcp \<and> has (tcp_state tcp) (TCP_STATE_RCVD TCP_SYN)
      \<and> rcv_win tcp \<noteq> 0 \<and> tcp_id tcp = 1 \<and> rcvd_pos 5000 0 tcp = 0" by code_simp
  then obtain tcp sh where s: "example_synchronised = Some (tcp, sh, Inr ())" and f: "on_list tcp" "has (tcp_state tcp) (TCP_STATE_RCVD TCP_SYN)"
      "rcv_win tcp \<noteq> 0" "tcp_id tcp = 1" "rcvd_pos 5000 0 tcp = 0"
    by (auto split: option.splits)
  then obtain t1 sh1 where e: "example_sent = Some (t1, sh1)"
      and x: "tcp_rx_segment (example_tcp_env 2) example_peer (example_segment 5000 1001 0x12 []) (t1\<lparr>ts_val := 0\<rparr>) sh1 = Some (tcp, sh, Inr ())"
    by (auto simp: example_synchronised_def split: option.splits)
  have run2: "stream_run 5000 [104, 105, 106] False 0 t1 sh1"
    using e unfolding example_sent_def o Let_def fst_conv by (rule stream_run.expired [OF run1])
  have "case example_sent of None \<Rightarrow> False | Some (t, _) \<Rightarrow> on_list t" by code_simp
  then have "on_list t1" unfolding e option.case prod.case .
  then have "stream_run 5000 [104, 105, 106] False (rcvd_pos 5000 0 tcp) tcp sh"
    using example_genuine(1) x by (rule stream_run.received [OF run2 _ example_app])
  then show thesis using that s f by simp
qed

lemma example_received_segment:
  obtains tcp sh where "example_received = Some (tcp, sh, Inr ())" "on_list tcp" "\<not> has (tcp_flags tcp) TCP_XFER_CLOSED" "tcp_id tcp = 1" "rcvd_pos 5000 0 tcp = 2"
proof -
  have "case example_received of None \<Rightarrow> False | Some (tcp, sh, r) \<Rightarrow> r = Inr () \<and> on_list tcp \<and> \<not> has (tcp_flags tcp) TCP_XFER_CLOSED \<and> tcp_id tcp = 1
      \<and> rcvd_pos 5000 0 tcp = 2" by code_simp
  then show thesis using that by (auto split: option.splits)
qed

section \<open>The stream is delivered\<close>

text \<open>
  Claim C1. The application reads the peer's stream. Whatever the network does to the packets the
  peer sends, and whatever the timers, the application and memory pressure do in between, what a
  connection delivers is always a prefix of the stream: in order, without gaps and without
  duplicates. While the connection is open, everything that was acknowledged was delivered; and if
  the application does not close it itself, an end that leaves the connection in place is only
  announced after the complete stream.
\<close>

theorem tcp_stream_delivery:
  assumes "stream_run irs S ac cur tcp sh"
  shows "prefix (delivered (tcp_id tcp) (sh_log sh)) S
    \<and> (on_list tcp \<and> \<not> has (tcp_flags tcp) TCP_XFER_CLOSED \<longrightarrow> delivered (tcp_id tcp) (sh_log sh) = take cur S)
    \<and> (on_list tcp \<and> has (tcp_state tcp) (TCP_STATE_RCVD TCP_SYN) \<longrightarrow> rcv_ack tcp = seq_at irs cur \<and> cur \<le> length S + 1
         \<and> (has (tcp_state tcp) (TCP_STATE_RCVD TCP_FIN) \<longleftrightarrow> cur = length S + 1))
    \<and> (on_list tcp \<and> \<not> ac \<and> has (tcp_flags tcp) TCP_XFER_CLOSED \<longrightarrow> delivered (tcp_id tcp) (sh_log sh) = S)"
  using stream_run_inv [OF assms] unfolding rest_inv_def rx_inv_def tcp_bits by (auto split: if_splits)

theorem tcp_stream_delivery_witness:
  "\<exists>tcp sh. example_received = Some (tcp, sh, Inr ()) \<and> stream_run 5000 [104, 105, 106] False 2 tcp sh \<and> delivered 1 (sh_log sh) = [104, 105]"
proof (rule example_synchronised_run)
  fix t1 sh1 assume s: "example_synchronised = Some (t1, sh1, Inr ())" and run: "stream_run 5000 [104, 105, 106] False 0 t1 sh1" and l: "on_list t1"
  show ?thesis
  proof (rule example_received_segment)
    fix tcp sh assume r: "example_received = Some (tcp, sh, Inr ())" and f: "on_list tcp" "\<not> has (tcp_flags tcp) TCP_XFER_CLOSED" "tcp_id tcp = 1" "rcvd_pos 5000 0 tcp = 2"
    have "stream_run 5000 [104, 105, 106] False (rcvd_pos 5000 0 tcp) tcp sh"
      using r unfolding example_received_def s option.case prod.case by (rule stream_run.received [OF run l example_app example_genuine(2)])
    then have run': "stream_run 5000 [104, 105, 106] False 2 tcp sh" using f(4) by simp
    show ?thesis using tcp_stream_delivery [OF run'] f r run' by auto
  qed
qed

text \<open>
  Claim C11. A packet that continues the stream makes progress. When the connection is synchronised
  and its receive window is open, a packet of the peer that starts at or before the position
  received so far and reaches beyond it, and that is not rejected, advances the position at least
  to the end of its data, which is then acknowledged and delivered.
\<close>

theorem tcp_stream_progress:
  assumes "stream_run irs S ac cur tcp sh" and "on_list tcp" and "app_ok ac env" and "genuine irs S cur p sg"
    and "has (tcp_state tcp) (TCP_STATE_RCVD TCP_SYN)" and "rcv_win tcp \<noteq> 0" and "p \<le> cur" and "cur < p + length (sg_data sg)"
    and "tcp_rx_segment env src sg (tcp\<lparr>ts_val := t\<rparr>) sh = Some (tcp', sh', Inr ())"
  shows "\<exists>cur' \<ge> p + length (sg_data sg). stream_run irs S ac cur' tcp' sh' \<and> on_list tcp' \<and> rcv_ack tcp' = seq_at irs cur'
    \<and> (\<not> has (tcp_flags tcp') TCP_XFER_CLOSED \<longrightarrow> delivered (tcp_id tcp') (sh_log sh') = take cur' S)"
proof -
  have "rest_inv irs S ac cur (tcp\<lparr>ts_val := t\<rparr>) (sh_log sh)" by (rule rest_inv_frame [OF stream_run_inv [OF assms(1)]]) auto
  from rx_segment_ok [OF this _ assms(3,4,9)] assms(2,5-8) obtain cur' where c: "cur \<le> cur'" "cur' \<le> cur + 2 ^ 22"
    "rest_inv irs S ac cur' tcp' (sh_log sh')" "on_list tcp'" "p + length (sg_data sg) \<le> cur'" by (auto simp: tcp_bits)
  have "stream_run irs S ac cur' tcp' sh'"
    using stream_run.received [OF assms(1-4,9)] rcvd_pos_eq [OF c(3,4,1,2)] by simp
  moreover have "cur' \<noteq> 0" using assms(8) c(5) by linarith
  ultimately show ?thesis using c unfolding rest_inv_def rx_inv_def by (intro exI [of _ cur']) (auto split: if_splits)
qed


theorem tcp_stream_progress_witness:
  "\<exists>tcp sh cur. example_received = Some (tcp, sh, Inr ()) \<and> 2 \<le> cur \<and> stream_run 5000 [104, 105, 106] False cur tcp sh \<and> rcv_ack tcp = seq_at 5000 cur"
proof (rule example_synchronised_run)
  fix t1 sh1 assume s: "example_synchronised = Some (t1, sh1, Inr ())" and run: "stream_run 5000 [104, 105, 106] False 0 t1 sh1" and l: "on_list t1"
    and f: "has (tcp_state t1) (TCP_STATE_RCVD TCP_SYN)" "rcv_win t1 \<noteq> 0"
  show ?thesis
  proof (rule example_received_segment)
    fix tcp sh assume r: "example_received = Some (tcp, sh, Inr ())"
    have "tcp_rx_segment (example_tcp_env 3) example_peer (example_segment 5001 1001 0x10 [104, 105]) (t1\<lparr>ts_val := 0\<rparr>) sh1 = Some (tcp, sh, Inr ())"
      using r unfolding example_received_def s option.case prod.case .
    moreover have "sg_data (example_segment 5001 1001 0x10 [104, 105]) = [104, 105]" by (simp add: example_segment_def)
    ultimately have "\<exists>cur \<ge> 2. stream_run 5000 [104, 105, 106] False cur tcp sh \<and> on_list tcp \<and> rcv_ack tcp = seq_at 5000 cur
        \<and> (\<not> has (tcp_flags tcp) TCP_XFER_CLOSED \<longrightarrow> delivered (tcp_id tcp) (sh_log sh) = take cur [104, 105, 106])"
      using tcp_stream_progress [OF run l example_app [of False 3] example_genuine(2) f, where src = example_peer and t = 0 and tcp' = tcp and sh' = sh]
      by (simp add: numeral_2_eq_2)
    then show ?thesis using r by blast
  qed
qed

end
