(* ===== verification/TcpShutdown.thy ===== *)
theory TcpShutdown
  imports TcpStream
begin

text \<open>
  The shutdown of TCP (tcp_shutdown of net/tcp.c) returns: each of its loops changes the list of
  connections while it walks it, and still comes to an end.
\<close>

definition unclosed :: "'s tcp_system \<Rightarrow> nat list" where
  "unclosed sys = filter (\<lambda>i. \<not> has (tcp_flags (tcp_conn sys i)) TCP_XFER_CLOSED) (tcp_conns sys)"

lemma unclosed_put: "has (tcp_flags (fst r)) TCP_XFER_CLOSED \<Longrightarrow> unclosed (put_conn i r sys) = filter (\<lambda>j. j \<noteq> i) (unclosed sys)"
  by (auto simp: unclosed_def put_conn_def intro: filter_cong)

lemma length_filter_ne: "i \<in> set xs \<Longrightarrow> length (filter (\<lambda>j. j \<noteq> i) xs) < length xs"
  by (rule length_filter_less) auto

lemma close_all_returns: "\<exists>sys'. tcp_close_all env sys = Some sys' \<and> tcp_first_unclosed sys' = None"
proof (induction "length (unclosed sys)" arbitrary: sys rule: less_induct)
  case less
  show ?case
  proof (cases "tcp_first_unclosed sys")
    case None
    then show ?thesis by (simp add: tcp_close_all.simps [of env sys])
  next
    case (Some i)
    let ?r = "tcp_close env (tcp_conn sys i) (Some ECANCELED) (tcp_sh sys)"
    have "i \<in> set (unclosed sys)" using Some by (auto simp: tcp_first_unclosed_def unclosed_def find_Some_iff)
    then have "length (unclosed (put_conn i ?r sys)) < length (unclosed sys)"
      by (simp add: unclosed_put close_closed length_filter_ne)
    from less [OF this] Some show ?thesis by (simp add: tcp_close_all.simps [of env sys])
  qed
qed

text \<open>A connection that was aborted: closed towards the application and the peer, with nothing queued.\<close>

definition aborted :: "tcp_connection \<Rightarrow> bool" where
  "aborted tcp \<longleftrightarrow> tcp_state tcp = TCP_CLOSED \<and> has (tcp_flags tcp) TCP_XFER_CLOSED \<and> rx_queue tcp = [] \<and> tx_queue tcp = []
     \<and> \<not> process_running tcp \<and> \<not> on_list tcp"

lemma close_aborts: "aborted (fst (tcp_close env (tcp\<lparr>tcp_state := TCP_CLOSED\<rparr>) rc sh))"
proof -
  obtain tcp' sh' where c: "tcp_close env (tcp\<lparr>tcp_state := TCP_CLOSED\<rparr>) rc sh = (tcp', sh')" by (metis surj_pair)
  from c have "tcp_state tcp' = TCP_CLOSED \<and> rx_queue tcp' = [] \<and> tx_queue tcp' = [] \<and> \<not> process_running tcp' \<and> \<not> on_list tcp'"
    by (cases rule: close_cases) (auto simp: tcp_bits TCP_CLOSED_def TCP_RST_def bit_simps)
  then show ?thesis
    using close_closed [of env "tcp\<lparr>tcp_state := TCP_CLOSED\<rparr>" rc sh] c by (simp add: aborted_def)
qed

lemma abort_all_returns:
  "\<exists>sys'. tcp_abort_all env sys = Some sys' \<and> tcp_conns sys' = [] \<and> (\<forall>i \<in> set (tcp_conns sys). aborted (tcp_conn sys' i))
     \<and> (\<forall>i. i \<notin> set (tcp_conns sys) \<longrightarrow> tcp_conn sys' i = tcp_conn sys i)"
proof (induction "length (tcp_conns sys)" arbitrary: sys rule: less_induct)
  case less
  show ?case
  proof (cases "tcp_conns sys")
    case Nil
    then show ?thesis by (simp add: tcp_abort_all.simps [of env sys])
  next
    case (Cons i rest)
    define r where "r = tcp_close env ((tcp_conn sys i)\<lparr>tcp_state := TCP_CLOSED\<rparr>) (Some ECANCELED) (tcp_sh sys)"
    have a: "aborted (fst r)" unfolding r_def by (rule close_aborts)
    have p: "tcp_conns (put_conn i r sys) = filter (\<lambda>j. j \<noteq> i) (tcp_conns sys)" "tcp_conn (put_conn i r sys) = (tcp_conn sys)(i := fst r)"
      using a by (simp_all add: put_conn_def aborted_def)
    have "length (tcp_conns (put_conn i r sys)) < length (tcp_conns sys)"
      unfolding p by (rule length_filter_ne) (simp add: Cons)
    from less [OF this] obtain sys' where s: "tcp_abort_all env (put_conn i r sys) = Some sys'" "tcp_conns sys' = []"
        "\<forall>j \<in> set (tcp_conns sys) - {i}. aborted (tcp_conn sys' j)" "\<forall>j. j \<notin> set (tcp_conns sys) - {i} \<longrightarrow> tcp_conn sys' j = ((tcp_conn sys)(i := fst r)) j"
      unfolding p by auto
    have "tcp_abort_all env sys = Some sys'" using s(1) Cons by (simp add: tcp_abort_all.simps [of env sys] r_def)
    moreover have "aborted (tcp_conn sys' i)" using s(4) a by simp
    moreover have "\<forall>j \<in> set (tcp_conns sys). aborted (tcp_conn sys' j)" using s(3) calculation(2) by blast
    moreover have "\<forall>j. j \<notin> set (tcp_conns sys) \<longrightarrow> tcp_conn sys' j = tcp_conn sys j"
    proof (intro allI impI)
      fix j assume "j \<notin> set (tcp_conns sys)"
      then have "j \<noteq> i" "j \<notin> set (tcp_conns sys) - {i}" using Cons by auto
      then show "tcp_conn sys' j = tcp_conn sys j" using s(4) by simp
    qed
    ultimately show ?thesis using s(2) by blast
  qed
qed


end
