(* ===== verification/TcpSend.thy ===== *)
theory TcpSend
  imports TcpStream
begin

text \<open>
  What a TCP connection sends. Every packet that it transmits holds bytes of what the application
  handed over, at the sequence number that belongs to their position in it, and a FIN only at its
  end. This is what the receiving side relies on in a packet of its peer, so that two connections
  form a stream.
\<close>

section \<open>States as bits\<close>

lemma sending_bit: "k < 8 \<Longrightarrow> bit (TCP_FLAGS_SENDING st) k \<longleftrightarrow> bit st k \<and> \<not> bit st (k + 8)"
proof -
  have m: "(0xff :: u32) = mask 8" by (simp add: mask_eq_exp_minus_1)
  assume "k < 8"
  then show ?thesis
    by (auto simp: TCP_FLAGS_SENDING_def TCP_FLAGS_SENT_def TCP_FLAGS_ACKED_def m bit_simps add.commute)
qed

lemma and_exp: "st AND 2 ^ n = (if bit st n then 2 ^ n else 0)" for st :: u32
  by (rule bit_word_eqI) (auto simp: bit_simps)

lemma can_send_bits: "TCP_CAN_SEND_DATA st \<longleftrightarrow> bit st 9 \<and> \<not> bit st 0"
proof -
  have c: "TCP_STATE_ACKED TCP_SYN = 2 ^ 9" "TCP_STATE_SENT TCP_FIN = 2 ^ 0"
    by (simp_all add: TCP_STATE_ACKED_def TCP_STATE_SENT_def TCP_SYN_def TCP_FIN_def push_bit_eq_mult)
  have "TCP_CAN_SEND_DATA st \<longleftrightarrow> (if bit st 9 then 2 ^ 9 else 0) OR (if bit st 0 then 2 ^ 0 else 0) = (2 ^ 9 :: u32)"
    unfolding TCP_CAN_SEND_DATA_def c bit.conj_disj_distrib and_exp ..
  then show ?thesis by (cases "bit st 9"; cases "bit st 0") simp_all
qed

section \<open>The transmit queue\<close>

lemma process_tx_queue_data: "fst (snd (process_tx_queue rm n q)) = take n (concat q)"
proof (induction rm n q rule: process_tx_queue.induct)
  case (2 rm n b q)
  then show ?case by (auto simp: Let_def case_prod_beta min_def not_less)
qed simp

lemma process_tx_queue_rest: "concat (fst (process_tx_queue True n q)) = drop n (concat q)"
proof -
  have "rm \<Longrightarrow> concat (fst (process_tx_queue rm n q)) = drop n (concat q)" for rm
  proof (induction rm n q rule: process_tx_queue.induct)
    case (2 rm n b q)
    then show ?case by (auto simp: Let_def case_prod_beta not_less)
  qed simp
  then show ?thesis by simp
qed

section \<open>Packets in the log\<close>

definition queued :: "nat \<Rightarrow> tcp_event list \<Rightarrow> bytes" where
  "queued i es = concat (map (\<lambda>e. case e of Queued j d \<Rightarrow> if j = i then d else [] | _ \<Rightarrow> []) es)"

definition transmitted :: "nat \<Rightarrow> tcp_event list \<Rightarrow> bytes list" where
  "transmitted i es = concat (map (\<lambda>e. case e of Transmit j p \<Rightarrow> if j = i then [p] else [] | _ \<Rightarrow> []) es)"

lemma log_append [simp]: "queued i (es @ fs) = queued i es @ queued i fs" "transmitted i (es @ fs) = transmitted i es @ transmitted i fs"
  by (simp_all add: queued_def transmitted_def)

lemma log_single [simp]:
  "queued i [] = []" "queued i [Queued j d] = (if j = i then d else [])" "queued i [Deliver j d] = []" "queued i [Closed j rc] = []"
  "queued i [Window_changed j] = []" "queued i [Transmit j p] = []" "transmitted i [] = []" "transmitted i [Queued j d] = []"
  "transmitted i [Deliver j d] = []" "transmitted i [Closed j rc] = []" "transmitted i [Window_changed j] = []"
  "transmitted i [Transmit j p] = (if j = i then [p] else [])"
  by (simp_all add: queued_def transmitted_def)

text \<open>
  What the receiving side reads in a packet: the length of the header, which it checks, the flags,
  the sequence number and the data.
\<close>

definition packet_hlen :: "bytes \<Rightarrow> nat" where
  "packet_hlen p = unat (th_hlen (get_tcphdr p) AND TCP_MASK_HLEN) div 16 * 4"

definition packet_flags :: "bytes \<Rightarrow> u32" where
  "packet_flags p = ucast (th_flags (get_tcphdr p))"

definition packet_seq :: "bytes \<Rightarrow> u32" where
  "packet_seq p = ntohl (th_seq (get_tcphdr p))"

definition packet_data :: "bytes \<Rightarrow> bytes" where
  "packet_data p = drop (packet_hlen p) p"

text \<open>The packet holds the stream from a position on, and its end only if that follows.\<close>

definition packet_at :: "u32 \<Rightarrow> bytes \<Rightarrow> nat \<Rightarrow> bytes \<Rightarrow> bool" where
  "packet_at iss A n p \<longleftrightarrow> length (packet_data p) < 2 ^ 16
     \<and> packet_data p = take (length (packet_data p)) (drop n A) \<and> n \<le> length A + 1
     \<and> (has (packet_flags p) TCP_FIN \<longrightarrow> n + length (packet_data p) = length A)
     \<and> (if has (packet_flags p) TCP_SYN then packet_seq p = iss \<and> n = 0 else packet_seq p = seq_at iss n)"

definition packet_reset :: "bytes \<Rightarrow> bool" where
  "packet_reset p \<longleftrightarrow> has (packet_flags p) TCP_RST \<and> \<not> has (packet_flags p) TCP_SYN \<and> \<not> has (packet_flags p) TCP_FIN \<and> packet_data p = []"

definition packet_ok :: "u32 \<Rightarrow> bytes \<Rightarrow> bytes \<Rightarrow> bool" where
  "packet_ok iss A p \<longleftrightarrow> packet_hlen p < sizeof_tcphdr \<or> packet_reset p \<or> (\<exists>n. packet_at iss A n p)"

text \<open>More data does not change what was sent before, unless its end was sent.\<close>

lemma packet_at_append:
  assumes "packet_at iss A n p" and "B = [] \<or> \<not> has (packet_flags p) TCP_FIN"
  shows "packet_at iss (A @ B) n p"
proof -
  let ?d = "packet_data p"
  have "?d = take (length ?d) (drop n A)" using assms(1) by (simp add: packet_at_def)
  then have "length ?d \<le> length A - n" by (metis length_drop length_take min.cobounded1)
  then have "take (length ?d) (drop n (A @ B)) = take (length ?d) (drop n A)" by simp
  then show ?thesis using assms unfolding packet_at_def by auto
qed

lemma packet_ok_append: "packet_ok iss A p \<Longrightarrow> B = [] \<or> \<not> has (packet_flags p) TCP_FIN \<Longrightarrow> packet_ok iss (A @ B) p"
  unfolding packet_ok_def by (blast intro: packet_at_append)

section \<open>The packet that is built\<close>

lemma length_tcphdr [simp]: "length (tcphdr_bytes h) = 20"
  by (simp add: tcphdr_bytes_def)

lemma get_tcphdr_bytes [simp]: "get_tcphdr (tcphdr_bytes h @ x) = h"
  by (simp add: get_tcphdr_def tcphdr_bytes_def nth_append)

lemma length_tcp_options:
  "length (tcp_mss_option a) = 4" "length (tcp_window_scale_padded_option b) = 4" "length tcp_sack_permitted_padded_option = 4"
  "length (tcp_timestamp_padded_option c d) = 12" "length (tcp_sack_padded_option e) = 4 + 8 * length e"
  by (simp_all add: tcp_mss_option_def tcp_window_scale_padded_option_def tcp_sack_permitted_padded_option_def tcp_timestamp_padded_option_def
      tcp_sack_padded_option_def length_concat case_prod_beta comp_def sum_list_triv)

lemma sack_remaining_max: "length new \<le> TCP_SACK_MAX \<Longrightarrow> length (sack_remaining tcp olds new) \<le> TCP_SACK_MAX"
  by (induction tcp olds new rule: sack_remaining.induct) (auto split: option.split)

lemma sack_max: "snd (tcp_sack tcp seq) \<le> TCP_SACK_MAX"
  unfolding tcp_sack_def Let_def by (auto simp: TCP_SACK_MAX_def intro!: sack_remaining_max [unfolded TCP_SACK_MAX_def] split: option.split)

text \<open>
  The options of a SYN that also selectively acknowledges more than one block, in a simultaneous open, take more
  than the 40 bytes for which the field in the header has room; all others fit.
\<close>

lemma tx_options_length:
  assumes "tcp_tx_options env fl seq tcp = (tcp', options)"
  shows "4 dvd length (concat options)" and "length (concat options) \<le> 40 \<or> length (concat options) \<in> {44, 52}"
proof -
  define syn where "syn = (if has fl TCP_SYN then
      [tcp_mss_option (htons (ucast (tcp_mss tcp))), tcp_window_scale_padded_option TCP_RX_WINDOW_SCALE, tcp_sack_permitted_padded_option] else [])"
  define ts where "ts = (if has fl TCP_SYN \<or> has (tcp_flags tcp) TCP_TS_ENABLED then
      [tcp_timestamp_padded_option (htonl (ucast (te_now env))) (htonl (ts_recent tcp))] else [])"
  have l: "length (concat syn) = (if has fl TCP_SYN then 12 else 0)" "length (concat ts) = 12 \<or> length (concat ts) = 0"
    by (auto simp: syn_def ts_def length_tcp_options)
  have "\<exists>n \<le> 3. length (concat options) = length (concat syn) + length (concat ts) + (if n = 0 then 0 else 4 + 8 * n)"
  proof (cases "has (tcp_flags tcp) TCP_SACK_ENABLED \<and> rx_queue tcp \<noteq> []")
    case True
    obtain t n where n: "tcp_sack tcp seq = (t, n)" by (metis surj_pair)
    have len: "length (tcp_sacks t) = TCP_SACK_MAX \<or> n \<le> length (tcp_sacks t)" using n by (auto simp: tcp_sack_def Let_def)
    have "n \<le> 3" using sack_max [of tcp seq] n by (simp add: TCP_SACK_MAX_def)
    moreover have "n \<le> length (tcp_sacks t)" using len \<open>n \<le> 3\<close> by (auto simp: TCP_SACK_MAX_def)
    moreover have "options = syn @ ts @ (if n \<noteq> 0 then [tcp_sack_padded_option (take n (tcp_sacks t))] else [])"
      using assms(1) True n unfolding tcp_tx_options_def Let_def syn_def [symmetric] ts_def [symmetric] by simp
    ultimately show ?thesis by (intro exI [of _ n]) (auto simp: length_tcp_options)
  next
    case False
    then have "options = syn @ ts" using assms(1) unfolding tcp_tx_options_def Let_def syn_def [symmetric] ts_def [symmetric] by auto
    then show ?thesis by (intro exI [of _ 0]) simp
  qed
  then obtain n where n: "n \<le> 3" "length (concat options) = length (concat syn) + length (concat ts) + (if n = 0 then 0 else 4 + 8 * n)"
    by blast
  obtain a b where ab: "length (concat syn) = 12 * a" "length (concat ts) = 12 * b" "a \<le> 1" "b \<le> 1"
    using l by (metis le_refl mult.right_neutral mult_0_right zero_le_one)
  have "length (concat options) = 4 * (3 * a + 3 * b + (if n = 0 then 0 else 1 + 2 * n))" using n(2) ab by simp
  moreover have "n = 0 \<or> n = 1 \<or> n = 2 \<or> n = 3" using n(1) by linarith
  moreover have "a = 0 \<or> a = 1" "b = 0 \<or> b = 1" using ab(3,4) by linarith+
  ultimately show "4 dvd length (concat options)" "length (concat options) \<le> 40 \<or> length (concat options) \<in> {44, 52}" by auto
qed

lemma hlen_field:
  assumes "4 dvd n" and "n \<le> 40 \<or> n \<in> {44, 52}"
  shows "unat ((of_nat ((n + sizeof_tcphdr) * 4) :: u8) AND TCP_MASK_HLEN) div 16 * 4 = n + sizeof_tcphdr
    \<or> unat ((of_nat ((n + sizeof_tcphdr) * 4) :: u8) AND TCP_MASK_HLEN) div 16 * 4 < sizeof_tcphdr"
proof -
  obtain k where k: "n = 4 * k" "k \<le> 10 \<or> k = 11 \<or> k = 13" using assms by (auto simp: dvd_def)
  have "list_all (\<lambda>k. unat ((of_nat ((4 * k + sizeof_tcphdr) * 4) :: u8) AND TCP_MASK_HLEN) div 16 * 4 = 4 * k + sizeof_tcphdr
    \<or> unat ((of_nat ((4 * k + sizeof_tcphdr) * 4) :: u8) AND TCP_MASK_HLEN) div 16 * 4 < sizeof_tcphdr) [0..<14]" by code_simp
  then show ?thesis using k by (auto simp: list_all_iff)
qed

lemma push_all_header [simp]:
  "get_tcphdr (tcphdr_bytes h @ x) = h" "packet_hlen (tcphdr_bytes h @ x) = unat (th_hlen h AND TCP_MASK_HLEN) div 16 * 4"
  "packet_flags (tcphdr_bytes h @ x) = ucast (th_flags h)" "packet_seq (tcphdr_bytes h @ x) = ntohl (th_seq h)"
  by (simp_all add: packet_hlen_def packet_flags_def packet_seq_def)

lemma flags_u8: "ucast (ucast v :: u8) = v AND 0xff" for v :: u32
proof -
  have "(0xff :: u32) = mask 8" by (simp add: mask_eq_exp_minus_1)
  show ?thesis unfolding \<open>0xff = mask 8\<close> by (rule bit_eqI) (auto simp: bit_simps)
qed

lemma tx_packet_fields:
  assumes "packet_hlen (tx_packet env seq fl len c tcp) \<ge> sizeof_tcphdr" and "fl AND 0xff = fl"
  shows "packet_data (tx_packet env seq fl len c tcp) = take len (concat (tx_queue tcp))"
    and "packet_flags (tx_packet env seq fl len c tcp) = (if len \<noteq> 0 then fl OR TCP_PSH else fl)"
    and "packet_seq (tx_packet env seq fl len c tcp) = snd_seq tcp"
proof -
  obtain tcp1 options where o: "tcp_tx_options env fl seq (tcp_expand_window env tcp) = (tcp1, options)" by (metis surj_pair)
  let ?fl = "if len \<noteq> 0 then fl OR TCP_PSH else fl"
  define h where "h = (tcp_make_header tcp1 ?fl (length (concat options) + sizeof_tcphdr))\<lparr>th_csum := c\<rparr>"
  have p: "tx_packet env seq fl len c tcp = tcphdr_bytes h @ concat (rev options) @ take len (concat (tx_queue tcp))"
    by (simp add: tx_packet_def o h_def process_tx_queue_data)
  have hl: "packet_hlen (tx_packet env seq fl len c tcp) = length (concat options) + sizeof_tcphdr"
    using hlen_field [OF tx_options_length [OF o]] assms(1) by (auto simp: p h_def tcp_make_header_def)
  have "length (concat (rev options)) = length (concat options)" by (simp add: length_concat rev_map [symmetric])
  then show "packet_data (tx_packet env seq fl len c tcp) = take len (concat (tx_queue tcp))"
    unfolding packet_data_def hl by (simp add: p sizeof_tcphdr_def)
  have "snd_seq tcp1 = snd_seq (tcp_expand_window env tcp)"
    using xmit_frame_options [of "tcp_expand_window env tcp" env fl seq] o by (auto simp: xmit_frame_def)
  then show "packet_seq (tx_packet env seq fl len c tcp) = snd_seq tcp"
    using xmit_frame_window [of tcp env] by (auto simp: p h_def tcp_make_header_def xmit_frame_def ntohl_def htonl_def bswap_32_twice)
  have "?fl AND 0xff = ?fl" using assms(2) by (simp add: bit.conj_disj_distrib2 TCP_PSH_def)
  then have "ucast (ucast ?fl :: u8) = ?fl" by (simp add: flags_u8)
  then show "packet_flags (tx_packet env seq fl len c tcp) = ?fl" by (simp add: p h_def tcp_make_header_def)
qed

section \<open>The sending side of a connection\<close>

text \<open>
  Of the bytes A that the application handed over, the first n are acknowledged and the others are
  in the queue. The next sequence number is that of the SYN, or of position n, or the one after the
  FIN; and no more is in flight than was sent from there.
\<close>

definition send_state :: "u32 \<Rightarrow> bytes \<Rightarrow> nat \<Rightarrow> tcp_connection \<Rightarrow> bool" where
  "send_state iss A n tcp \<longleftrightarrow>
     (let st = tcp_state tcp
      in bit st 1 \<and> \<not> bit st 2 \<and> (bit st 8 \<longrightarrow> bit st 0) \<and> (bit st 0 \<longrightarrow> tx_queue tcp = [] \<and> has (tcp_flags tcp) TCP_XFER_CLOSED)
         \<and> n \<le> length A \<and> concat (tx_queue tcp) = drop n A
         \<and> (if bit st 9 then (snd_seq tcp = seq_at iss n \<or> bit st 8 \<and> snd_seq tcp = seq_at iss (n + 1))
              \<and> unat (snd_sent tcp) \<le> (if bit st 8 then 0 else if bit st 0 then 1 else length (concat (tx_queue tcp)))
            else n = 0 \<and> snd_seq tcp = iss \<and> \<not> bit st 8 \<and> unat (snd_sent tcp) \<le> 1))"

text \<open>
  Every packet in the log is in order. The second argument is what the application had handed over, and whether it
  had closed the connection, at an earlier time: more may have been added since then unless it had.
\<close>

definition log_ok :: "u32 \<Rightarrow> bytes \<times> bool \<Rightarrow> tcp_connection \<Rightarrow> tcp_event list \<Rightarrow> bool" where
  "log_ok iss g tcp es \<longleftrightarrow> (\<forall>p \<in> set (transmitted (tcp_id tcp) es). packet_ok iss (queued (tcp_id tcp) es) p
     \<and> (has (packet_flags p) TCP_FIN \<longrightarrow> packet_hlen p < sizeof_tcphdr \<or> has (tcp_flags tcp) TCP_XFER_CLOSED))
     \<and> prefix (fst g) (queued (tcp_id tcp) es) \<and> (snd g \<longrightarrow> queued (tcp_id tcp) es = fst g \<and> has (tcp_flags tcp) TCP_XFER_CLOSED)"

definition tx_inv :: "u32 \<Rightarrow> bytes \<times> bool \<Rightarrow> tcp_connection \<Rightarrow> tcp_event list \<Rightarrow> bool" where
  "tx_inv iss g tcp es \<longleftrightarrow> log_ok iss g tcp es
     \<and> (if on_list tcp then \<exists>n. send_state iss (queued (tcp_id tcp) es) n tcp else tcp_state tcp = TCP_CLOSED \<and> has (tcp_flags tcp) TCP_XFER_CLOSED)"

text \<open>What does not concern the sending side.\<close>

definition tx_frame :: "tcp_connection \<Rightarrow> tcp_connection \<Rightarrow> bool" where
  "tx_frame tcp tcp' \<longleftrightarrow> tcp_id tcp' = tcp_id tcp \<and> on_list tcp' = on_list tcp \<and> tx_queue tcp' = tx_queue tcp \<and> snd_seq tcp' = snd_seq tcp
     \<and> snd_sent tcp' = snd_sent tcp \<and> (has (tcp_flags tcp) TCP_XFER_CLOSED \<longrightarrow> has (tcp_flags tcp') TCP_XFER_CLOSED)
     \<and> (\<forall>k \<in> {0, 1, 2, 8, 9}. bit (tcp_state tcp') k = bit (tcp_state tcp) k) \<and> (\<not> on_list tcp \<longrightarrow> tcp_state tcp' = tcp_state tcp)"

definition log_frame :: "nat \<Rightarrow> tcp_event list \<Rightarrow> tcp_event list \<Rightarrow> bool" where
  "log_frame i es es' \<longleftrightarrow> queued i es' = queued i es \<and> transmitted i es' = transmitted i es"

lemma send_state_frame: "send_state iss A n tcp \<Longrightarrow> tx_frame tcp tcp' \<Longrightarrow> send_state iss A n tcp'"
  unfolding send_state_def tx_frame_def Let_def by auto

lemma tx_inv_frame:
  assumes "tx_inv iss g tcp es" and f: "tx_frame tcp tcp'" and l: "log_frame (tcp_id tcp) es es'"
  shows "tx_inv iss g tcp' es'"
proof -
  have "log_ok iss g tcp' es'" using assms unfolding tx_inv_def log_ok_def log_frame_def tx_frame_def by auto
  moreover have "on_list tcp' = on_list tcp" "queued (tcp_id tcp') es' = queued (tcp_id tcp) es" using f l by (simp_all add: tx_frame_def log_frame_def)
  moreover have "\<not> on_list tcp \<Longrightarrow> tcp_state tcp' = TCP_CLOSED \<and> has (tcp_flags tcp') TCP_XFER_CLOSED" using assms(1) f by (simp add: tx_inv_def tx_frame_def)
  ultimately show ?thesis using assms(1) send_state_frame [OF _ f] unfolding tx_inv_def by (auto split: if_splits)
qed

lemma log_frame_refl [simp, intro]: "log_frame i es es"
  by (simp add: log_frame_def)

lemma log_ok_append:
  assumes "log_ok iss g tcp es" and "packet_ok iss (queued (tcp_id tcp) es) p"
    and "has (packet_flags p) TCP_FIN \<longrightarrow> packet_hlen p < sizeof_tcphdr \<or> has (tcp_flags tcp) TCP_XFER_CLOSED"
  shows "log_ok iss g tcp (es @ [Transmit (tcp_id tcp) p])"
  using assms by (auto simp: log_ok_def)

text \<open>The number of bytes that is sent, and the flags.\<close>

lemma tx_len_le: "tx_len tcp \<le> TCP_PATH_MTU" "tx_len tcp \<le> length (concat (tx_queue tcp))" "\<not> TCP_CAN_SEND_DATA (tcp_state tcp) \<Longrightarrow> tx_len tcp = 0"
  by (auto simp: tx_len_def process_tx_queue_data tcp_xmit_win_def Let_def)

lemma sending_syn_fin: "has (TCP_FLAGS_SENDING st) (TCP_SYN OR TCP_FIN) \<longleftrightarrow> bit st 0 \<and> \<not> bit st 8 \<or> bit st 1 \<and> \<not> bit st 9"
proof -
  have "has (TCP_FLAGS_SENDING st) (TCP_SYN OR TCP_FIN) \<longleftrightarrow> has (TCP_FLAGS_SENDING st) TCP_SYN \<or> has (TCP_FLAGS_SENDING st) TCP_FIN"
    by (auto simp: has_def bit.conj_disj_distrib or_eq_0_iff)
  then show ?thesis by (auto simp: tcp_bits sending_bit)
qed

lemma send_state_sent:
  assumes "send_state iss A n tcp"
  shows "send_state iss A n (tcp\<lparr>snd_sent := tx_seq_len tcp\<rparr>)"
proof -
  have "of_nat (tx_len tcp) < (2 ^ 31 :: u32)" "unat (of_nat (tx_len tcp) :: u32) = tx_len tcp"
    using tx_len_le(1) [of tcp] by (auto simp: TCP_PATH_MTU_def unat_of_nat word_less_nat_alt)
  then show ?thesis using assms tx_len_le(2,3) [of tcp]
    unfolding send_state_def Let_def tx_seq_len_def sending_syn_fin can_send_bits by auto
qed

lemma sending_u8: "TCP_FLAGS_SENDING st AND 0xff = TCP_FLAGS_SENDING st"
  unfolding TCP_FLAGS_SENDING_def TCP_FLAGS_SENT_def by (simp add: and.commute and.left_commute)

lemma psh_bits: "has (if len \<noteq> 0 then fl OR TCP_PSH else fl) TCP_FIN \<longleftrightarrow> bit fl 0" "has (if len \<noteq> 0 then fl OR TCP_PSH else fl) TCP_SYN \<longleftrightarrow> bit fl 1"
  "has (if len \<noteq> 0 then fl OR TCP_PSH else fl) TCP_RST \<longleftrightarrow> bit fl 2"
  by (auto simp: tcp_bits TCP_PSH_def bit_simps)

lemma tx_packet_ok:
  assumes st: "send_state iss A n tcp" and k: "tx_queue tcp2 = tx_queue tcp" "snd_seq tcp2 = snd_seq tcp"
    and p: "p = tx_packet env seq (TCP_FLAGS_SENDING (tcp_state tcp)) (tx_len tcp) c tcp2" and h: "\<not> packet_hlen p < sizeof_tcphdr"
  shows "\<exists>n. packet_at iss A n p" and "has (packet_flags p) TCP_FIN \<longrightarrow> has (tcp_flags tcp) TCP_XFER_CLOSED"
proof -
  let ?st = "tcp_state tcp" and ?l = "tx_len tcp"
  have "sizeof_tcphdr \<le> packet_hlen (tx_packet env seq (TCP_FLAGS_SENDING ?st) ?l c tcp2)" using h p by simp
  note f = tx_packet_fields [OF this sending_u8, folded p, unfolded k]
  have s: "bit ?st 1" "bit ?st 0 \<Longrightarrow> concat (tx_queue tcp) = [] \<and> has (tcp_flags tcp) TCP_XFER_CLOSED" "n \<le> length A" "concat (tx_queue tcp) = drop n A"
    using st by (auto simp: send_state_def Let_def)
  have fl: "has (packet_flags p) TCP_FIN \<longleftrightarrow> bit ?st 0 \<and> \<not> bit ?st 8" "has (packet_flags p) TCP_SYN \<longleftrightarrow> \<not> bit ?st 9"
    unfolding f psh_bits using sending_bit [of 0 ?st] sending_bit [of 1 ?st] s(1) by simp_all
  have d: "packet_data p = take ?l (drop n A)" "length (packet_data p) = ?l" "?l < 2 ^ 16"
    using tx_len_le(1,2) [of tcp] f(1) s(4) by (auto simp: TCP_PATH_MTU_def)
  have fin: "n + ?l = length A" if "bit ?st 0" using s(2) [OF that] s(3) tx_len_le(2) [of tcp, unfolded s(4)] unfolding s(4) by simp
  show "has (packet_flags p) TCP_FIN \<longrightarrow> has (tcp_flags tcp) TCP_XFER_CLOSED" using fl(1) s(2) by blast
  show "\<exists>n. packet_at iss A n p"
  proof (cases "bit ?st 9 \<and> snd_seq tcp \<noteq> seq_at iss n")
    case False
    then have "if bit ?st 9 then snd_seq tcp = seq_at iss n else snd_seq tcp = iss \<and> n = 0" using st by (auto simp: send_state_def Let_def)
    then have "packet_at iss A n p" using d fl fin s(3) f(3) by (auto simp: packet_at_def)
    then show ?thesis ..
  next
    case True
    then have "bit ?st 8" "snd_seq tcp = seq_at iss (n + 1)" "bit ?st 0" using st by (auto simp: send_state_def Let_def)
    moreover have "drop n A = []" using s(2) [OF \<open>bit ?st 0\<close>] s(4) by simp
    ultimately have "packet_at iss A (n + 1) p" using True d fl s(3) f(3) by (auto simp: packet_at_def)
    then show ?thesis ..
  qed
qed

text \<open>A buffer that is allocated holds no data.\<close>

definition alloc_ok :: "'s tcp_env \<Rightarrow> bool" where
  "alloc_ok env \<longleftrightarrow> (\<forall>n b. te_alloc env n = Some b \<longrightarrow> iob_data b = [])"

lemma alloc_iob_data: "alloc_ok env \<Longrightarrow> tcp_alloc_iob env n tcp sh = (tcp', sh', Some b) \<Longrightarrow> iob_data b = []"
  by (auto simp: tcp_alloc_iob_def alloc_ok_def split: prod.splits)

lemma alloc_frame: "tcp_alloc_iob env n tcp sh = (tcp', sh', r) \<Longrightarrow> tx_frame tcp tcp'"
proof -
  have d: "tx_frame tcp (fst (tcp_discard_one tcp sh))" for tcp and sh :: "'s tcp_shared" by (simp add: tcp_discard_one_def tx_frame_def)
  have t: "tx_frame a b \<Longrightarrow> tx_frame b c \<Longrightarrow> tx_frame a c" for a b c by (auto simp: tx_frame_def)
  have "tx_frame tcp (fst (((\<lambda>(tcp, sh). tcp_discard_one tcp sh) ^^ k) (tcp, sh)))" for k
  proof (induction k)
    case (Suc k)
    show ?case by (simp add: case_prod_beta) (rule t [OF Suc [unfolded case_prod_beta] d])
  qed (simp add: tx_frame_def)
  then show "tcp_alloc_iob env n tcp sh = (tcp', sh', r) \<Longrightarrow> ?thesis" by (auto simp: tcp_alloc_iob_def case_prod_beta)
qed

lemma xmit_packet_frame: "tcp_xmit_packet env seq fl len b tcp sh = Some (tcp', sh') \<Longrightarrow> tx_frame tcp tcp'"
proof -
  have o: "snd_sent (fst (tcp_tx_options env fl seq t)) = snd_sent t" for t by (simp add: tcp_tx_options_def tcp_sack_def Let_def)
  have w: "snd_sent (tcp_expand_window env t) = snd_sent t" for t by (simp add: tcp_expand_window_def Let_def)
  assume x: "tcp_xmit_packet env seq fl len b tcp sh = Some (tcp', sh')"
  then have "snd_sent tcp' = snd_sent tcp" by (rule xmit_packet_transmits) (use o [of "tcp_expand_window env tcp"] w in auto)
  then show ?thesis using xmit_frame_packet [OF x] by (auto simp: xmit_frame_def tx_frame_def tcp_bits TCP_ACK_PENDING_def bit_simps)
qed

text \<open>A deleted connection sends nothing but resets.\<close>

lemma closed_packet:
  assumes "tcp_state tcp = TCP_CLOSED" and p: "p = tx_packet env seq (TCP_FLAGS_SENDING (tcp_state tcp)) (tx_len tcp) c tcp2" and h: "\<not> packet_hlen p < sizeof_tcphdr"
  shows "packet_reset p" and "\<not> has (packet_flags p) TCP_FIN"
proof -
  have l: "tx_len tcp = 0" using assms(1) by (intro tx_len_le(3)) (simp add: can_send_bits TCP_CLOSED_def TCP_RST_def bit_simps)
  have "sizeof_tcphdr \<le> packet_hlen (tx_packet env seq (TCP_FLAGS_SENDING (tcp_state tcp)) (tx_len tcp) c tcp2)" using h p by simp
  note f = tx_packet_fields [OF this sending_u8, folded p]
  have "packet_data p = []" using f(1) by (simp add: l)
  moreover have b: "has (packet_flags p) TCP_RST" "\<not> has (packet_flags p) TCP_SYN" "\<not> has (packet_flags p) TCP_FIN"
    unfolding f psh_bits using sending_bit [of 0 TCP_CLOSED] sending_bit [of 1 TCP_CLOSED] sending_bit [of 2 TCP_CLOSED] assms(1)
    by (simp_all add: TCP_CLOSED_def TCP_RST_def bit_simps)
  ultimately show "packet_reset p" "\<not> has (packet_flags p) TCP_FIN" by (simp_all add: packet_reset_def)
qed

lemma tx_inv_sent: "tx_inv iss g tcp es \<Longrightarrow> tx_inv iss g (tcp\<lparr>snd_sent := tx_seq_len tcp\<rparr>) es"
  using send_state_sent [of iss "queued (tcp_id tcp) es" _ tcp] by (cases "on_list tcp") (auto simp: tx_inv_def log_ok_def)

lemma tx_inv_packet:
  assumes inv: "tx_inv iss g tcp es" and k: "tx_frame (tcp\<lparr>snd_sent := tx_seq_len tcp\<rparr>) tcp2"
    and p: "p = tx_packet env seq (TCP_FLAGS_SENDING (tcp_state tcp)) (tx_len tcp) c tcp2"
  shows "tx_inv iss g (tcp\<lparr>snd_sent := tx_seq_len tcp\<rparr>) (es @ [Transmit (tcp_id tcp) p])"
proof -
  let ?t = "tcp\<lparr>snd_sent := tx_seq_len tcp\<rparr>"
  have "packet_ok iss (queued (tcp_id tcp) es) p \<and> (has (packet_flags p) TCP_FIN \<longrightarrow> packet_hlen p < sizeof_tcphdr \<or> has (tcp_flags tcp) TCP_XFER_CLOSED)"
  proof (cases "on_list tcp")
    case True
    then obtain n where "send_state iss (queued (tcp_id tcp) es) n tcp" using inv by (auto simp: tx_inv_def)
    from tx_packet_ok [OF this _ _ p] k show ?thesis unfolding packet_ok_def tx_frame_def by auto
  next
    case False
    then have "tcp_state tcp = TCP_CLOSED" using inv by (auto simp: tx_inv_def)
    from closed_packet [OF this p] show ?thesis unfolding packet_ok_def by auto
  qed
  then have "log_ok iss g ?t (es @ [Transmit (tcp_id ?t) p])" using tx_inv_sent [OF inv] by (intro log_ok_append) (auto simp: tx_inv_def)
  then show ?thesis using tx_inv_sent [OF inv] by (cases "on_list tcp") (auto simp: tx_inv_def)
qed

lemma tx_inv_xmit_sack:
  assumes inv: "tx_inv iss g tcp (sh_log sh)" and al: "alloc_ok env" and x: "tcp_xmit_sack env seq tcp sh = Some (tcp', sh')"
  shows "tx_inv iss g tcp' (sh_log sh')"
  using x
proof (cases rule: xmit_sack_cases)
  case (3 sh1 n)
  then have "sh_log sh' = sh_log sh" using log_alloc [OF 3(1)] by auto
  then show ?thesis using tx_inv_frame [OF tx_inv_sent [OF inv] alloc_frame [OF 3(1)]] by simp
next
  case (4 sh1 n tcp2 sh2 iobuf)
  have l: "sh_log sh2 = sh_log sh" using log_alloc [OF 4(1)] 4(2) by auto
  have f: "tx_frame (tcp\<lparr>snd_sent := tx_seq_len tcp\<rparr>) tcp2" by (rule alloc_frame [OF 4(1)])
  then have i: "tcp_id tcp2 = tcp_id tcp" by (simp add: tx_frame_def)
  obtain c where c: "sh_log sh' = sh_log sh @ [Transmit (tcp_id tcp) (tx_packet env seq (TCP_FLAGS_SENDING (tcp_state tcp)) (tx_len tcp) c tcp2)]"
    using log_xmit_packet [OF 4(3)] alloc_iob_data [OF al 4(1)] l i by auto
  have "tx_frame (tcp\<lparr>snd_sent := tx_seq_len tcp\<rparr>) tcp'" using f xmit_packet_frame [OF 4(3)] by (auto simp: tx_frame_def)
  then show ?thesis unfolding c by (rule tx_inv_frame [OF tx_inv_packet [OF inv f refl] _ log_frame_refl])
qed (use inv tx_inv_sent in auto)

section \<open>Acknowledgements\<close>

lemma acked_flags_zero: "acked_flags tcp = 0 \<longleftrightarrow> (bit (tcp_state tcp) 0 \<longrightarrow> bit (tcp_state tcp) 8) \<and> (bit (tcp_state tcp) 1 \<longrightarrow> bit (tcp_state tcp) 9)"
proof -
  have "acked_flags tcp = 0 \<longleftrightarrow> \<not> has (TCP_FLAGS_SENDING (tcp_state tcp)) (TCP_SYN OR TCP_FIN)" by (simp add: acked_flags_def has_def)
  then show ?thesis unfolding sending_syn_fin by blast
qed

lemma acked_bits:
  "bit (acked_state tcp ack) 0 \<longleftrightarrow> bit (tcp_state tcp) 0 \<or> unacked_queue tcp ack = [] \<and> has (tcp_flags tcp) TCP_XFER_CLOSED"
  "bit (acked_state tcp ack) 1 \<longleftrightarrow> bit (tcp_state tcp) 1" "bit (acked_state tcp ack) 2 \<longleftrightarrow> bit (tcp_state tcp) 2"
  "bit (acked_state tcp ack) 8 \<longleftrightarrow> bit (tcp_state tcp) 8 \<or> bit (tcp_state tcp) 0" "bit (acked_state tcp ack) 9 \<longleftrightarrow> bit (tcp_state tcp) 9 \<or> bit (tcp_state tcp) 1"
proof -
  define st where "st = (if acked_flags tcp \<noteq> 0 then tcp_state tcp OR TCP_STATE_ACKED (acked_flags tcp) else tcp_state tcp)"
  have b: "bit st k \<longleftrightarrow> bit (tcp_state tcp) k" if "k < 8" for k using that by (simp add: st_def TCP_STATE_ACKED_def bit_simps)
  have b8: "bit st 8 \<longleftrightarrow> bit (tcp_state tcp) 8 \<or> bit (tcp_state tcp) 0" and b9: "bit st 9 \<longleftrightarrow> bit (tcp_state tcp) 9 \<or> bit (tcp_state tcp) 1"
    using acked_flags_zero [of tcp] sending_bit [of 0 "tcp_state tcp"] sending_bit [of 1 "tcp_state tcp"]
    by (auto simp: st_def TCP_STATE_ACKED_def bit_simps acked_flags_bit)
  have f: "acked_state tcp ack = (if unacked_queue tcp ack = [] \<and> has (tcp_flags tcp) TCP_XFER_CLOSED \<and> \<not> bit st 0 then st OR 1 else st)"
    unfolding acked_state_def st_def [symmetric] fin_state_def tcp_bits by (simp add: TCP_STATE_SENT_def TCP_FIN_def)
  show "bit (acked_state tcp ack) 0 \<longleftrightarrow> bit (tcp_state tcp) 0 \<or> unacked_queue tcp ack = [] \<and> has (tcp_flags tcp) TCP_XFER_CLOSED"
    "bit (acked_state tcp ack) 1 \<longleftrightarrow> bit (tcp_state tcp) 1" "bit (acked_state tcp ack) 2 \<longleftrightarrow> bit (tcp_state tcp) 2"
    "bit (acked_state tcp ack) 8 \<longleftrightarrow> bit (tcp_state tcp) 8 \<or> bit (tcp_state tcp) 0" "bit (acked_state tcp ack) 9 \<longleftrightarrow> bit (tcp_state tcp) 9 \<or> bit (tcp_state tcp) 1"
    using b [of 0] b [of 1] b [of 2] b8 b9 unfolding f by (auto simp: bit_simps bit_1_iff)
qed

lemma send_state_acked:
  assumes st: "send_state iss A n tcp" and a: "ack \<noteq> snd_seq tcp" "ack - snd_seq tcp \<le> snd_sent tcp"
    and t: "tcp' = tcp\<lparr>snd_win := win, snd_seq := ack, snd_sent := 0, tx_queue := unacked_queue tcp ack, tcp_state := acked_state tcp ack,
         pending_flags := pf, pending_data := pd\<rparr>"
  shows "\<exists>n. send_state iss A n tcp'"
proof -
  let ?st = "tcp_state tcp" and ?d = "ack - snd_seq tcp"
  have s: "bit ?st 1" "\<not> bit ?st 2" "bit ?st 8 \<longrightarrow> bit ?st 0" "bit ?st 0 \<longrightarrow> tx_queue tcp = [] \<and> has (tcp_flags tcp) TCP_XFER_CLOSED"
      "n \<le> length A" "concat (tx_queue tcp) = drop n A"
    and q: "if bit ?st 9 then (snd_seq tcp = seq_at iss n \<or> bit ?st 8 \<and> snd_seq tcp = seq_at iss (n + 1))
              \<and> unat (snd_sent tcp) \<le> (if bit ?st 8 then 0 else if bit ?st 0 then 1 else length (concat (tx_queue tcp)))
            else n = 0 \<and> snd_seq tcp = iss \<and> \<not> bit ?st 8 \<and> unat (snd_sent tcp) \<le> 1"
    using st by (auto simp: send_state_def Let_def)
  have d: "unat ?d \<le> unat (snd_sent tcp)" "unat ?d \<noteq> 0" using a by (auto simp: word_le_nat_alt unat_eq_0)
  then have n8: "\<not> bit ?st 8" using q by (auto split: if_splits)
  have rest: "concat (unacked_queue tcp ack) = drop (acked_len tcp ack + n) A" by (simp add: unacked_queue_def process_tx_queue_rest s(6))
  have nil: "bit ?st 0 \<Longrightarrow> unacked_queue tcp ack = []" using s(4) by (simp add: unacked_queue_def)
  note b = acked_bits [of tcp ack] s(1-3) n8
  show ?thesis
  proof (cases "acked_flags tcp = 0")
    case True
    then have f: "bit ?st 9" "\<not> bit ?st 0" using s(1) n8 by (auto simp: acked_flags_zero)
    have l: "acked_len tcp ack = unat ?d" by (simp add: acked_len_def True)
    have "unat ?d \<le> length A - n" using d(1) q f n8 by (simp add: s(6))
    then have "unat ?d + n \<le> length A" using s(5) by simp
    moreover have "ack = seq_at iss (unat ?d + n)" using q f n8 by (simp add: seq_at_def algebra_simps)
    ultimately have "send_state iss A (unat ?d + n) tcp'" using b f rest l s(4) unfolding t send_state_def Let_def by simp
    then show ?thesis ..
  next
    case False
    then have f: "\<not> bit ?st 9 \<or> bit ?st 0" using s(1) n8 by (auto simp: acked_flags_zero)
    then have "unat ?d = 1" using d q n8 by (auto split: if_splits)
    then have "?d = 1" by (simp add: word_unat_eq_iff)
    then have ack: "ack = snd_seq tcp + 1" by (simp add: algebra_simps)
    have l: "acked_len tcp ack = 0" using False \<open>unat ?d = 1\<close> by (simp add: acked_len_def)
    have "ack = seq_at iss n \<or> bit ?st 0 \<and> ack = seq_at iss (n + 1)" using q f n8 ack by (auto simp: seq_at_def split: if_splits)
    then have "send_state iss A n tcp'" using b rest l nil s(4,5) unfolding t send_state_def Let_def by auto
    then show ?thesis ..
  qed
qed

lemma tx_inv_rx_ack:
  assumes inv: "tx_inv iss g tcp (sh_log sh)" and l: "on_list tcp" and r: "tcp_rx_ack env tcp ack win sh = (tcp', sh', r)"
  shows "tx_inv iss g tcp' (sh_log sh') \<and> on_list tcp'"
  using r
proof (cases rule: rx_ack_cases)
  case 2
  then show ?thesis using tx_inv_frame [OF inv, of tcp' "sh_log sh'"] l by (simp add: tx_frame_def)
next
  case (3 pf pd)
  obtain n where "send_state iss (queued (tcp_id tcp) (sh_log sh)) n tcp" using inv l by (auto simp: tx_inv_def)
  from send_state_acked [OF this 3(1,2,5)] show ?thesis using inv l unfolding tx_inv_def log_ok_def 3(4) by (simp add: 3(5))
qed (use inv l in simp)

section \<open>Closing and the application\<close>

lemma tx_frame_closed: "tx_frame tcp (tcp\<lparr>tcp_flags := tcp_flags tcp OR TCP_XFER_CLOSED\<rparr>)"
  by (simp add: tx_frame_def)

lemma send_state_fin:
  assumes "send_state iss A n tcp" and "tx_queue tcp = []" and "has (tcp_flags tcp) TCP_XFER_CLOSED" and "\<not> has (tcp_state tcp) (TCP_STATE_SENT TCP_FIN)"
  shows "send_state iss A n (tcp\<lparr>tcp_state := tcp_state tcp OR TCP_STATE_SENT TCP_FIN\<rparr>)"
proof -
  have b: "bit (tcp_state tcp OR TCP_STATE_SENT TCP_FIN) k \<longleftrightarrow> bit (tcp_state tcp) k \<or> k = 0" for k
    by (auto simp: TCP_STATE_SENT_def TCP_FIN_def bit_simps bit_1_iff)
  have "\<not> bit (tcp_state tcp) 0" using assms(4) by (simp add: tcp_bits)
  then show ?thesis using assms(1-3) by (auto simp: send_state_def Let_def b split: if_splits)
qed

lemma closed_self [simp]: "has TCP_XFER_CLOSED TCP_XFER_CLOSED"
  by (simp add: has_def TCP_XFER_CLOSED_def)

lemma tx_inv_close_ack:
  assumes inv: "tx_inv iss g tcp (sh_log sh)" and l: "on_list tcp" and c: "close_ack env tcp sh = (tcp', sh')"
  shows "tx_inv iss g tcp' (sh_log sh') \<and> on_list tcp'"
proof (cases "has (tcp_state tcp) (TCP_STATE_ACKED TCP_SYN)")
  case True
  then show ?thesis using c inv l by (simp add: close_ack_def)
next
  case False
  obtain t1 sh1 r where a: "tcp_rx_ack env tcp (snd_seq tcp + 1) 0 sh = (t1, sh1, r)" by (metis prod_cases3)
  then have "tcp' = t1" "sh' = sh1" using c False by (simp_all add: close_ack_def)
  then show ?thesis using tx_inv_rx_ack [OF inv l a] by simp
qed

lemma tx_inv_close:
  assumes lo: "log_ok iss g tcp (sh_log sh)"
    and st: "has (tcp_state tcp) (TCP_STATE_RCVD TCP_SYN) \<Longrightarrow> on_list tcp \<and> (\<exists>n. send_state iss (queued (tcp_id tcp) (sh_log sh)) n tcp)"
    and c: "tcp_close env tcp rc sh = (tcp', sh')"
  shows "tx_inv iss g tcp' (sh_log sh')"
  using c
proof (cases rule: close_cases)
  case (deleted n m)
  have "queued i (sh_log sh') = queued i (sh_log sh)" "transmitted i (sh_log sh') = transmitted i (sh_log sh)" for i by (simp_all add: deleted(3))
  then show ?thesis using lo unfolding tx_inv_def log_ok_def deleted(2) by auto
next
  case (closing tcp2 sh1 sh2 n p)
  let ?t = "tcp\<lparr>tcp_flags := tcp_flags tcp OR TCP_XFER_CLOSED\<rparr>"
  have "tx_inv iss g tcp (sh_log sh)" using lo st closing(1) by (simp add: tx_inv_def)
  then have "tx_inv iss g ?t (sh_log sh1)" by (rule tx_inv_frame [OF _ tx_frame_closed]) (simp add: log_frame_def closing(3))
  from tx_inv_close_ack [OF this _ closing(2)] have "tx_inv iss g tcp2 (sh_log sh2) \<and> on_list tcp2" using st closing(1) by simp
  then obtain k where k: "log_ok iss g tcp2 (sh_log sh2)" "on_list tcp2" "send_state iss (queued (tcp_id tcp2) (sh_log sh2)) k tcp2" by (auto simp: tx_inv_def)
  have fl: "has (tcp_flags tcp2) TCP_XFER_CLOSED" using close_ack_keeps [OF closing(2)] by simp
  define t3 where "t3 = (if tx_queue tcp2 = [] \<and> \<not> has (tcp_state tcp2) (TCP_STATE_SENT TCP_FIN) then tcp2\<lparr>tcp_state := tcp_state tcp2 OR TCP_STATE_SENT TCP_FIN\<rparr> else tcp2)"
  have "send_state iss (queued (tcp_id tcp2) (sh_log sh2)) k t3" using send_state_fin [OF k(3) _ fl] k(3) by (simp add: t3_def)
  then have "tx_inv iss g t3 (sh_log sh2)" using k(1,2) by (auto simp: tx_inv_def log_ok_def t3_def)
  then show ?thesis by (rule tx_inv_frame) (auto simp: tx_frame_def t3_def closing(4,5))
qed

lemma tx_inv_close_app:
  assumes inv: "tx_inv iss g tcp (sh_log sh)" and c: "tcp_close env tcp rc sh = (tcp', sh')"
  shows "tx_inv iss g tcp' (sh_log sh')"
proof (rule tx_inv_close [OF _ _ c])
  show "log_ok iss g tcp (sh_log sh)" using inv by (simp add: tx_inv_def)
  assume "has (tcp_state tcp) (TCP_STATE_RCVD TCP_SYN)"
  then have "on_list tcp" using inv by (auto simp: tx_inv_def tcp_bits TCP_CLOSED_def TCP_RST_def bit_simps split: if_splits)
  then show "on_list tcp \<and> (\<exists>n. send_state iss (queued (tcp_id tcp) (sh_log sh)) n tcp)" using inv by (simp add: tx_inv_def)
qed

lemma tx_inv_close_reset:
  assumes inv: "tx_inv iss g tcp (sh_log sh)" and c: "tcp_close env (tcp\<lparr>tcp_state := TCP_CLOSED\<rparr>) rc sh = (tcp', sh')"
  shows "tx_inv iss g tcp' (sh_log sh')"
  by (rule tx_inv_close [OF _ _ c]) (use inv in \<open>auto simp: tx_inv_def log_ok_def tcp_bits TCP_CLOSED_def TCP_RST_def bit_simps\<close>)

lemma send_state_queued:
  assumes "send_state iss A n tcp" and "\<not> has (tcp_flags tcp) TCP_XFER_CLOSED"
  shows "send_state iss (A @ B) n (tcp\<lparr>tx_queue := tx_queue tcp @ [B], pending_data := k\<rparr>)"
  using assms unfolding send_state_def Let_def by (auto split: if_splits)

lemma tx_inv_deliver:
  assumes inv: "tx_inv iss g tcp (sh_log sh)" and nc: "\<not> has (tcp_flags tcp) TCP_XFER_CLOSED" and al: "alloc_ok env" and x: "tcp_xfer_deliver env tcp iobuf sh = Some (tcp', sh')"
  shows "tx_inv iss g tcp' (sh_log sh')"
proof -
  let ?sh = "log_event (Queued (tcp_id tcp) iobuf) sh"
  let ?t = "tcp\<lparr>tx_queue := tx_queue tcp @ [iobuf], pending_data := fst (pending_get (pending_data tcp) ?sh)\<rparr>"
  have l: "on_list tcp" using inv nc by (auto simp: tx_inv_def split: if_splits)
  then obtain n where n: "send_state iss (queued (tcp_id tcp) (sh_log sh)) n tcp" using inv by (auto simp: tx_inv_def)
  have "packet_ok iss (queued (tcp_id tcp) (sh_log sh) @ iobuf) p" if "p \<in> set (transmitted (tcp_id tcp) (sh_log sh))" for p
    using inv nc that packet_ok_append [of iss "queued (tcp_id tcp) (sh_log sh)" p iobuf] unfolding tx_inv_def log_ok_def packet_ok_def by blast
  moreover have "log_ok iss g tcp (sh_log sh)" using inv by (simp add: tx_inv_def)
  ultimately have "log_ok iss g ?t (sh_log ?sh)" using nc by (auto simp: log_ok_def)
  then have "tx_inv iss g ?t (sh_log (snd (pending_get (pending_data tcp) ?sh)))"
    using send_state_queued [OF n nc, of iobuf] l by (auto simp: tx_inv_def)
  from tx_inv_xmit_sack [OF this al] show ?thesis using x by (simp add: tcp_xfer_deliver_def tcp_xmit_def case_prod_beta)
qed

lemma tx_inv_app_calls:
  "app_calls env calls tcp sh = Some (tcp', sh') \<Longrightarrow> tx_inv iss g tcp (sh_log sh) \<Longrightarrow> alloc_ok env \<Longrightarrow> tx_inv iss g tcp' (sh_log sh')"
proof (induction env calls tcp sh rule: app_calls.induct)
  case (2 env rc calls tcp sh)
  show ?case
  proof (cases "has (tcp_flags tcp) TCP_XFER_CLOSED")
    case True
    then show ?thesis using 2 by simp
  next
    case False
    then obtain t1 sh1 where x: "tcp_xfer_close env tcp rc sh = Some (t1, sh1)" "app_calls env calls t1 sh1 = Some (tcp', sh')"
      using 2(3) by (auto simp: bind_eq_Some_conv)
    obtain t0 sh0 where c: "tcp_close env tcp rc sh = (t0, sh0)" by (metis surj_pair)
    have "tx_inv iss g t1 (sh_log sh1)"
      using tx_inv_xmit_sack [OF tx_inv_close_app [OF 2(4) c] 2(5)] x(1) by (simp add: tcp_xfer_close_def tcp_xmit_def c)
    then show ?thesis using 2(2) [OF False x(1) refl x(2)] 2(5) by simp
  qed
next
  case (3 env iobuf calls tcp sh)
  show ?case
  proof (cases "has (tcp_flags tcp) TCP_XFER_CLOSED")
    case True
    then show ?thesis using 3 by simp
  next
    case False
    then obtain t1 sh1 where x: "tcp_xfer_deliver env tcp iobuf sh = Some (t1, sh1)" "app_calls env calls t1 sh1 = Some (tcp', sh')"
      using 3(3) by (auto simp: bind_eq_Some_conv)
    then show ?thesis using 3(2) [OF False x(1) refl x(2)] tx_inv_deliver [OF 3(4) False 3(5) x(1)] 3(5) by simp
  qed
next
  case (4 env calls tcp sh)
  obtain t1 sh1 where x: "tcp_discard_one tcp sh = (t1, sh1)" by (metis surj_pair)
  have "tx_inv iss g t1 (sh_log sh1)"
    by (rule tx_inv_frame [OF 4(3)]) (use x in \<open>auto simp: tcp_discard_one_def tx_frame_def split: if_splits\<close>)
  then show ?case using 4(1) [OF x [symmetric]] 4(2,4) x by simp
qed simp

section \<open>Received packets and timers\<close>

lemma tx_frame_trans: "tx_frame a b \<Longrightarrow> tx_frame b c \<Longrightarrow> tx_frame a c"
  by (auto simp: tx_frame_def)

lemma tx_frame_seq: "tx_frame tcp (tcp_rx_seq tcp len)"
  by (simp add: tx_frame_def)

lemma tx_inv_rx_data:
  assumes inv: "tx_inv iss g tcp (sh_log sh)" and al: "alloc_ok env" and r: "tcp_rx_data env tcp seq iobuf sh = Some (tcp', sh')"
  shows "tx_inv iss g tcp' (sh_log sh')"
proof (cases "rcv_ack tcp - seq \<ge> of_nat (length iobuf)")
  case True
  then show ?thesis using r inv by (simp add: tcp_rx_data_def)
next
  case False
  define len where "len = of_nat (length iobuf) - (rcv_ack tcp - seq)"
  define sh1 where "sh1 = sh\<lparr>sh_stats := (sh_stats sh)\<lparr>in_octets_good := in_octets_good (sh_stats sh) + ucast len\<rparr>\<rparr>"
  have 1: "tx_inv iss g (tcp_rx_seq tcp len) (sh_log sh1)" by (rule tx_inv_frame [OF inv tx_frame_seq]) (simp add: sh1_def)
  have 2: "tx_inv iss g (tcp_rx_seq tcp len) (sh_log (log_event (Deliver (tcp_id (tcp_rx_seq tcp len)) d) sh1))" for d
    by (rule tx_inv_frame [OF inv tx_frame_seq]) (simp add: sh1_def log_frame_def)
  have "xfer_deliver_iob env (tcp_rx_seq tcp len) (drop (unat (rcv_ack tcp - seq)) iobuf) sh1 = Some (tcp', sh')"
    using r False unfolding tcp_rx_data_def Let_def len_def sh1_def by simp
  then show ?thesis using 1 2 al tx_inv_app_calls unfolding xfer_deliver_iob_def by (metis option.inject prod.inject)
qed

lemma tx_inv_rx_fin:
  assumes inv: "tx_inv iss g tcp (sh_log sh)" and r: "tcp_rx_fin env tcp seq sh = (tcp', sh')"
  shows "tx_inv iss g tcp' (sh_log sh')"
proof (cases "seq = rcv_ack tcp")
  case False
  then show ?thesis using r inv by (simp add: tcp_rx_fin_def)
next
  case True
  define t where "t = (tcp_rx_seq tcp 1)\<lparr>tcp_state := tcp_state tcp OR TCP_STATE_RCVD TCP_FIN\<rparr>"
  have "TCP_STATE_RCVD TCP_FIN = 2 ^ 16" by (simp add: TCP_STATE_RCVD_def TCP_FIN_def)
  then have b: "bit (TCP_STATE_RCVD TCP_FIN) k \<longleftrightarrow> k = 16" for k by (auto simp: bit_exp_iff simp del: power_numeral)
  have c: "tcp_close env t None sh = (tcp', sh')" using r True by (simp add: tcp_rx_fin_def t_def)
  show ?thesis
  proof (rule tx_inv_close [OF _ _ c])
    show "log_ok iss g t (sh_log sh)" using inv by (auto simp: tx_inv_def log_ok_def t_def)
    assume "has (tcp_state t) (TCP_STATE_RCVD TCP_SYN)"
    then have l: "on_list tcp" using inv by (auto simp: tx_inv_def t_def tcp_bits bit_or_iff b TCP_CLOSED_def TCP_RST_def bit_simps split: if_splits)
    then obtain n where "send_state iss (queued (tcp_id tcp) (sh_log sh)) n tcp" using inv by (auto simp: tx_inv_def)
    then have "send_state iss (queued (tcp_id tcp) (sh_log sh)) n t"
      unfolding send_state_def Let_def by (auto simp: t_def bit_or_iff b split: if_splits)
    then show "on_list t \<and> (\<exists>n. send_state iss (queued (tcp_id t) (sh_log sh)) n t)" using l by (auto simp: t_def)
  qed
qed

lemma tx_inv_process_rx_queue:
  "tcp_process_rx_queue env tcp sh = Some (tcp', sh') \<Longrightarrow> tx_inv iss g tcp (sh_log sh) \<Longrightarrow> alloc_ok env \<Longrightarrow> tx_inv iss g tcp' (sh_log sh')"
proof (induction env tcp sh rule: tcp_process_rx_queue.induct)
  case (1 env tcp sh)
  show ?case
  proof (cases "rx_queue tcp")
    case Nil
    then show ?thesis using 1(2,3) by (simp add: tcp_process_rx_queue.simps [of env tcp])
  next
    case (Cons q queue)
    show ?thesis
    proof (cases "tcp_cmp (q_seq q) (rcv_ack tcp) > 0")
      case True
      then show ?thesis using 1(2,3) Cons by (simp add: tcp_process_rx_queue.simps [of env tcp])
    next
      case False
      obtain t1 sh1 where d: "tcp_rx_data env (tcp\<lparr>rx_queue := queue\<rparr>) (q_seq q) (q_data q) sh = Some (t1, sh1)"
        using 1(2) Cons False by (auto simp: tcp_process_rx_queue.simps [of env tcp] split: option.splits)
      obtain t2 sh2 where f: "(if has (q_flags q) TCP_FIN then tcp_rx_fin env t1 (q_seq q + of_nat (length (q_data q))) sh1 else (t1, sh1)) = (t2, sh2)"
        by (metis surj_pair)
      have "tx_inv iss g (tcp\<lparr>rx_queue := queue\<rparr>) (sh_log sh)" by (rule tx_inv_frame [OF 1(3)]) (simp_all add: tx_frame_def)
      from tx_inv_rx_data [OF this 1(4) d] have "tx_inv iss g t2 (sh_log sh2)" using f tx_inv_rx_fin [of iss g t1] by (auto split: if_splits)
      moreover have "tcp_process_rx_queue env t2 sh2 = Some (tcp', sh')"
        using 1(2) Cons False d f by (simp add: tcp_process_rx_queue.simps [of env tcp])
      ultimately show ?thesis using 1(1) [OF Cons False d refl f [symmetric]] 1(4) by simp
    qed
  qed
qed

lemma tx_frame_syn: "on_list tcp \<Longrightarrow> tx_frame tcp (tcp_rx_syn tcp seq options)"
proof -
  assume l: "on_list tcp"
  define t where "t = (if \<not> has (tcp_state tcp) (TCP_STATE_RCVD TCP_SYN) then
      let tcp = tcp\<lparr>rcv_ack := seq\<rparr>;
          tcp = (if opt_tsopt options \<noteq> None then tcp\<lparr>tcp_flags := tcp_flags tcp OR TCP_TS_ENABLED\<rparr> else tcp);
          tcp = (if opt_spopt options then tcp\<lparr>tcp_flags := tcp_flags tcp OR TCP_SACK_ENABLED\<rparr> else tcp)
      in (case opt_wsopt options of None \<Rightarrow> tcp | Some scale \<Rightarrow> tcp\<lparr>snd_win_scale := scale, rcv_win_scale := TCP_RX_WINDOW_SCALE\<rparr>)
    else tcp)"
  have "TCP_STATE_SENT TCP_ACK OR TCP_STATE_RCVD TCP_SYN = 2 ^ 4 OR 2 ^ 17" by (simp add: TCP_STATE_SENT_def TCP_ACK_def TCP_STATE_RCVD_def TCP_SYN_def)
  then have b: "bit (TCP_STATE_SENT TCP_ACK OR TCP_STATE_RCVD TCP_SYN) k \<longleftrightarrow> k = 4 \<or> k = 17" for k
    by (auto simp: bit_or_iff bit_exp_iff simp del: power_numeral)
  have "tx_frame tcp t" by (simp add: t_def tx_frame_def Let_def split: option.split)
  moreover have "tx_frame t ((tcp_rx_seq t 1)\<lparr>tcp_state := tcp_state t OR (TCP_STATE_SENT TCP_ACK OR TCP_STATE_RCVD TCP_SYN)\<rparr>)"
    using l \<open>tx_frame tcp t\<close> by (auto simp: tx_frame_def bit_or_iff [of "tcp_state t"] b)
  moreover have "tcp_rx_syn tcp seq options = (if seq \<noteq> rcv_ack t then t
      else (tcp_rx_seq t 1)\<lparr>tcp_state := tcp_state (tcp_rx_seq t 1) OR (TCP_STATE_SENT TCP_ACK OR TCP_STATE_RCVD TCP_SYN)\<rparr>)"
    unfolding tcp_rx_syn_def t_def by (simp add: Let_def split: option.split)
  ultimately show ?thesis using tx_frame_trans by (auto split: if_splits)
qed

lemma tx_inv_rx_enqueue:
  assumes inv: "tx_inv iss g tcp (sh_log sh)" and r: "tcp_rx_enqueue tcp seq fl iobuf sh = (tcp', sh')"
  shows "tx_inv iss g tcp' (sh_log sh')"
  by (rule tx_inv_frame [OF inv]) (use r in \<open>auto simp: tcp_rx_enqueue_def Let_def tx_frame_def split: if_splits prod.splits\<close>)

lemma tx_inv_rx_done:
  assumes inv: "tx_inv iss g tcp (sh_log sh)" and al: "alloc_ok env" and r: "tcp_rx_done env w seq tcp sh = Some (tcp', sh')"
  shows "tx_inv iss g tcp' (sh_log sh')"
proof -
  obtain sh1 where x: "(if rx_queue tcp = [] then Some (process_add tcp sh) else tcp_xmit_sack env seq tcp sh) = Some (tcp', sh1)"
    "sh_log sh' = sh_log sh1 \<or> sh_log sh' = sh_log sh1 @ [Window_changed (tcp_id tcp')]"
    using r unfolding tcp_rx_done_def bind_eq_Some_conv Let_def by (auto split: if_splits)
  have "tx_inv iss g tcp' (sh_log sh1)"
  proof (cases "rx_queue tcp = []")
    case True
    then show ?thesis using x(1) by (intro tx_inv_frame [OF inv]) (auto simp: process_add_def tx_frame_def split: if_splits)
  next
    case False
    then show ?thesis using x(1) tx_inv_xmit_sack [OF inv al] by simp
  qed
  then show ?thesis by (rule tx_inv_frame) (use x(2) in \<open>auto simp: tx_frame_def log_frame_def\<close>)
qed

lemma tx_inv_rx_body:
  assumes inv: "tx_inv iss g tcp (sh_log sh)" and l: "on_list tcp" and al: "alloc_ok env"
    and r: "tcp_rx_body env w seq fl options iobuf tcp sh = Some (tcp', sh', rc)"
  shows "tx_inv iss g tcp' (sh_log sh')"
proof -
  define t1 where "t1 = (if has (tcp_state tcp) (TCP_STATE_RCVD TCP_SYN) \<and> seq \<noteq> rcv_ack tcp then tcp\<lparr>tcp_flags := tcp_flags tcp OR TCP_ACK_PENDING\<rparr> else tcp)"
  have t1: "tx_frame tcp t1" by (simp add: t1_def tx_frame_def)
  obtain t2 seq2 where p2: "(if has fl TCP_SYN then (tcp_rx_syn t1 seq options, seq + 1) else (t1, seq)) = (t2, seq2)" by (metis surj_pair)
  have "on_list t1" using l by (simp add: t1_def)
  then have "tx_frame t1 t2" using p2 tx_frame_syn [of t1] by (auto simp: tx_frame_def split: if_splits)
  then have t2: "tx_inv iss g t2 (sh_log sh)" by (intro tx_inv_frame [OF inv tx_frame_trans [OF t1]]) simp_all
  obtain t3 sh3 r3 where r3: "(if has fl TCP_RST then tcp_rx_rst env t2 seq2 sh else (t2, sh, Inr ())) = (t3, sh3, r3)" by (metis prod_cases3)
  have t3: "tx_inv iss g t3 (sh_log sh3)"
    using r3 t2 tx_inv_close_reset [OF t2, of env "Some ECONNRESET"] by (auto simp: tcp_rx_rst_def split: if_splits prod.splits)
  note x = r [unfolded tcp_rx_body_def Let_def, folded t1_def, unfolded p2 prod.case r3]
  show ?thesis
  proof (cases r3)
    case (Inl e)
    then show ?thesis using x t3 by simp
  next
    case (Inr u)
    obtain t4 sh4 where q: "tcp_rx_enqueue t3 seq2 fl iobuf sh3 = (t4, sh4)" by (metis surj_pair)
    obtain t5 sh5 where pr: "tcp_process_rx_queue env t4 sh4 = Some (t5, sh5)" and dn: "tcp_rx_done env w seq2 t5 sh5 = Some (tcp', sh')"
      using x Inr q by (auto simp: bind_eq_Some_conv)
    show ?thesis by (rule tx_inv_rx_done [OF tx_inv_process_rx_queue [OF pr tx_inv_rx_enqueue [OF t3 q] al] al dn])
  qed
qed

lemma reset_packet:
  assumes "th_flags h = ucast (TCP_RST OR TCP_ACK)" and "th_hlen h = push_bit 4 (of_nat (sizeof_tcphdr div 4))"
  shows "packet_reset (tcphdr_bytes h)"
proof -
  have n: "packet_flags (tcphdr_bytes h @ []) = ucast (th_flags h)" "packet_hlen (tcphdr_bytes h @ []) = unat (th_hlen h AND TCP_MASK_HLEN) div 16 * 4"
    by (simp_all only: push_all_header)
  have f: "ucast (ucast (TCP_RST OR TCP_ACK) :: u8) = TCP_RST OR TCP_ACK" by code_simp
  have h: "unat ((push_bit 4 (of_nat (sizeof_tcphdr div 4)) :: u8) AND TCP_MASK_HLEN) div 16 * 4 = 20" by code_simp
  have b: "has (TCP_RST OR TCP_ACK) TCP_RST" "\<not> has (TCP_RST OR TCP_ACK) TCP_SYN" "\<not> has (TCP_RST OR TCP_ACK) TCP_FIN" by code_simp+
  have "packet_flags (tcphdr_bytes h) = TCP_RST OR TCP_ACK" "packet_hlen (tcphdr_bytes h) = 20" using n f h assms by simp_all
  then show ?thesis using b unfolding packet_reset_def packet_data_def by simp
qed

lemma tx_inv_xmit_reset:
  assumes inv: "tx_inv iss g tcp (sh_log sh)" and al: "alloc_ok env" and x: "tcp_xmit_reset env tcp dest h sh = Some (tcp', sh', r)"
  shows "tx_inv iss g tcp' (sh_log sh')"
proof -
  obtain t1 sh1 b where a: "tcp_alloc_iob env TCP_MAX_HEADER_LEN tcp sh = (t1, sh1, b)" by (metis prod_cases3)
  have t1: "tx_inv iss g t1 (sh_log sh1)" using tx_inv_frame [OF inv alloc_frame [OF a]] log_alloc [OF a] by simp
  show ?thesis
  proof (cases b)
    case None
    then show ?thesis using x a t1 by (simp add: tcp_xmit_reset_def)
  next
    case (Some iobuf)
    let ?h = "\<lparr>th_src = th_dest h, th_dest = th_src h, th_seq = th_ack h, th_ack = th_seq h, th_hlen = push_bit 4 (of_nat (sizeof_tcphdr div 4)),
      th_flags = ucast (TCP_RST OR TCP_ACK), th_win = htons 0, th_csum = 0, th_urg = 0\<rparr>"
    obtain b0 where b0: "iob_reserve iobuf TCP_MAX_HEADER_LEN = Some b0" and t: "tcp_transmit env (tcp_id t1) dest ?h b0 sh1 = Some (sh', r)" "tcp' = t1"
      using x a Some by (auto simp: tcp_xmit_reset_def bind_eq_Some_conv)
    have "iob_data b0 = []" using iob_reserve_data [OF b0] alloc_iob_data [OF al a [unfolded Some]] by simp
    then obtain c where c: "sh_log sh' = sh_log sh1 @ [Transmit (tcp_id t1) (tcphdr_bytes (?h\<lparr>th_csum := c\<rparr>))]" using log_transmit [OF t(1)] by auto
    have "packet_reset (tcphdr_bytes (?h\<lparr>th_csum := c\<rparr>))" by (rule reset_packet) simp_all
    then have "log_ok iss g t1 (sh_log sh')" unfolding c using t1 by (intro log_ok_append) (auto simp: tx_inv_def packet_ok_def packet_reset_def)
    then show ?thesis using t1 unfolding t(2) tx_inv_def c by simp
  qed
qed

lemma tx_inv_rx_segment:
  assumes inv: "tx_inv iss g tcp (sh_log sh)" and l: "on_list tcp" and al: "alloc_ok env" and r: "tcp_rx_segment env src sg tcp sh = Some (tcp', sh', rc)"
  shows "tx_inv iss g tcp' (sh_log sh')"
proof (cases "has (ucast (th_flags (sg_header sg))) TCP_ACK")
  case False
  show ?thesis by (rule tx_inv_rx_body [OF inv l al]) (use r False in \<open>simp add: tcp_rx_segment_def Let_def\<close>)
next
  case True
  then obtain win where r2: "(case tcp_rx_ack env tcp (ntohl (th_ack (sg_header sg))) win sh of
        (tcp, sh, Inl rc) \<Rightarrow> do { (tcp, sh, _) \<leftarrow> tcp_xmit_reset env tcp src (sg_header sg) sh; Some (tcp, sh, Inl rc) }
      | (t, sh, Inr _) \<Rightarrow> tcp_rx_body env (tcp_xfer_window tcp) (ntohl (th_seq (sg_header sg))) (ucast (th_flags (sg_header sg))) (sg_options sg) (sg_data sg) t sh)
      = Some (tcp', sh', rc)"
    using r unfolding tcp_rx_segment_def Let_def by (auto split: option.splits)
  obtain t1 sh1 r1 where a: "tcp_rx_ack env tcp (ntohl (th_ack (sg_header sg))) win sh = (t1, sh1, r1)" by (metis prod_cases3)
  note t1 = tx_inv_rx_ack [OF inv l a]
  show ?thesis
  proof (cases r1)
    case (Inl e)
    then show ?thesis using r2 a t1 tx_inv_xmit_reset [of iss g t1, OF _ al] by (auto simp: bind_eq_Some_conv)
  next
    case (Inr u)
    then show ?thesis using r2 a t1 tx_inv_rx_body [of iss g t1, OF _ _ al] by auto
  qed
qed

end
