(* ===== verification/TcpLink.thy ===== *)
theory TcpLink
  imports TcpSend TcpDelivery
begin

text \<open>
  Two TCP connections over a network. Each receives packets that the other has transmitted, in any
  order, any number of times or not at all, and resets from anywhere; everything else that can happen
  to a connection happens to either of them at any time. What each application reads is what the other
  has handed over.
\<close>

section \<open>Packets between two connections\<close>

type_synonym 's endpoint = "tcp_connection \<times> 's tcp_shared"

definition handed :: "'s endpoint \<Rightarrow> bytes" where
  "handed s = queued (tcp_id (fst s)) (sh_log (snd s))"

definition read :: "'s endpoint \<Rightarrow> bytes" where
  "read s = delivered (tcp_id (fst s)) (sh_log (snd s))"

definition packets :: "'s endpoint \<Rightarrow> bytes set" where
  "packets s = set (transmitted (tcp_id (fst s)) (sh_log (snd s)))"

definition closed :: "'s endpoint \<Rightarrow> bool" where
  "closed s \<longleftrightarrow> has (tcp_flags (fst s)) TCP_XFER_CLOSED"

text \<open>The network layer completes the checksum of a packet, so that it arrives with another one.\<close>

definition with_csum :: "u16 \<Rightarrow> bytes \<Rightarrow> bytes" where
  "with_csum c p = tcphdr_bytes ((get_tcphdr p)\<lparr>th_csum := c\<rparr>) @ drop sizeof_tcphdr p"

text \<open>One step of a connection that may receive the given packets; the first argument is whether its application may close it.\<close>

inductive conn_step :: "bool \<Rightarrow> bytes set \<Rightarrow> 's endpoint \<Rightarrow> 's endpoint \<Rightarrow> bool" for ac P where
  received: "tcp_parse addr packet csum = Inr sg \<Longrightarrow> packet \<in> {with_csum c q |c q. q \<in> P} \<or> is_reset sg \<Longrightarrow> on_list tcp \<Longrightarrow> app_ok ac env \<Longrightarrow> alloc_ok env
    \<Longrightarrow> tcp_rx_segment env src sg (tcp\<lparr>ts_val := t\<rparr>) sh = Some (tcp', sh', r) \<Longrightarrow> conn_step ac P (tcp, sh) (tcp', sh')"
| expired: "alloc_ok env \<Longrightarrow> tcp_expired env over tcp sh = Some s' \<Longrightarrow> conn_step ac P (tcp, sh) s'"
| keepalive: "alloc_ok env \<Longrightarrow> tcp_keepalive_expired env tcp sh = Some s' \<Longrightarrow> conn_step ac P (tcp, sh) s'"
| waited: "tcp_wait_expired env tcp sh = s' \<Longrightarrow> conn_step ac P (tcp, sh) s'"
| stepped: "alloc_ok env \<Longrightarrow> tcp_step env tcp sh = Some s' \<Longrightarrow> conn_step ac P (tcp, sh) s'"
| application: "alloc_ok env \<Longrightarrow> ac \<or> no_close calls \<Longrightarrow> app_calls env calls tcp sh = Some s' \<Longrightarrow> conn_step ac P (tcp, sh) s'"
| others: "handed (tcp, sh') = handed (tcp, sh) \<Longrightarrow> read (tcp, sh') = read (tcp, sh) \<Longrightarrow> packets (tcp, sh') = packets (tcp, sh)
    \<Longrightarrow> conn_step ac P (tcp, sh) (tcp, sh')"

text \<open>Both connections are opened, then either of them takes a step.\<close>

inductive link_run :: "bool \<Rightarrow> bool \<Rightarrow> u32 \<Rightarrow> u32 \<Rightarrow> 's endpoint \<Rightarrow> 's endpoint \<Rightarrow> bool" for ac1 ac2 iss1 iss2 where
  opened: "tcp_open env1 (Some i1) iss1 port1 peer1 local1 sys1 = (sys1', Inr ()) \<Longrightarrow> tcp_open env2 (Some i2) iss2 port2 peer2 local2 sys2 = (sys2', Inr ())
    \<Longrightarrow> sh_log (tcp_sh sys1) = [] \<Longrightarrow> sh_log (tcp_sh sys2) = []
    \<Longrightarrow> link_run ac1 ac2 iss1 iss2 (tcp_conn sys1' i1, tcp_sh sys1') (tcp_conn sys2' i2, tcp_sh sys2')"
| first: "link_run ac1 ac2 iss1 iss2 s1 s2 \<Longrightarrow> conn_step ac1 (packets s2) s1 s1' \<Longrightarrow> link_run ac1 ac2 iss1 iss2 s1' s2"
| second: "link_run ac1 ac2 iss1 iss2 s1 s2 \<Longrightarrow> conn_step ac2 (packets s1) s2 s2' \<Longrightarrow> link_run ac1 ac2 iss1 iss2 s1 s2'"

section \<open>The sending side\<close>

definition sending :: "u32 \<Rightarrow> bytes \<times> bool \<Rightarrow> 's endpoint \<Rightarrow> bool" where
  "sending iss g s \<longleftrightarrow> tx_inv iss g (fst s) (sh_log (snd s))"

lemma sending_step:
  assumes "conn_step ac P s s'" and "sending iss g s"
  shows "sending iss g s'"
  using assms
proof (cases rule: conn_step.cases)
  case (received addr packet csum sg tcp env src t sh tcp' sh' r)
  have "tx_inv iss g (tcp\<lparr>ts_val := t\<rparr>) (sh_log sh)" by (rule tx_inv_frame [where tcp = tcp]) (use assms(2) received in \<open>auto simp: sending_def tx_frame_def\<close>)
  from tx_inv_rx_segment [OF this _ received(7,8)] received show ?thesis by (simp add: sending_def)
next
  case (expired env over tcp sh)
  then have inv: "tx_inv iss g tcp (sh_log sh)" using assms(2) by (simp add: sending_def)
  obtain tcp' sh' where s': "s' = (tcp', sh')" by (metis surj_pair)
  show ?thesis
  proof (cases over)
    case True
    then show ?thesis using expired(3) tx_inv_close_reset [OF inv] by (simp add: s' sending_def tcp_expired_def)
  next
    case False
    then show ?thesis using expired(3) tx_inv_xmit_sack [OF inv expired(2)] by (simp add: s' sending_def tcp_expired_def tcp_xmit_def)
  qed
next
  case (keepalive env tcp sh)
  define t where "t = tcp\<lparr>tcp_flags := tcp_flags tcp OR TCP_ACK_PENDING\<rparr>"
  have "tx_inv iss g t (sh_log (on_retry (start_timer_fixed (te_now env) (tcp_keepalive tcp) TCP_KEEPALIVE_DELAY) sh))"
    by (rule tx_inv_frame [where tcp = tcp]) (use assms(2) keepalive in \<open>auto simp: sending_def tx_frame_def t_def\<close>)
  from tx_inv_xmit_sack [OF this keepalive(2)] keepalive(3) show ?thesis
    by (cases s') (auto simp: sending_def tcp_keepalive_expired_def tcp_xmit_def t_def)
next
  case (waited env tcp sh)
  then show ?thesis using assms(2) tx_inv_close_reset [of iss g tcp sh env]
    by (cases s') (auto simp: sending_def tcp_wait_expired_def)
next
  case (stepped env tcp sh)
  define p where "p = process_del tcp (on_counts (ref_increment (Some (tcp_id tcp))) sh)"
  have "tx_inv iss g (fst p) (sh_log (snd p))"
    by (rule tx_inv_frame [where tcp = tcp]) (use assms(2) stepped in \<open>auto simp: sending_def tx_frame_def p_def process_del_def\<close>)
  moreover obtain sh1 where "tcp_xmit env (fst p) (snd p) = Some (fst s', sh1)" "sh_log (snd s') = sh_log sh1"
    using stepped(3) unfolding tcp_step_def Let_def p_def [symmetric] by (auto split: prod.splits)
  ultimately show ?thesis using tx_inv_xmit_sack [OF _ stepped(2)] by (simp add: sending_def tcp_xmit_def)
next
  case (application env calls tcp sh)
  then show ?thesis using assms(2) tx_inv_app_calls [of env calls tcp sh "fst s'" "snd s'"] by (simp add: sending_def)
next
  case (others tcp sh' sh)
  then show ?thesis using assms(2) by (auto simp: sending_def tx_inv_def log_ok_def handed_def packets_def)
qed

lemma sending_open:
  assumes "tcp_open env (Some i) iss port peer local sys = (sys', Inr ())" and "sh_log (tcp_sh sys) = []"
  shows "sending iss ([], False) (tcp_conn sys' i, tcp_sh sys')"
  using assms(1)
proof (rule open_eq)
  fix mss port n assume t: "tcp_conn sys' i = (new_connection i iss peer)\<lparr>tcp_mss := mss, local_port := port, pending_flags := n, on_list := True\<rparr>"
    and l: "sh_log (tcp_sh sys') = sh_log (tcp_sh sys)"
  have b: "TCP_STATE_SENT TCP_SYN = 2 ^ 1" by (simp add: TCP_STATE_SENT_def TCP_SYN_def)
  have "send_state iss [] 0 (tcp_conn sys' i)"
    unfolding t send_state_def Let_def new_connection_def b by (simp add: bit_exp_iff del: power_numeral power_one_right)
  then show ?thesis using assms(2) l t unfolding sending_def tx_inv_def log_ok_def by auto
qed

text \<open>What was known earlier follows from what is known now.\<close>

lemma sending_past: "sending iss g s \<Longrightarrow> sending iss (handed s, closed s) s"
  by (auto simp: sending_def tx_inv_def log_ok_def handed_def closed_def)

lemma sending_grows:
  assumes "sending iss g s" and "conn_step ac P s s'"
  shows "\<exists>B. handed s' = handed s @ B \<and> (closed s \<longrightarrow> B = [] \<and> closed s')"
  using sending_step [OF assms(2) sending_past [OF assms(1)]]
  by (auto simp: sending_def tx_inv_def log_ok_def handed_def closed_def prefix_def)

section \<open>The receiving side\<close>

lemma parse_packet:
  assumes p: "tcp_parse addr (with_csum c packet) csum = Inr sg"
  shows "ucast (th_flags (sg_header sg)) = packet_flags packet" and "ntohl (th_seq (sg_header sg)) = packet_seq packet"
    and "sg_data sg = packet_data packet" and "\<not> packet_hlen packet < sizeof_tcphdr"
proof -
  have h: "get_tcphdr (with_csum c packet) = (get_tcphdr packet)\<lparr>th_csum := c\<rparr>" by (simp add: with_csum_def)
  have s: "sg_header sg = get_tcphdr (with_csum c packet)" "sg_data sg = drop (packet_hlen packet) (with_csum c packet)" "\<not> packet_hlen packet < sizeof_tcphdr"
    using p unfolding tcp_parse_def Let_def h packet_hlen_def by (auto split: if_splits sum.splits)
  show "ucast (th_flags (sg_header sg)) = packet_flags packet" "ntohl (th_seq (sg_header sg)) = packet_seq packet"
    using s(1) h by (simp_all add: packet_flags_def packet_seq_def)
  show "sg_data sg = packet_data packet" using s(2,3) by (simp add: packet_data_def with_csum_def sizeof_tcphdr_def)
  show "\<not> packet_hlen packet < sizeof_tcphdr" by (rule s(3))
qed

lemma packet_genuine:
  assumes p: "tcp_parse addr (with_csum c packet) csum = Inr sg" and ok: "packet_at iss S n packet" and c: "cur \<le> length S + 1" and l: "length S < 2 ^ 30 - 1"
  shows "genuine iss S cur n sg"
proof -
  have "cur < n + 2 ^ 30" "n < cur + 2 ^ 30" using ok c l by (auto simp: packet_at_def)
  then show ?thesis using ok unfolding genuine_def Let_def parse_packet [OF p] packet_at_def by blast
qed

lemma packet_is_reset: "tcp_parse addr (with_csum c packet) csum = Inr sg \<Longrightarrow> packet_reset packet \<Longrightarrow> is_reset sg"
  by (simp add: is_reset_def packet_reset_def Let_def parse_packet)

text \<open>All that the peer will ever hand over: more than it has handed over only if it has not closed.\<close>

definition extends :: "bytes \<Rightarrow> 's endpoint \<Rightarrow> bool" where
  "extends S s \<longleftrightarrow> (\<exists>B. S = handed s @ B \<and> (closed s \<longrightarrow> B = []))"

lemma sending_packet:
  assumes "sending iss g s" and "packet \<in> packets s" and "extends S s" and p: "tcp_parse addr (with_csum c packet) csum = Inr sg"
    and "cur \<le> length S + 1" and "length S < 2 ^ 30 - 1"
  shows "is_reset sg \<or> (\<exists>n. genuine iss S cur n sg)"
proof -
  have "packet_ok iss (handed s) packet" "has (packet_flags packet) TCP_FIN \<Longrightarrow> closed s"
    using assms(1,2) parse_packet(4) [OF p] by (auto simp: sending_def tx_inv_def log_ok_def packets_def handed_def closed_def)
  then have "packet_ok iss S packet" using assms(3) packet_ok_append by (auto simp: extends_def)
  then show ?thesis unfolding packet_ok_def using parse_packet(4) [OF p] packet_is_reset [OF p] packet_genuine [OF p _ assms(5,6)] by blast
qed

lemma stream_run_bound: "stream_run irs S ac cur tcp sh \<Longrightarrow> on_list tcp \<Longrightarrow> cur \<le> length S + 1"
  by (drule stream_run_inv) (auto simp: rest_inv_def rx_inv_def split: if_splits)

lemma receiving_step:
  assumes run: "stream_run iss S ac cur (fst s) (snd s)" and st: "conn_step ac P s s'" and l: "length S < 2 ^ 30 - 1"
    and ok: "\<And>addr c packet csum sg. packet \<in> P \<Longrightarrow> tcp_parse addr (with_csum c packet) csum = Inr sg \<Longrightarrow> cur \<le> length S + 1 \<Longrightarrow> is_reset sg \<or> (\<exists>n. genuine iss S cur n sg)"
  shows "\<exists>cur. stream_run iss S ac cur (fst s') (snd s')"
  using st
proof (cases rule: conn_step.cases)
  case (received addr packet csum sg tcp env src t sh tcp' sh' r)
  have run': "stream_run iss S ac cur tcp sh" using run received(1) by simp
  have "is_reset sg \<or> (\<exists>n. genuine iss S cur n sg)" using ok received(3,4) stream_run_bound [OF run' received(5)] by blast
  then show ?thesis
    using stream_run.reset [OF run' received(5) _ received(8)] stream_run.received [OF run' received(5,6) _ received(8)] received(2) by auto
next
  case (expired env over tcp sh)
  then show ?thesis using stream_run.expired [of iss S ac cur tcp sh env over "fst s'" "snd s'"] run by auto
next
  case (keepalive env tcp sh)
  then show ?thesis using stream_run.keepalive [of iss S ac cur tcp sh env "fst s'" "snd s'"] run by auto
next
  case (waited env tcp sh)
  then show ?thesis using stream_run.waited [of iss S ac cur tcp sh env "fst s'" "snd s'"] run by auto
next
  case (stepped env tcp sh)
  then show ?thesis using stream_run.stepped [of iss S ac cur tcp sh env "fst s'" "snd s'"] run by auto
next
  case (application env calls tcp sh)
  then show ?thesis using stream_run.application [of iss S ac cur tcp sh calls env "fst s'" "snd s'"] run by auto
next
  case (others tcp sh' sh)
  then show ?thesis using stream_run.others [of iss S ac cur tcp sh sh'] run by (auto simp: read_def)
qed

text \<open>One direction of a link: the second connection receives a stream that begins with what the first has handed over.\<close>

definition one_way :: "u32 \<Rightarrow> bool \<Rightarrow> 's endpoint \<Rightarrow> 's endpoint \<Rightarrow> bool" where
  "one_way iss ac s r \<longleftrightarrow> sending iss ([], False) s \<and> (\<forall>S. extends S s \<and> length S < 2 ^ 30 - 1 \<longrightarrow> (\<exists>cur. stream_run iss S ac cur (fst r) (snd r)))"

lemma one_way_sender:
  assumes "one_way iss ac s r" and "conn_step ac' P s s'"
  shows "one_way iss ac s' r"
proof -
  have s: "sending iss ([], False) s" using assms(1) by (simp add: one_way_def)
  have "extends S s" if "extends S s'" for S using that sending_grows [OF s assms(2)] by (auto simp: extends_def)
  then show ?thesis using assms(1) sending_step [OF assms(2) s] by (auto simp: one_way_def)
qed

lemma one_way_receiver:
  assumes o: "one_way iss ac s r" and st: "conn_step ac (packets s) r r'"
  shows "one_way iss ac s r'"
proof -
  have s: "sending iss ([], False) s" using o by (simp add: one_way_def)
  have "\<exists>cur. stream_run iss S ac cur (fst r') (snd r')" if e: "extends S s" and l: "length S < 2 ^ 30 - 1" for S
  proof -
    obtain cur where "stream_run iss S ac cur (fst r) (snd r)" using o e l by (auto simp: one_way_def)
    then show ?thesis by (rule receiving_step [OF _ st l]) (rule sending_packet [OF s _ e _ _ l])
  qed
  then show ?thesis using s by (simp add: one_way_def)
qed

lemma link_run_ways: "link_run ac1 ac2 iss1 iss2 s1 s2 \<Longrightarrow> one_way iss1 ac2 s1 s2 \<and> one_way iss2 ac1 s2 s1"
proof (induction rule: link_run.induct)
  case (opened env1 i1 port1 peer1 local1 sys1 sys1' env2 i2 port2 peer2 local2 sys2 sys2')
  have "stream_run iss1 S ac2 0 (tcp_conn sys2' i2) (tcp_sh sys2')" "stream_run iss2 S ac1 0 (tcp_conn sys1' i1) (tcp_sh sys1')" for S
    using stream_run.opened [OF opened(1)] stream_run.opened [OF opened(2)] opened(3,4) by simp_all
  then show ?case using sending_open [OF opened(1,3)] sending_open [OF opened(2,4)] by (auto simp: one_way_def)
next
  case (first s1 s2 s1')
  then show ?case using one_way_sender one_way_receiver by blast
next
  case (second s1 s2 s2')
  then show ?case using one_way_sender one_way_receiver by blast
qed

lemma one_way_reads:
  assumes "one_way iss ac s r" and "length (handed s) < 2 ^ 30 - 1"
  shows "prefix (read r) (handed s)" and "on_list (fst r) \<and> closed r \<and> \<not> ac \<longrightarrow> read r = handed s"
proof -
  have "extends (handed s) s" by (simp add: extends_def)
  then obtain cur where "stream_run iss (handed s) ac cur (fst r) (snd r)" using assms unfolding one_way_def by blast
  then have "rest_inv iss (handed s) ac cur (fst r) (sh_log (snd r))" by (rule stream_run_inv)
  then show "prefix (read r) (handed s)" "on_list (fst r) \<and> closed r \<and> \<not> ac \<longrightarrow> read r = handed s"
    unfolding rest_inv_def rx_inv_def read_def closed_def by (auto split: if_splits)
qed

section \<open>Two connections that open each other\<close>

text \<open>An end is opened; its timer fires; it receives the last packet of the other end.\<close>

definition example_end :: "u32 \<Rightarrow> unit endpoint" where
  "example_end iss =
     (let sys = fst (tcp_open (example_tcp_env 0) (Some 1) iss 5 example_peer (Some (empty_sockaddr\<lparr>st_port := htons 2000\<rparr>)) example_system)
      in (tcp_conn sys 1, tcp_sh sys))"

definition example_fire :: "u64 \<Rightarrow> unit endpoint \<Rightarrow> unit endpoint option" where
  "example_fire now s = tcp_expired (example_tcp_env now) False (fst s) (on_retry (stop_timer now (tcp_timer (fst s))) (snd s))"

definition example_get :: "u64 \<Rightarrow> unit endpoint \<Rightarrow> unit endpoint \<Rightarrow> unit endpoint option" where
  "example_get now from s =
     (let ps = transmitted (tcp_id (fst from)) (sh_log (snd from)); p = last ps
      in if ps = [] \<or> \<not> on_list (fst s) then None
         else case tcp_parse 0 (with_csum (th_csum (get_tcphdr p)) p) TCPIP_EMPTY_CSUM of
           Inl _ \<Rightarrow> None
         | Inr sg \<Rightarrow> (case tcp_rx_segment (example_tcp_env now) example_peer sg ((fst s)\<lparr>ts_val := 0\<rparr>) (snd s) of
             None \<Rightarrow> None | Some (tcp, sh, r) \<Rightarrow> Some (tcp, sh)))"

text \<open>
  The first SYN of the first end is lost. The second end sends its own, the first answers it, and the
  second sends two bytes.
\<close>

definition example_link :: "(unit endpoint \<times> unit endpoint) option" where
  "example_link =
     (case example_fire 1 (example_end 5000) of None \<Rightarrow> None | Some s2 \<Rightarrow>
     (case example_fire 1 (example_end 1000) of None \<Rightarrow> None | Some s1 \<Rightarrow>
     (case example_get 2 s2 s1 of None \<Rightarrow> None | Some s1 \<Rightarrow>
     (case example_fire 3 s1 of None \<Rightarrow> None | Some s1 \<Rightarrow>
     (case example_get 4 s1 s2 of None \<Rightarrow> None | Some s2 \<Rightarrow>
     (case app_calls (example_tcp_env 5) [App_send [104, 105]] (fst s2) (snd s2) of None \<Rightarrow> None | Some s2 \<Rightarrow>
     (case example_get 6 s2 s1 of None \<Rightarrow> None | Some s1 \<Rightarrow> Some (s1, s2))))))))"

lemma example_alloc: "alloc_ok (example_tcp_env now)"
  by (simp add: alloc_ok_def example_tcp_env_def)

lemma example_open_end:
  "\<exists>sys'. tcp_open (example_tcp_env 0) (Some 1) iss 5 example_peer (Some (empty_sockaddr\<lparr>st_port := htons 2000\<rparr>)) example_system = (sys', Inr ())
     \<and> example_end iss = (tcp_conn sys' 1, tcp_sh sys')" if "iss = 1000 \<or> iss = 5000"
proof -
  define r where "r = tcp_open (example_tcp_env 0) (Some 1) iss 5 example_peer (Some (empty_sockaddr\<lparr>st_port := htons 2000\<rparr>)) example_system"
  have "snd (tcp_open (example_tcp_env 0) (Some 1) 1000 5 example_peer (Some (empty_sockaddr\<lparr>st_port := htons 2000\<rparr>)) example_system) = Inr ()"
    "snd (tcp_open (example_tcp_env 0) (Some 1) 5000 5 example_peer (Some (empty_sockaddr\<lparr>st_port := htons 2000\<rparr>)) example_system) = Inr ()" by code_simp+
  then have "snd r = Inr ()" using that by (auto simp: r_def)
  then have "r = (fst r, Inr ())" by (simp add: prod_eq_iff)
  then show ?thesis unfolding example_end_def r_def [symmetric] Let_def by blast
qed

lemma example_fire_step:
  assumes "example_fire now s = Some s'"
  shows "\<exists>s0. conn_step ac P s s0 \<and> conn_step ac P s0 s'"
proof -
  obtain tcp sh where s: "s = (tcp, sh)" by (metis surj_pair)
  let ?sh = "on_retry (stop_timer now (tcp_timer tcp)) sh"
  have "conn_step ac P (tcp, sh) (tcp, ?sh)" by (rule conn_step.others) (simp_all add: handed_def read_def packets_def)
  moreover have "conn_step ac P (tcp, ?sh) s'" by (rule conn_step.expired [OF example_alloc]) (use assms s in \<open>simp add: example_fire_def\<close>)
  ultimately show ?thesis using s by blast
qed

lemma example_get_step:
  assumes "example_get now q s = Some s'"
  shows "conn_step ac (packets q) s s'"
proof -
  define ps where "ps = transmitted (tcp_id (fst q)) (sh_log (snd q))"
  have n: "ps \<noteq> []" "on_list (fst s)" using assms unfolding example_get_def ps_def [symmetric] Let_def by (auto split: if_splits)
  obtain sg where p: "tcp_parse 0 (with_csum (th_csum (get_tcphdr (last ps))) (last ps)) TCPIP_EMPTY_CSUM = Inr sg"
    and x: "(case tcp_rx_segment (example_tcp_env now) example_peer sg ((fst s)\<lparr>ts_val := 0\<rparr>) (snd s) of
             None \<Rightarrow> None | Some (tcp, sh, r) \<Rightarrow> Some (tcp, sh)) = Some s'"
    using assms n unfolding example_get_def ps_def [symmetric] Let_def by (auto split: if_splits sum.splits)
  obtain tcp sh r where r: "tcp_rx_segment (example_tcp_env now) example_peer sg ((fst s)\<lparr>ts_val := 0\<rparr>) (snd s) = Some (tcp, sh, r)" "s' = (tcp, sh)"
    using x by (auto split: option.splits)
  have "last ps \<in> packets q" using n(1) by (simp add: packets_def ps_def)
  then have "with_csum (th_csum (get_tcphdr (last ps))) (last ps) \<in> {with_csum c p |c p. p \<in> packets q}" by blast
  then have "conn_step ac (packets q) (fst s, snd s) (tcp, sh)"
    by (intro conn_step.received [OF p _ n(2) example_app example_alloc r(1)]) simp
  then show ?thesis using r(2) by simp
qed

lemma example_link_run:
  assumes "example_link = Some (s1, s2)"
  shows "link_run True False 1000 5000 s1 s2"
proof -
  obtain a1 b1 b2 b3 a2 a3 where e: "example_fire 1 (example_end 5000) = Some a1" "example_fire 1 (example_end 1000) = Some b1" "example_get 2 a1 b1 = Some b2"
      "example_fire 3 b2 = Some b3" "example_get 4 b3 a1 = Some a2" "app_calls (example_tcp_env 5) [App_send [104, 105]] (fst a2) (snd a2) = Some a3"
      "example_get 6 a3 b3 = Some s1" "s2 = a3"
    using assms unfolding example_link_def by (auto split: option.splits)
  obtain sys1 sys2 where o: "tcp_open (example_tcp_env 0) (Some 1) 1000 5 example_peer (Some (empty_sockaddr\<lparr>st_port := htons 2000\<rparr>)) example_system = (sys1, Inr ())"
      "example_end 1000 = (tcp_conn sys1 1, tcp_sh sys1)"
      "tcp_open (example_tcp_env 0) (Some 1) 5000 5 example_peer (Some (empty_sockaddr\<lparr>st_port := htons 2000\<rparr>)) example_system = (sys2, Inr ())"
      "example_end 5000 = (tcp_conn sys2 1, tcp_sh sys2)"
    using example_open_end [of 1000] example_open_end [of 5000] by auto
  have "sh_log (tcp_sh example_system) = []" by (simp add: example_system_def example_shared_def)
  note run0 = link_run.opened [OF o(1,3) this this, of True False, folded o(2,4)]
  note fire1 = link_run.first [OF link_run.first] and fire2 = link_run.second [OF link_run.second]
  have run1: "link_run True False 1000 5000 b1 a1"
    using fire1 fire2 run0 example_fire_step [OF e(1)] example_fire_step [OF e(2)] by metis
  have run2: "link_run True False 1000 5000 b3 a1"
    using fire1 link_run.first [OF run1 example_get_step [OF e(3)]] example_fire_step [OF e(4)] by metis
  have run3: "link_run True False 1000 5000 b3 a2" by (rule link_run.second [OF run2 example_get_step [OF e(5)]])
  have "conn_step False (packets b3) (fst a2, snd a2) a3" by (rule conn_step.application [OF example_alloc _ e(6)]) (simp add: no_close_def)
  then have run4: "link_run True False 1000 5000 b3 a3" using link_run.second [OF run3] by simp
  show ?thesis unfolding e(8) by (rule link_run.first [OF run4 example_get_step [OF e(7)]])
qed

lemma example_link_streams: "case example_link of None \<Rightarrow> False | Some (s1, s2) \<Rightarrow> read s1 = [104, 105] \<and> handed s1 = [] \<and> handed s2 = [104, 105]"
  by code_simp

section \<open>Both streams are delivered\<close>

text \<open>
  Claim C0. Two connections of this stack carry two streams. Each end is opened by its
  application and receives packets that the other end has transmitted, delayed, reordered, duplicated or
  lost by the network, and resets from anywhere. Timers, the processes, memory pressure and the two
  applications act in between in any order. At any time each application has read a
  prefix of what the other has handed over, in order and without gaps or duplicates. An application that does not close
  the connection itself is told of its end, unless by an error, only after it has read all that the other
  handed over. The streams are shorter than a gigabyte, so that sequence numbers do not repeat.
\<close>

theorem tcp_link_streams:
  assumes "link_run ac1 ac2 iss1 iss2 s1 s2" and "length (handed s1) < 2 ^ 30 - 1" and "length (handed s2) < 2 ^ 30 - 1"
  shows "prefix (read s2) (handed s1) \<and> prefix (read s1) (handed s2)
    \<and> (on_list (fst s2) \<and> closed s2 \<and> \<not> ac2 \<longrightarrow> read s2 = handed s1) \<and> (on_list (fst s1) \<and> closed s1 \<and> \<not> ac1 \<longrightarrow> read s1 = handed s2)"
  using link_run_ways [OF assms(1)] one_way_reads assms(2,3) by blast

theorem tcp_link_streams_witness:
  "\<exists>s1 s2. example_link = Some (s1, s2) \<and> link_run True False 1000 5000 s1 s2 \<and> read s1 = [104, 105] \<and> handed s2 = [104, 105] \<and> prefix (read s1) (handed s2)
     \<and> prefix (read s2) (handed s1)"
proof -
  obtain s1 s2 where e: "example_link = Some (s1, s2)" "read s1 = [104, 105]" "handed s1 = []" "handed s2 = [104, 105]"
    using example_link_streams by (auto split: option.splits)
  have "length (handed s1) < 2 ^ 30 - 1" "length (handed s2) < 2 ^ 30 - 1" using e by simp_all
  from tcp_link_streams [OF example_link_run [OF e(1)] this] show ?thesis using e example_link_run [OF e(1)] by blast
qed

end
