(* ===== verification/Spec2Isabelle.thy ===== *)
theory Spec2Isabelle
  imports Calendar UHeap Base64 Utf8 InetAddr Udp Drbg TcpDelivery TcpShutdown TcpLink
begin

text \<open>
  Verification of the iPXE network boot loader that the Astro provisioning system builds and boots
  its machines with. Paths below are relative to \<^verbatim>\<open>src/ipxe-builder/ipxe/src\<close>; the machine is
  x86\_64 with the BIOS.

  \<^bold>\<open>The program and its parts.\<close> iPXE is a C program of cooperating components in one address space.
  A library of C functions (memory, strings, printing, encodings, time) and an allocator carry a
  network stack (I/O buffers, retry timers, fragment reassembly, IPv4, UDP, TCP) and a
  cryptographic library (digests, HMAC, entropy, random bits). There is one thread: a component runs
  when it is called, by a packet that arrives, by a timer that expires or by the scheduler. The
  models follow this: an operation is a function from the state to the new state, and
  what happens between operations is a sequence of them.

  \<^bold>\<open>Conventions.\<close> An \<^verbatim>\<open>unsigned int\<close> is a 32-bit word, an \<^verbatim>\<open>unsigned long\<close> and a \<^verbatim>\<open>size_t\<close> a 64-bit
  word, and arithmetic wraps as it does in C. A structure is a record with its fields, linked lists
  are lists, pointers into tables are indices. A function that returns a negative error number has
  the type \<open>'a result\<close>, the error on the left. What C leaves undefined, an access out of bounds and an
  assertion that fails are the value \<^const>\<open>None\<close>. Hardware, the current time, the outcome of
  allocations, the reactions of callers and code outside this repository are arguments; a hypothesis
  states what is relied on. Debug output, profiling and annotations for valgrind are left out.

  \<^bold>\<open>Theories, in the order of the layers.\<close>
  \<^item> \<^verbatim>\<open>Prelude\<close>: types of machine integers, results, lemmas on words, lists and maps.
  \<^item> \<^verbatim>\<open>Calendar\<close> (core/time.c): \<^verbatim>\<open>mktime\<close> against a calendar that counts days.
  \<^item> \<^verbatim>\<open>Memory\<close> (core/string.c): \<^verbatim>\<open>memcpy\<close>, \<^verbatim>\<open>memmove\<close> and their kind over an explicit memory;
    \<^verbatim>\<open>memmove\<close> is right for every overlap.
  \<^item> \<^verbatim>\<open>FreeList\<close>, \<^verbatim>\<open>Heap\<close>, \<^verbatim>\<open>HeapCorrect\<close>, \<^verbatim>\<open>HeapRealloc\<close> (core/malloc.c): the abstract free list, the
    allocator with 64-bit blocks, its refinement of the abstract list (soundness, completeness of the
    search, freeing undoes allocating), and the global heap with its cache discarders and
    \<^verbatim>\<open>realloc\<close> over the contents of memory.
  \<^item> \<^verbatim>\<open>Memmap\<close> (core/memmap.c, arch/x86/interface/pcbios/int15.c) and \<^verbatim>\<open>UHeap\<close> (core/uheap.c): the system
    memory map with the BIOS replies as arguments, and the external heap that grows downwards in it.
  \<^item> \<^verbatim>\<open>CString\<close>, \<^verbatim>\<open>Printf\<close> (core/string.c, core/vsprintf.c): strings, number parsing and formatted
    printing into bounded buffers, and that numbers are read back as printed.
  \<^item> \<^verbatim>\<open>Codec\<close>, \<^verbatim>\<open>Base64\<close>, \<^verbatim>\<open>Utf8\<close> (core/base16.c, base64.c, utf8.c): round trips and error paths.
  \<^item> \<^verbatim>\<open>ByteOrder\<close>, \<^verbatim>\<open>Checksum\<close> (include/byteswap.h, net/tcpip.c, arch/x86/core/x86\_tcpip.c): the
    reference checksum and the one in assembly, whose carry flag is explicit; they are equal.
  \<^item> \<^verbatim>\<open>Retry\<close> (net/retry.c): timers with back-off and reference counts, for any sequence of operations.
  \<^item> \<^verbatim>\<open>IoBuf\<close>, \<^verbatim>\<open>Fragment\<close> (core/iobuf.c, net/fragment.c): buffers, and reassembly proved once for any
    network layer that satisfies a contract, as a refinement of a map of partial packets.
  \<^item> \<^verbatim>\<open>Ipv4Route\<close>, \<^verbatim>\<open>Ipv4\<close>, \<^verbatim>\<open>InetAddr\<close> (net/ipv4.c): the routing table selects the most specific
    route, reassembly is interpreted for IPv4, what is transmitted is received, addresses as text.
  \<^item> \<^verbatim>\<open>Udp\<close> (net/udp.c, net/tcpip.c): ports, and a datagram from one application to another across
    UDP and IPv4 of two stations.
  \<^item> \<^verbatim>\<open>Tcp\<close>, \<^verbatim>\<open>TcpRx\<close> (net/tcp.c): connections, options, acknowledgements, the queue of received
    packets, timers, the discarder and the shutdown. \<^verbatim>\<open>TcpStream\<close> and \<^verbatim>\<open>TcpDelivery\<close> show that the
    application reads a prefix of the peer's stream whatever the network does, \<^verbatim>\<open>TcpSend\<close> what a
    connection puts on the wire, \<^verbatim>\<open>TcpShutdown\<close> that the shutdown returns.
  \<^item> \<^verbatim>\<open>Digest\<close>, \<^verbatim>\<open>Sha2\<close>, \<^verbatim>\<open>MdSha1\<close> (crypto/sha256.c, sha512.c, md4.c, md5.c, sha1.c): the block-wise
    accumulation, proved once for any compression function, and the digests against FIPS 180-4,
    RFC 1320 and RFC 1321 for data in any number of updates.
  \<^item> \<^verbatim>\<open>Hmac\<close>, \<^verbatim>\<open>Entropy\<close>, \<^verbatim>\<open>Drbg\<close> (crypto/hmac.c, hash\_df.c, hmac\_drbg.c, entropy.c, drbg.c, rbg.c,
    random\_nz.c): HMAC against RFC 2104 for any digest, the health tests against a description of
    healthy noise, and the generator as a refinement of HMAC\_DRBG of NIST SP 800-90.

  \<^bold>\<open>Interfaces.\<close> The locales state what one component relies on in another: \<^verbatim>\<open>block_digest\<close> the function
  that digests a block, \<^verbatim>\<open>hash_algorithm\<close> a digest under HMAC and the generator,
  \<^verbatim>\<open>reassembler_methods\<close> the methods of a network layer in fragment reassembly, \<^verbatim>\<open>growable_heap\<close> the hook
  that grows a heap. Each is interpreted on the definitions of the model.

  \<^bold>\<open>Termination.\<close> Loops are recursive functions that are proved to end. Where a loop depends on
  code that is an argument (the cache discarders, the growth of a heap, an entropy source, the
  connections that the shutdown of TCP closes) or on arithmetic that might wrap, the function is
  partial and a theorem shows that it returns: a discarder frees memory, a description of the memory
  map ends above its start, and the shutdown closes a connection in each turn. No fuel is used.

  \<^bold>\<open>Not modelled.\<close> The device drivers, the prefixes and the interfaces to EFI, Linux, Hyper-V and Xen
  are access to hardware and firmware. The link layers, ARP, ICMP, IPv6 and its neighbour discovery,
  the application protocols (DHCP, DNS, TFTP, HTTP, FTP, iSCSI, NFS, ...), TLS and the X.509 code
  are callers or neighbours of the modelled layers and are represented by arguments. The ciphers and the
  public-key algorithms are not modelled. The settings, the command line, images and menus
  belong to the user interface, on top of all of these. The build scripts, the configuration server
  and the operating system images of Astro are Python and shell around other programs.
\<close>

end
